(* ===== verification/Prelude.thy ===== *)
theory Prelude
  imports Main "HOL-Library.Word"
begin

text \<open>
  Shared vocabulary of the development: Go strings as lists of bytes
  (\<^typ>\<open>char list\<close>, one \<^typ>\<open>char\<close> per byte), Go's slice expression
  \<open>s[i:j]\<close>, fixed-width conversions, and the facts about bytes and lists that the component
  theories use. The collections \<open>byte_simps\<close> and \<open>slice_simps\<close> are handed to
  \<open>simp add:\<close> there.
\<close>

named_theorems byte_simps \<open>numeric facts about bytes\<close>
named_theorems slice_simps \<open>facts about slices of lists\<close>

subsection \<open>Bytes\<close>

text \<open>A byte read as a Go \<open>int\<close>; string literals of the source are compared through it.\<close>

abbreviation byte_val :: "char \<Rightarrow> int" where
  "byte_val c \<equiv> of_char c"

lemma byte_val_ge [byte_simps, simp]: "0 \<le> byte_val c"
  by (metis of_nat_0_le_iff of_nat_of_char)

lemma byte_val_less [byte_simps, simp]: "byte_val c < 256"
  by (metis nat_of_char_less_256 of_nat_less_iff of_nat_numeral of_nat_of_char)

lemma byte_val_not_eof [byte_simps, simp]: "byte_val c \<noteq> - 1"
  using byte_val_ge [of c] by linarith

lemma eof_not_byte_val [byte_simps, simp]: "- 1 \<noteq> byte_val c"
  using byte_val_ge [of c] by linarith

lemma byte_val_nat: "byte_val c = int (of_char c)"
  by (metis of_nat_of_char)

lemma char_eq_byte_val: "c = d \<longleftrightarrow> byte_val c = byte_val d"
  by simp

lemma char_of_eqI: "of_char c = (n :: nat) \<Longrightarrow> char_of n = c"
  by auto

lemma char_of_nat_eqI: "n < 256 \<Longrightarrow> of_char c = n \<longleftrightarrow> c = char_of (n :: nat)"
  by auto

lemma of_char_char_of_less [byte_simps]: "n < 256 \<Longrightarrow> of_char (char_of n) = (n :: nat)"
  by simp

lemma byte_val_char_of_less [byte_simps]: "n < 256 \<Longrightarrow> byte_val (char_of n) = int n"
  by (simp add: byte_val_nat)

text \<open>A property of bytes that holds of the 256 of them.\<close>

lemma all_bytes:
  "(\<And>n. n < 256 \<Longrightarrow> P (char_of (n :: nat))) \<Longrightarrow> P c"
  by (metis char_of_char nat_of_char_less_256)

subsection \<open>Slices\<close>

text \<open>Go's \<open>s[i:j]\<close> for indices in range.\<close>

definition slice :: "'a list \<Rightarrow> nat \<Rightarrow> nat \<Rightarrow> 'a list" where
  "slice xs i j = take (j - i) (drop i xs)"

lemma slice_self [slice_simps, simp]: "slice xs i i = []"
  by (simp add: slice_def)

lemma length_slice [slice_simps]: "j \<le> length xs \<Longrightarrow> length (slice xs i j) = j - i"
  by (simp add: slice_def)

lemma slice_0 [slice_simps]: "slice xs 0 j = take j xs"
  by (simp add: slice_def)

lemma slice_full [slice_simps]: "slice xs i (length xs) = drop i xs"
  by (simp add: slice_def)

lemma slice_append_slice:
  "i \<le> j \<Longrightarrow> j \<le> k \<Longrightarrow> slice xs i j @ slice xs j k = slice xs i k"
proof -
  assume ij: "i \<le> j" and jk: "j \<le> k"
  have "drop j xs = drop (j - i) (drop i xs)" using ij by simp
  moreover have "k - i = (j - i) + (k - j)" using ij jk by simp
  ultimately show ?thesis unfolding slice_def by (simp only: take_add)
qed

lemma slice_snoc:
  assumes "i \<le> j" "j < length xs"
  shows "slice xs i (Suc j) = slice xs i j @ [xs ! j]"
proof -
  have "slice xs i (Suc j) = slice xs i j @ slice xs j (Suc j)"
    using assms by (simp add: slice_append_slice)
  also have "slice xs j (Suc j) = [xs ! j]"
    using assms by (simp add: slice_def take_Suc_conv_app_nth Cons_nth_drop_Suc [symmetric])
  finally show ?thesis .
qed

lemma slice_shift [slice_simps]:
  "slice (ys @ xs) (length ys + i) (length ys + j) = slice xs i j"
  by (simp add: slice_def)

lemma slice_drop: "slice (drop n xs) i j = slice xs (n + i) (n + j)"
  by (simp add: slice_def add.commute)

lemma slice_eq_prefix:
  "drop i xs = ys @ zs \<Longrightarrow> slice xs i (i + length ys) = ys"
  by (simp add: slice_def)

lemma drop_Cons_nth:
  assumes "drop n xs = y # ys"
  shows "n < length xs" and "xs ! n = y" and "drop (Suc n) xs = ys"
proof -
  show n: "n < length xs"
    using assms by (metis drop_all leI list.distinct(1))
  show "xs ! n = y" and "drop (Suc n) xs = ys"
    using assms Cons_nth_drop_Suc [OF n] by simp_all
qed

lemma drop_append_drop:
  "drop n xs = ys @ zs \<Longrightarrow> drop (n + length ys) xs = zs"
  by (metis append_eq_conv_conj drop_drop add.commute)

subsection \<open>Fixed-width conversions\<close>

text \<open>Go's conversion \<open>int32(x)\<close>: two's complement wrap-around.\<close>

definition int32 :: "int \<Rightarrow> int" where
  "int32 x = signed_take_bit 31 x"

lemma int32_id: "- (2 ^ 31) \<le> x \<Longrightarrow> x < 2 ^ 31 \<Longrightarrow> int32 x = x"
  by (simp add: int32_def signed_take_bit_int_eq_self)

subsection \<open>Decimal and hexadecimal text\<close>

text \<open>\<open>strconv.Itoa\<close> of a natural number.\<close>

definition digit_char :: "nat \<Rightarrow> char" where
  "digit_char d = char_of (48 + d)"

fun show_nat :: "nat \<Rightarrow> string" where
  "show_nat n = (if n < 10 then [digit_char n] else show_nat (n div 10) @ [digit_char (n mod 10)])"

declare show_nat.simps [simp del]

text \<open>The value of a string of decimal digits.\<close>

fun read_nat_acc :: "nat \<Rightarrow> string \<Rightarrow> nat" where
  "read_nat_acc a [] = a"
| "read_nat_acc a (c # cs) = read_nat_acc (10 * a + (of_char c - 48)) cs"

definition read_nat :: "string \<Rightarrow> nat" where
  "read_nat s = read_nat_acc 0 s"

definition is_digit_char :: "char \<Rightarrow> bool" where
  "is_digit_char c = (48 \<le> byte_val c \<and> byte_val c \<le> 57)"

lemma read_nat_acc_append: "read_nat_acc a (xs @ ys) = read_nat_acc (read_nat_acc a xs) ys"
  by (induction xs arbitrary: a) auto

lemma of_char_digit_char [simp]: "d < 10 \<Longrightarrow> of_char (digit_char d) = 48 + d"
  by (simp add: digit_char_def)

lemma is_digit_digit_char [simp]: "d < 10 \<Longrightarrow> is_digit_char (digit_char d)"
  by (simp add: is_digit_char_def byte_val_nat)

lemma read_show_nat: "read_nat (show_nat n) = n"
proof (induction n rule: show_nat.induct)
  case (1 n)
  then show ?case
    by (subst show_nat.simps) (auto simp: read_nat_def read_nat_acc_append)
qed

lemma show_nat_digits: "\<forall>c \<in> set (show_nat n). is_digit_char c"
proof (induction n rule: show_nat.induct)
  case (1 n)
  then show ?case
    by (subst show_nat.simps) auto
qed

lemma show_nat_not_Nil [simp]: "show_nat n \<noteq> []"
  by (subst show_nat.simps) simp

subsection \<open>Results\<close>

text \<open>Fallible operations return a sum: \<^term>\<open>Inl e\<close> the error, \<^term>\<open>Inr v\<close> the value.\<close>

fun bind_result :: "'e + 'a \<Rightarrow> ('a \<Rightarrow> 'e + 'b) \<Rightarrow> 'e + 'b" where
  "bind_result (Inl e) f = Inl e"
| "bind_result (Inr x) f = f x"

lemma bind_result_Inr [simp]:
  "bind_result r f = Inr y \<longleftrightarrow> (\<exists>x. r = Inr x \<and> f x = Inr y)"
  by (cases r) auto

subsection \<open>Evaluation of tables\<close>

text \<open>
  With these congruences the simplifier evaluates a function along a literal list without
  visiting the rest of the list at every step.
\<close>

lemma no_congs:
  "filter P xs = filter P xs" "list_all P xs = list_all P xs" "successively R xs = successively R xs"
  "map_of ps k = map_of ps k"
  by (rule refl)+

lemma nth_weak_cong: "m = n \<Longrightarrow> xs ! m = xs ! n"
  by simp

end
