(* ===== verification/Utf8.thy ===== *)
theory Utf8
  imports Prelude
begin

text \<open>
  The part of Go's \<open>unicode/utf8\<close> and of the language's \<open>range\<close> loop over strings that the
  sources use: \<open>DecodeRuneInString\<close>, \<open>EncodeRune\<close>, \<open>RuneLen\<close>, \<open>Valid\<close>. A rune is a natural
  number; an undecodable byte is reported as \<open>RuneError\<close> with width 1, as the package documents.
\<close>

abbreviation RuneError :: nat where "RuneError \<equiv> 0xFFFD"
abbreviation MaxRune :: nat where "MaxRune \<equiv> 0x10FFFF"
abbreviation RuneSelf :: int where "RuneSelf \<equiv> 0x80"

definition valid_rune :: "nat \<Rightarrow> bool" where
  "valid_rune r = (r < 0xD800 \<or> (0xDFFF < r \<and> r \<le> MaxRune))"

text \<open>\<open>utf8.RuneLen\<close>; \<open>None\<close> stands for the result \<open>-1\<close>.\<close>

definition RuneLen :: "nat \<Rightarrow> nat option" where
  "RuneLen r =
     (if r \<le> 0x7F then Some 1
      else if r \<le> 0x7FF then Some 2
      else if 0xD800 \<le> r \<and> r \<le> 0xDFFF then None
      else if r \<le> 0xFFFF then Some 3
      else if r \<le> MaxRune then Some 4
      else None)"

definition encode3 :: "nat \<Rightarrow> string" where
  "encode3 r = [char_of (0xE0 + r div 4096), char_of (0x80 + r div 64 mod 64),
                char_of (0x80 + r mod 64)]"

definition EncodeRune :: "nat \<Rightarrow> string" where
  "EncodeRune r =
     (if r \<le> 0x7F then [char_of r]
      else if r \<le> 0x7FF then [char_of (0xC0 + r div 64), char_of (0x80 + r mod 64)]
      else if \<not> valid_rune r then encode3 RuneError
      else if r \<le> 0xFFFF then encode3 r
      else [char_of (0xF0 + r div 262144), char_of (0x80 + r div 4096 mod 64),
            char_of (0x80 + r div 64 mod 64), char_of (0x80 + r mod 64)])"

definition in_range :: "nat \<Rightarrow> nat \<Rightarrow> char \<Rightarrow> bool" where
  "in_range lo hi c = (lo \<le> of_char c \<and> of_char c \<le> hi)"

abbreviation is_cont :: "char \<Rightarrow> bool" where
  "is_cont \<equiv> in_range 0x80 0xBF"

definition decode2 :: "nat \<Rightarrow> string \<Rightarrow> nat \<times> nat" where
  "decode2 b0 cs = (case cs of
       c1 # _ \<Rightarrow>
         if is_cont c1 then (b0 mod 32 * 64 + of_char c1 mod 64, 2) else (RuneError, 1)
     | _ \<Rightarrow> (RuneError, 1))"

definition decode3 :: "nat \<Rightarrow> string \<Rightarrow> nat \<times> nat" where
  "decode3 b0 cs = (case cs of
       c1 # c2 # _ \<Rightarrow>
         if in_range (if b0 = 0xE0 then 0xA0 else 0x80) (if b0 = 0xED then 0x9F else 0xBF) c1
            \<and> is_cont c2
         then (b0 mod 16 * 4096 + of_char c1 mod 64 * 64 + of_char c2 mod 64, 3)
         else (RuneError, 1)
     | _ \<Rightarrow> (RuneError, 1))"

definition decode4 :: "nat \<Rightarrow> string \<Rightarrow> nat \<times> nat" where
  "decode4 b0 cs = (case cs of
       c1 # c2 # c3 # _ \<Rightarrow>
         if in_range (if b0 = 0xF0 then 0x90 else 0x80) (if b0 = 0xF4 then 0x8F else 0xBF) c1
            \<and> is_cont c2 \<and> is_cont c3
         then (b0 mod 8 * 262144 + of_char c1 mod 64 * 4096 + of_char c2 mod 64 * 64
               + of_char c3 mod 64, 4)
         else (RuneError, 1)
     | _ \<Rightarrow> (RuneError, 1))"

text \<open>\<open>utf8.DecodeRuneInString\<close>: the first rune and its width.\<close>

fun DecodeRune :: "string \<Rightarrow> nat \<times> nat" where
  "DecodeRune [] = (RuneError, 0)"
| "DecodeRune (c # cs) =
     (let b0 = of_char c in
      if b0 < 0x80 then (b0, 1)
      else if b0 < 0xC2 then (RuneError, 1)
      else if b0 < 0xE0 then decode2 b0 cs
      else if b0 < 0xF0 then decode3 b0 cs
      else if b0 < 0xF5 then decode4 b0 cs
      else (RuneError, 1))"

lemmas decode_defs = decode2_def decode3_def decode4_def

lemma DecodeRune_width:
  assumes "s \<noteq> []"
  shows "1 \<le> snd (DecodeRune s)" and "snd (DecodeRune s) \<le> length s"
    and "snd (DecodeRune s) \<le> 4"
  using assms by (cases s; auto simp: decode_defs Let_def split: list.splits)+

text \<open>\<open>utf8.Valid\<close>.\<close>

function utf8_valid :: "string \<Rightarrow> bool" where
  "utf8_valid s =
     (if s = [] then True
      else let (r, n) = DecodeRune s in
        if r = RuneError \<and> n = 1 then False else utf8_valid (drop n s))"
  by pat_completeness auto
termination
proof (relation "measure length", goal_cases)
  case (2 s x r n)
  then have "1 \<le> n"
    using DecodeRune_width(1) [of s] by (metis snd_conv)
  with 2 show ?case by simp
qed simp

declare utf8_valid.simps [simp del]

text \<open>The pairs a Go loop \<open>for i, r := range s\<close> runs over, with the offset of \<open>s\<close>.\<close>

function range_runes :: "nat \<Rightarrow> string \<Rightarrow> (nat \<times> nat) list" where
  "range_runes i s =
     (if s = [] then []
      else let (r, n) = DecodeRune s in (i, r) # range_runes (i + n) (drop n s))"
  by pat_completeness auto
termination
proof (relation "measure (\<lambda>(i, s). length s)", goal_cases)
  case (2 i s x r n)
  then have "1 \<le> n"
    using DecodeRune_width(1) [of s] by (metis snd_conv)
  with 2 show ?case by simp
qed simp

declare range_runes.simps [simp del]

subsection \<open>Encoding and decoding are inverse\<close>

lemma valid_rune_RuneError [simp]: "valid_rune RuneError"
  by (simp add: valid_rune_def)

lemma length_EncodeRune: "valid_rune r \<Longrightarrow> RuneLen r = Some (length (EncodeRune r))"
  by (auto simp: RuneLen_def EncodeRune_def encode3_def valid_rune_def)

lemma EncodeRune_not_Nil [simp]: "EncodeRune r \<noteq> []"
  by (auto simp: EncodeRune_def encode3_def)

text \<open>A code point split into its six-bit groups.\<close>

lemma split_groups:
  obtains p n m :: nat
  where "r = 4096 * p + 64 * n + m" "n < 64" "m < 64"
    "r div 4096 = p" "r div 64 mod 64 = n" "r mod 64 = m" "r div 64 = 64 * p + n"
proof
  have d: "r div 64 div 64 = r div 4096"
    by (simp add: div_mult2_eq [symmetric])
  have q: "r div 64 = 64 * (r div 4096) + r div 64 mod 64"
    using mult_div_mod_eq [of 64 "r div 64"] d by simp
  show "r = 4096 * (r div 4096) + 64 * (r div 64 mod 64) + r mod 64"
    using mult_div_mod_eq [of 64 r] q by linarith
  show "r div 64 = 64 * (r div 4096) + r div 64 mod 64" by (rule q)
qed simp_all

lemma split_groups4:
  obtains q p n m :: nat
  where "r = 262144 * q + 4096 * p + 64 * n + m" "p < 64" "n < 64" "m < 64"
    "r div 262144 = q" "r div 4096 mod 64 = p" "r div 64 mod 64 = n" "r mod 64 = m"
proof -
  obtain p' n m where g: "r = 4096 * p' + 64 * n + m" "n < 64" "m < 64"
    "r div 4096 = p'" "r div 64 mod 64 = n" "r mod 64 = m"
    by (rule split_groups)
  have "r div 4096 div 64 = r div 262144"
    by (simp add: div_mult2_eq [symmetric])
  then have "p' = 64 * (r div 262144) + p' mod 64"
    using mult_div_mod_eq [of 64 p'] g(4) by simp
  with g show ?thesis
    by (intro that [of "r div 262144" "p' mod 64" n m]) auto
qed

lemma group_mods:
  "n < 64 \<Longrightarrow> (128 + n) mod 64 = (n :: nat)"
  "n < 32 \<Longrightarrow> (192 + n) mod 32 = (n :: nat)"
  "n < 16 \<Longrightarrow> (224 + n) mod 16 = (n :: nat)"
  "n < 8 \<Longrightarrow> (240 + n) mod 8 = (n :: nat)"
  using mod_mult_self4 [of 64 2 n] mod_mult_self4 [of 32 6 n]
    mod_mult_self4 [of 16 14 n] mod_mult_self4 [of 8 30 n]
  by simp_all

lemma decode_encode2:
  assumes "0x7F < r" "r \<le> 0x7FF"
  shows "DecodeRune (EncodeRune r @ rest) = (r, 2)"
proof -
  obtain p n m where g: "r = 4096 * p + 64 * n + m" "n < 64" "m < 64" "r mod 64 = m"
    "r div 64 = 64 * p + n" by (rule split_groups)
  have p: "p = 0"
    using assms g(1) by linarith
  have r: "r = 64 * n + m"
    using g(1) unfolding p by simp
  have n: "2 \<le> n" "n < 32"
    using assms g(3) unfolding r by linarith+
  have "EncodeRune r = [char_of (0xC0 + n), char_of (0x80 + m)]"
    using assms g p by (simp add: EncodeRune_def)
  then show ?thesis
    using g(3) r n by (simp add: Let_def decode2_def in_range_def group_mods)
qed

lemma decode_encode3:
  assumes "0x7FF < r" "r \<le> 0xFFFF" "valid_rune r"
  shows "DecodeRune (EncodeRune r @ rest) = (r, 3)"
proof -
  obtain p n m where g: "r = 4096 * p + 64 * n + m" "n < 64" "m < 64"
    "r div 4096 = p" "r div 64 mod 64 = n" "r mod 64 = m" by (rule split_groups)
  then have p: "p < 16" and lo: "p = 0 \<Longrightarrow> 32 \<le> n" and hi: "p = 13 \<Longrightarrow> n \<le> 31"
    using assms by (auto simp: valid_rune_def)
  have "EncodeRune r = [char_of (0xE0 + p), char_of (0x80 + n), char_of (0x80 + m)]"
    using assms g by (simp add: EncodeRune_def encode3_def)
  then show ?thesis
    using g(1-3) p lo hi by (auto simp: Let_def decode3_def in_range_def group_mods)
qed

lemma decode_encode4:
  assumes "0xFFFF < r" "r \<le> MaxRune"
  shows "DecodeRune (EncodeRune r @ rest) = (r, 4)"
proof -
  obtain q p n m where g: "r = 262144 * q + 4096 * p + 64 * n + m" "p < 64" "n < 64" "m < 64"
    "r div 262144 = q" "r div 4096 mod 64 = p" "r div 64 mod 64 = n" "r mod 64 = m"
    by (rule split_groups4)
  then have q: "q \<le> 4" and lo: "q = 0 \<Longrightarrow> 16 \<le> p" and hi: "q = 4 \<Longrightarrow> p \<le> 15"
    using assms by auto
  have "EncodeRune r = [char_of (0xF0 + q), char_of (0x80 + p), char_of (0x80 + n), char_of (0x80 + m)]"
    using assms g by (simp add: EncodeRune_def valid_rune_def)
  then show ?thesis
    using g(1-4) q lo hi by (auto simp: Let_def decode4_def in_range_def group_mods)
qed

lemma decode_encode:
  assumes "valid_rune r"
  shows "DecodeRune (EncodeRune r @ rest) = (r, length (EncodeRune r))"
proof -
  consider "r \<le> 0x7F" | "0x7F < r" "r \<le> 0x7FF" | "0x7FF < r" "r \<le> 0xFFFF" | "0xFFFF < r" "r \<le> MaxRune"
    using assms unfolding valid_rune_def by linarith
  then show ?thesis
  proof cases
    case 1
    then show ?thesis by (simp add: EncodeRune_def)
  next
    case 2
    then show ?thesis by (simp add: decode_encode2) (simp add: EncodeRune_def)
  next
    case 3
    with assms show ?thesis by (simp add: decode_encode3) (simp add: EncodeRune_def encode3_def)
  next
    case 4
    with assms show ?thesis by (simp add: decode_encode4) (simp add: EncodeRune_def)
  qed
qed


text \<open>A decoded rune re-encodes to the bytes it was read from.\<close>

definition decoded :: "nat \<Rightarrow> nat \<Rightarrow> bool" where
  "decoded r n = (\<not> (r = RuneError \<and> n = 1))"

lemma in_rangeE:
  assumes "in_range lo hi c"
  obtains k :: nat where "of_char c = lo + k" "lo + k \<le> hi"
  using assms that [of "of_char c - lo"] by (simp add: in_range_def)

lemma char_of_add: "of_char c = a + k \<Longrightarrow> char_of (a + k :: nat) = c"
  by (metis char_of_char)

lemma encode_decode2:
  assumes "DecodeRune (c # cs) = (r, n)" "decoded r n" "0xC2 \<le> (of_char c :: nat)" "(of_char c :: nat) < 0xE0"
  shows "take n (c # cs) = EncodeRune r" "valid_rune r"
proof -
  obtain k :: nat where k: "of_char c = 192 + k" "2 \<le> k" "k < 32"
    using assms(3,4) by (intro that [of "of_char c - 192"]) auto
  obtain c1 cs' where cs: "cs = c1 # cs'" "is_cont c1"
    and r: "r = (of_char c :: nat) mod 32 * 64 + of_char c1 mod 64" "n = 2"
    using assms by (auto simp: decode2_def decoded_def split: list.splits if_splits)
  obtain m :: nat where m: "of_char c1 = 128 + m" "128 + m \<le> 0xBF"
    using cs(2) by (rule in_rangeE)
  have r': "r = 64 * k + m"
    using r m k by (simp add: group_mods)
  with m k show "take n (c # cs) = EncodeRune r" "valid_rune r"
    by (simp_all add: EncodeRune_def cs r(2) char_of_add valid_rune_def)
qed

lemma joined_groups:
  assumes "k < 64" "m < 64"
  shows "(4096 * p + 64 * k + m) div 4096 = (p :: nat)"
    "(4096 * p + 64 * k + m) div 64 = 64 * p + k" "(4096 * p + 64 * k + m) div 64 mod 64 = k" "(4096 * p + 64 * k + m) mod 64 = m"
proof -
  have e: "4096 * p + 64 * k + m = 64 * (64 * p + k) + m" by simp
  show 1: "(4096 * p + 64 * k + m) div 64 = 64 * p + k"
    unfolding e using assms by simp
  show "(4096 * p + 64 * k + m) div 64 mod 64 = k"
    unfolding 1 using assms by (simp only: mod_mult_self4 mod_less)
  show "(4096 * p + 64 * k + m) mod 64 = m"
    unfolding e using assms by (simp only: mod_mult_self4 mod_less)
  have "(4096 * p + 64 * k + m) div (64 * 64) = p"
    unfolding div_mult2_eq 1 using assms by simp
  then show "(4096 * p + 64 * k + m) div 4096 = p" by simp
qed

lemma encode_decode3:
  assumes "DecodeRune (c # cs) = (r, n)" "decoded r n" "0xE0 \<le> (of_char c :: nat)" "(of_char c :: nat) < 0xF0"
  shows "take n (c # cs) = EncodeRune r" "valid_rune r"
proof -
  obtain p :: nat where p: "of_char c = 224 + p" "p < 16"
    using assms(3,4) by (intro that [of "of_char c - 224"]) auto
  have d: "decode3 (224 + p) cs = (r, n)"
    using assms p by (simp add: Let_def)
  obtain c1 c2 cs' where cs: "cs = c1 # c2 # cs'" "is_cont c1" "is_cont c2"
    and lo: "p = 0 \<Longrightarrow> 0xA0 \<le> (of_char c1 :: nat)" and hi: "p = 13 \<Longrightarrow> of_char c1 \<le> (0x9F :: nat)"
    and r: "r = (of_char c :: nat) mod 16 * 4096 + of_char c1 mod 64 * 64 + of_char c2 mod 64" "n = 3"
    using d assms(2) p by (auto simp: decode3_def decoded_def in_range_def split: list.splits if_splits)
  obtain k :: nat where k: "of_char c1 = 128 + k" "128 + k \<le> 0xBF"
    using cs(2) by (rule in_rangeE)
  obtain m :: nat where m: "of_char c2 = 128 + m" "128 + m \<le> 0xBF"
    using cs(3) by (rule in_rangeE)
  have r': "r = 4096 * p + 64 * k + m"
    using r m k p by (simp add: group_mods)
  have div: "r div 4096 = p" "r div 64 mod 64 = k" "r mod 64 = m"
    using joined_groups [of k m p] k m r' by simp_all
  have km: "k < 64" "m < 64" using k m by simp_all
  have big: "r \<le> 0xFFFF" using p(2) km unfolding r' by linarith
  have sml: "0x7FF < r"
  proof (cases "p = 0")
    case True
    then have "32 \<le> k" using lo k(1) by simp
    then show ?thesis unfolding r' by linarith
  qed (use r' in linarith)
  have v: "valid_rune r"
  proof (cases "p = 13")
    case True
    then have "k \<le> 31" using hi k(1) by simp
    then have "r < 0xD800" using km(2) unfolding r' True by linarith
    then show ?thesis by (simp add: valid_rune_def)
  next
    case False
    then consider "p \<le> 12" | "14 \<le> p" by linarith
    then have "r < 0xD800 \<or> 0xDFFF < r" using km unfolding r' by cases linarith+
    then show ?thesis using big by (auto simp: valid_rune_def)
  qed
  show "valid_rune r" by (rule v)
  show "take n (c # cs) = EncodeRune r"
    using big sml v div m(1) k(1) p(1) by (simp add: EncodeRune_def encode3_def cs r(2) char_of_add)
qed


lemma encode_decode4:
  assumes "DecodeRune (c # cs) = (r, n)" "decoded r n" "0xF0 \<le> (of_char c :: nat)" "(of_char c :: nat) < 0xF5"
  shows "take n (c # cs) = EncodeRune r" "valid_rune r"
proof -
  obtain q :: nat where q: "of_char c = 240 + q" "q \<le> 4"
    using assms(3,4) by (intro that [of "of_char c - 240"]) auto
  have d: "decode4 (240 + q) cs = (r, n)"
    using assms q by (simp add: Let_def)
  obtain c1 c2 c3 cs' where cs: "cs = c1 # c2 # c3 # cs'" "is_cont c1" "is_cont c2" "is_cont c3"
    and lo: "q = 0 \<Longrightarrow> 0x90 \<le> (of_char c1 :: nat)" and hi: "q = 4 \<Longrightarrow> of_char c1 \<le> (0x8F :: nat)"
    and r: "r = (of_char c :: nat) mod 8 * 262144 + of_char c1 mod 64 * 4096
                + of_char c2 mod 64 * 64 + of_char c3 mod 64" "n = 4"
    using d assms(2) q by (auto simp: decode4_def decoded_def in_range_def split: list.splits if_splits)
  obtain p :: nat where p: "of_char c1 = 128 + p" "128 + p \<le> 0xBF"
    using cs(2) by (rule in_rangeE)
  obtain k :: nat where k: "of_char c2 = 128 + k" "128 + k \<le> 0xBF"
    using cs(3) by (rule in_rangeE)
  obtain m :: nat where m: "of_char c3 = 128 + m" "128 + m \<le> 0xBF"
    using cs(4) by (rule in_rangeE)
  have r': "r = 4096 * (64 * q + p) + 64 * k + m"
    using r m k p q by (simp add: group_mods)
  have km: "k < 64" "m < 64" "p < 64" using k m p by simp_all
  have div: "r div 4096 = 64 * q + p" "r div 64 mod 64 = k" "r mod 64 = m"
    unfolding r' by (rule joined_groups [OF km(1,2)])+
  have "r div (4096 * 64) = q"
    unfolding div_mult2_eq div(1) using km by simp
  then have div': "r div 262144 = q" "r div 4096 mod 64 = p"
    unfolding div(1) using km by (simp, simp only: mod_mult_self4 mod_less)
  have r2: "r = 262144 * q + 4096 * p + 64 * k + m" using r' by simp
  have sml: "0xFFFF < r"
  proof (cases "q = 0")
    case True
    then have "16 \<le> p" using lo p(1) by simp
    then show ?thesis unfolding r2 by linarith
  qed (use r2 in linarith)
  have big: "r \<le> MaxRune"
  proof (cases "q = 4")
    case True
    then have "p \<le> 15" using hi p(1) by simp
    then show ?thesis using km unfolding r2 True by linarith
  next
    case False
    then have "q \<le> 3" using q(2) by linarith
    then show ?thesis using km unfolding r2 by linarith
  qed
  with sml show v: "valid_rune r" by (simp add: valid_rune_def)
  show "take n (c # cs) = EncodeRune r"
    using sml v div(2,3) div' m(1) k(1) p(1) q(1) by (simp add: EncodeRune_def cs r(2) char_of_add)
qed

lemma encode_decode:
  assumes "DecodeRune s = (r, n)" "s \<noteq> []" "decoded r n"
  shows "take n s = EncodeRune r" and "valid_rune r" and "n = length (EncodeRune r)"
proof -
  obtain c cs where s: "s = c # cs" using assms(2) by (cases s) auto
  consider "of_char c < (0x80 :: nat)" | "0xC2 \<le> (of_char c :: nat)" "(of_char c :: nat) < 0xE0"
    | "0xE0 \<le> (of_char c :: nat)" "(of_char c :: nat) < 0xF0" | "0xF0 \<le> (of_char c :: nat)" "(of_char c :: nat) < 0xF5"
    using assms unfolding s
    by (auto simp: decoded_def Let_def split: if_splits)
  then have *: "take n s = EncodeRune r \<and> valid_rune r"
  proof cases
    case 1
    with assms s show ?thesis by (auto simp: EncodeRune_def valid_rune_def)
  next
    case 2
    then show ?thesis
      unfolding s using encode_decode2 [OF assms(1)[unfolded s] assms(3)] by blast
  next
    case 3
    then show ?thesis
      unfolding s using encode_decode3 [OF assms(1)[unfolded s] assms(3)] by blast
  next
    case 4
    then show ?thesis
      unfolding s using encode_decode4 [OF assms(1)[unfolded s] assms(3)] by blast
  qed
  then show "take n s = EncodeRune r" "valid_rune r" by auto
  have "n \<le> length s" using DecodeRune_width(2) [OF assms(2)] assms(1) by simp
  with * show "n = length (EncodeRune r)" by (metis length_take min_absorb2)
qed


subsection \<open>Valid strings are sequences of encoded runes\<close>

lemma utf8_valid_Nil [simp]: "utf8_valid []"
  by (simp add: utf8_valid.simps)

lemma utf8_valid_encode [simp]:
  assumes "valid_rune r"
  shows "utf8_valid (EncodeRune r @ s) = utf8_valid s"
proof -
  have "\<not> (r = RuneError \<and> length (EncodeRune r) = 1)"
    by (auto simp: EncodeRune_def encode3_def valid_rune_def)
  then show ?thesis
    by (subst utf8_valid.simps) (auto simp: decode_encode [OF assms])
qed

lemma utf8_valid_concat:
  "(\<And>r. r \<in> set rs \<Longrightarrow> valid_rune r) \<Longrightarrow> utf8_valid (concat (map EncodeRune rs) @ s) = utf8_valid s"
  by (induction rs) auto

lemma utf8_valid_runes:
  "utf8_valid s \<Longrightarrow> \<exists>rs. (\<forall>r \<in> set rs. valid_rune r) \<and> s = concat (map EncodeRune rs)"
proof (induction s rule: utf8_valid.induct)
  case (1 s)
  show ?case
  proof (cases "s = []")
    case True
    then show ?thesis by (intro exI [of _ "[]"]) simp
  next
    case False
    obtain r n where d: "DecodeRune s = (r, n)" by (cases "DecodeRune s")
    have ok: "decoded r n" and v: "utf8_valid (drop n s)"
      using "1.prems" False d by (auto simp: utf8_valid.simps [of s] decoded_def split: if_splits)
    then obtain rs where rs: "\<forall>r \<in> set rs. valid_rune r" "drop n s = concat (map EncodeRune rs)"
      using "1.IH" [OF False d [symmetric] refl] by (auto simp: decoded_def)
    have "s = EncodeRune r @ concat (map EncodeRune rs)"
      using encode_decode(1) [OF d False ok] rs(2) append_take_drop_id [of n s] by metis
    with rs(1) encode_decode(2) [OF d False ok] show ?thesis
      by (intro exI [of _ "r # rs"]) simp
  qed
qed

lemma utf8_valid_append:
  assumes "utf8_valid xs"
  shows "utf8_valid (xs @ ys) = utf8_valid ys"
proof -
  obtain rs where "\<forall>r \<in> set rs. valid_rune r" "xs = concat (map EncodeRune rs)"
    using utf8_valid_runes [OF assms] by blast
  then show ?thesis using utf8_valid_concat [of rs ys] by simp
qed

lemma utf8_valid_iff:
  "utf8_valid s \<longleftrightarrow> (\<exists>rs. (\<forall>r \<in> set rs. valid_rune r) \<and> s = concat (map EncodeRune rs))"
  using utf8_valid_runes utf8_valid_concat [of _ "[]"] by fastforce

lemma EncodeRune_ascii: "of_char c < (0x80 :: nat) \<Longrightarrow> EncodeRune (of_char c) = [c]"
  by (simp add: EncodeRune_def)

lemma utf8_valid_ascii_Cons:
  assumes "of_char c < (0x80 :: nat)"
  shows "utf8_valid (c # s) = utf8_valid s"
  using utf8_valid_encode [of "of_char c" s] assms
  by (simp add: EncodeRune_ascii valid_rune_def)

lemma utf8_valid_ascii: "(\<And>c. c \<in> set s \<Longrightarrow> of_char c < (0x80 :: nat)) \<Longrightarrow> utf8_valid s"
  by (induction s) (auto simp: utf8_valid_ascii_Cons)

lemma range_runes_Nil [simp]: "range_runes i [] = []"
  by (simp add: range_runes.simps)

lemma range_runes_encode:
  "valid_rune r \<Longrightarrow>
   range_runes i (EncodeRune r @ s) = (i, r) # range_runes (i + length (EncodeRune r)) s"
  by (subst range_runes.simps) (simp add: decode_encode)


text \<open>The runes of a string, without their offsets.\<close>

definition runes :: "string \<Rightarrow> nat list" where
  "runes s = map snd (range_runes 0 s)"

lemma map_snd_range_runes: "map snd (range_runes i s) = map snd (range_runes j s)"
proof (induction i s arbitrary: j rule: range_runes.induct)
  case (1 i s)
  show ?case
  proof (cases "s = []")
    case False
    obtain r n where d: "DecodeRune s = (r, n)" by (cases "DecodeRune s")
    have "map snd (range_runes (i + n) (drop n s)) = map snd (range_runes (j + n) (drop n s))"
      using "1.IH" [OF False d [symmetric] refl] by blast
    then show ?thesis
      using False d by (simp add: range_runes.simps [of i s] range_runes.simps [of j s])
  qed simp
qed

lemma runes_Nil [simp]: "runes [] = []"
  by (simp add: runes_def)

lemma runes_encode [simp]: "valid_rune r \<Longrightarrow> runes (EncodeRune r @ s) = r # runes s"
  using map_snd_range_runes [of "length (EncodeRune r)" s 0]
  by (simp add: runes_def range_runes_encode)

lemma runes_ascii_Cons: "of_char c < (0x80 :: nat) \<Longrightarrow> runes (c # s) = of_char c # runes s"
  using runes_encode [of "of_char c" s] by (simp add: EncodeRune_ascii valid_rune_def)

end
