(* ===== verification/Lex_Keywords.thy ===== *)
theory Lex_Keywords
  imports Utf8
begin

text \<open>
  The token numbers of \<open>lex/tokens.go\<close> that the hand-written code names, the keyword table
  that \<open>GetKeywordID\<close> of \<open>lex/keywords.go\<close> switches over, and the reserved keywords of
  \<open>lex/reserved_keywords.go\<close> and \<open>lex/predicates.go\<close>. The three sources are generated
  from the grammar; the tables below are the same data in the same order.
\<close>

subsection \<open>Token numbers\<close>

abbreviation T_IDENT :: int where "T_IDENT \<equiv> 57346"
abbreviation T_SCONST :: int where "T_SCONST \<equiv> 57347"
abbreviation T_BCONST :: int where "T_BCONST \<equiv> 57348"
abbreviation T_BITCONST :: int where "T_BITCONST \<equiv> 57349"
abbreviation T_ICONST :: int where "T_ICONST \<equiv> 57350"
abbreviation T_FCONST :: int where "T_FCONST \<equiv> 57351"
abbreviation T_PLACEHOLDER :: int where "T_PLACEHOLDER \<equiv> 57352"
abbreviation T_TYPECAST :: int where "T_TYPECAST \<equiv> 57353"
abbreviation T_TYPEANNOTATE :: int where "T_TYPEANNOTATE \<equiv> 57354"
abbreviation T_DOT_DOT :: int where "T_DOT_DOT \<equiv> 57355"
abbreviation T_LESS_EQUALS :: int where "T_LESS_EQUALS \<equiv> 57356"
abbreviation T_GREATER_EQUALS :: int where "T_GREATER_EQUALS \<equiv> 57357"
abbreviation T_NOT_EQUALS :: int where "T_NOT_EQUALS \<equiv> 57358"
abbreviation T_NOT_REGMATCH :: int where "T_NOT_REGMATCH \<equiv> 57359"
abbreviation T_REGIMATCH :: int where "T_REGIMATCH \<equiv> 57360"
abbreviation T_NOT_REGIMATCH :: int where "T_NOT_REGIMATCH \<equiv> 57361"
abbreviation T_ERROR :: int where "T_ERROR \<equiv> 57362"
abbreviation T_AND_AND :: int where "T_AND_AND \<equiv> 57375"
abbreviation T_CBRT :: int where "T_CBRT \<equiv> 57403"
abbreviation T_CONCAT :: int where "T_CONCAT \<equiv> 57422"
abbreviation T_CONTAINS :: int where "T_CONTAINS \<equiv> 57430"
abbreviation T_CONTAINED_BY :: int where "T_CONTAINED_BY \<equiv> 57820"
abbreviation T_FETCHVAL :: int where "T_FETCHVAL \<equiv> 57494"
abbreviation T_FETCHTEXT :: int where "T_FETCHTEXT \<equiv> 57495"
abbreviation T_FETCHVAL_PATH :: int where "T_FETCHVAL_PATH \<equiv> 57496"
abbreviation T_FETCHTEXT_PATH :: int where "T_FETCHTEXT_PATH \<equiv> 57497"
abbreviation T_FLOORDIV :: int where "T_FLOORDIV \<equiv> 57504"
abbreviation T_INET_CONTAINED_BY_OR_EQUALS :: int where "T_INET_CONTAINED_BY_OR_EQUALS \<equiv> 57542"
abbreviation T_INET_CONTAINS_OR_EQUALS :: int where "T_INET_CONTAINS_OR_EQUALS \<equiv> 57543"
abbreviation T_JSON_SOME_EXISTS :: int where "T_JSON_SOME_EXISTS \<equiv> 57566"
abbreviation T_JSON_ALL_EXISTS :: int where "T_JSON_ALL_EXISTS \<equiv> 57567"
abbreviation T_LSHIFT :: int where "T_LSHIFT \<equiv> 57593"
abbreviation T_RSHIFT :: int where "T_RSHIFT \<equiv> 57705"
abbreviation T_REMOVE_PATH :: int where "T_REMOVE_PATH \<equiv> 57685"
abbreviation T_SQRT :: int where "T_SQRT \<equiv> 57751"
abbreviation T_HELPTOKEN :: int where "T_HELPTOKEN \<equiv> 57823"
abbreviation T_NOT :: int where "T_NOT \<equiv> 57616"
abbreviation T_WITH :: int where "T_WITH \<equiv> 57809"
abbreviation T_AS :: int where "T_AS \<equiv> 57379"
abbreviation T_GENERATED :: int where "T_GENERATED \<equiv> 57512"
abbreviation T_OF :: int where "T_OF \<equiv> 57624"
abbreviation T_BETWEEN :: int where "T_BETWEEN \<equiv> 57389"
abbreviation T_IN :: int where "T_IN \<equiv> 57536"
abbreviation T_LIKE :: int where "T_LIKE \<equiv> 57582"
abbreviation T_ILIKE :: int where "T_ILIKE \<equiv> 57533"
abbreviation T_SIMILAR :: int where "T_SIMILAR \<equiv> 57728"
abbreviation T_ALWAYS :: int where "T_ALWAYS \<equiv> 57371"
abbreviation T_TIME :: int where "T_TIME \<equiv> 57764"
abbreviation T_ORDINALITY :: int where "T_ORDINALITY \<equiv> 57637"
abbreviation T_NOT_LA :: int where "T_NOT_LA \<equiv> 57816"
abbreviation T_WITH_LA :: int where "T_WITH_LA \<equiv> 57817"
abbreviation T_AS_LA :: int where "T_AS_LA \<equiv> 57818"
abbreviation T_GENERATED_ALWAYS :: int where "T_GENERATED_ALWAYS \<equiv> 57819"

text \<open>The constants of \<open>lex/tokens.go\<close>: name and token number.\<close>

definition token_consts_1 :: "(string \<times> int) list" where
  "token_consts_1 =
    [(''IDENT'', 57346), (''SCONST'', 57347), (''BCONST'', 57348), (''BITCONST'', 57349),
     (''ICONST'', 57350), (''FCONST'', 57351), (''PLACEHOLDER'', 57352), (''TYPECAST'', 57353),
     (''TYPEANNOTATE'', 57354), (''DOT_DOT'', 57355), (''LESS_EQUALS'', 57356),
     (''GREATER_EQUALS'', 57357), (''NOT_EQUALS'', 57358), (''NOT_REGMATCH'', 57359),
     (''REGIMATCH'', 57360), (''NOT_REGIMATCH'', 57361), (''ERROR'', 57362),
     (''ABORT'', 57363), (''ACTION'', 57364), (''ADD'', 57365), (''ADMIN'', 57366),
     (''AFTER'', 57367), (''AGGREGATE'', 57368), (''ALL'', 57369), (''ALTER'', 57370),
     (''ALWAYS'', 57371), (''ANALYSE'', 57372), (''ANALYZE'', 57373), (''AND'', 57374),
     (''AND_AND'', 57375), (''ANY'', 57376), (''ANNOTATE_TYPE'', 57377), (''ARRAY'', 57378),
     (''AS'', 57379), (''ASC'', 57380), (''ASYMMETRIC'', 57381), (''AT'', 57382),
     (''ATTRIBUTE'', 57383), (''AUTHORIZATION'', 57384), (''AUTOMATIC'', 57385),
     (''BACKUP'', 57386), (''BEFORE'', 57387), (''BEGIN'', 57388), (''BETWEEN'', 57389),
     (''BIGINT'', 57390), (''BIGSERIAL'', 57391), (''BIT'', 57392), (''BUCKET_COUNT'', 57393),
     (''BOOLEAN'', 57394), (''BOTH'', 57395), (''BUNDLE'', 57396), (''BY'', 57397),
     (''CACHE'', 57398), (''CANCEL'', 57399), (''CASCADE'', 57400), (''CASE'', 57401),
     (''CAST'', 57402), (''CBRT'', 57403), (''CHANGEFEED'', 57404), (''CHAR'', 57405),
     (''CHARACTER'', 57406), (''CHARACTERISTICS'', 57407), (''CHECK'', 57408),
     (''CLOSE'', 57409), (''CLUSTER'', 57410), (''COALESCE'', 57411), (''COLLATE'', 57412),
     (''COLLATION'', 57413), (''COLUMN'', 57414), (''COLUMNS'', 57415), (''COMMENT'', 57416),
     (''COMMENTS'', 57417), (''COMMIT'', 57418), (''COMMITTED'', 57419), (''COMPACT'', 57420),
     (''COMPLETE'', 57421), (''CONCAT'', 57422), (''CONCURRENTLY'', 57423),
     (''CONFIGURATION'', 57424), (''CONFIGURATIONS'', 57425), (''CONFIGURE'', 57426),
     (''CONFLICT'', 57427), (''CONSTRAINT'', 57428), (''CONSTRAINTS'', 57429),
     (''CONTAINS'', 57430), (''CONVERSION'', 57431), (''COPY'', 57432), (''COVERING'', 57433),
     (''CREATE'', 57434), (''CREATEROLE'', 57435), (''CROSS'', 57436), (''CUBE'', 57437),
     (''CURRENT'', 57438), (''CURRENT_CATALOG'', 57439), (''CURRENT_DATE'', 57440),
     (''CURRENT_SCHEMA'', 57441), (''CURRENT_ROLE'', 57442), (''CURRENT_TIME'', 57443),
     (''CURRENT_TIMESTAMP'', 57444), (''CURRENT_USER'', 57445), (''CYCLE'', 57446),
     (''DATA'', 57447), (''DATABASE'', 57448), (''DATABASES'', 57449), (''DATE'', 57450),
     (''DAY'', 57451), (''DEC'', 57452), (''DECIMAL'', 57453), (''DEFAULT'', 57454),
     (''DEFAULTS'', 57455), (''DEALLOCATE'', 57456), (''DECLARE'', 57457),
     (''DEFERRABLE'', 57458), (''DEFERRED'', 57459), (''DELETE'', 57460), (''DESC'', 57461),
     (''DETACHED'', 57462), (''DISCARD'', 57463), (''DISTINCT'', 57464), (''DO'', 57465)]"

definition token_consts_2 :: "(string \<times> int) list" where
  "token_consts_2 =
    [(''DOMAIN'', 57466), (''DOUBLE'', 57467), (''DROP'', 57468), (''ELSE'', 57469),
     (''ENCODING'', 57470), (''ENCRYPTION_PASSPHRASE'', 57471), (''END'', 57472),
     (''ENUM'', 57473), (''ESCAPE'', 57474), (''EXCEPT'', 57475), (''EXCLUDE'', 57476),
     (''EXCLUDING'', 57477), (''EXISTS'', 57478), (''EXECUTE'', 57479), (''EXECUTION'', 57480),
     (''EXPERIMENTAL'', 57481), (''EXPERIMENTAL_FINGERPRINTS'', 57482),
     (''EXPERIMENTAL_REPLICA'', 57483), (''EXPERIMENTAL_AUDIT'', 57484),
     (''EXPIRATION'', 57485), (''EXPLAIN'', 57486), (''EXPORT'', 57487),
     (''EXTENSION'', 57488), (''EXTRACT'', 57489), (''EXTRACT_DURATION'', 57490),
     (''FALSE'', 57491), (''FAMILY'', 57492), (''FETCH'', 57493), (''FETCHVAL'', 57494),
     (''FETCHTEXT'', 57495), (''FETCHVAL_PATH'', 57496), (''FETCHTEXT_PATH'', 57497),
     (''FILES'', 57498), (''FILTER'', 57499), (''FIRST'', 57500), (''FLOAT'', 57501),
     (''FLOAT4'', 57502), (''FLOAT8'', 57503), (''FLOORDIV'', 57504), (''FOLLOWING'', 57505),
     (''FOR'', 57506), (''FORCE_INDEX'', 57507), (''FOREIGN'', 57508), (''FROM'', 57509),
     (''FULL'', 57510), (''FUNCTION'', 57511), (''GENERATED'', 57512), (''GEOGRAPHY'', 57513),
     (''GEOMETRY'', 57514), (''GEOMETRYCOLLECTION'', 57515), (''GLOBAL'', 57516),
     (''GRANT'', 57517), (''GRANTS'', 57518), (''GREATEST'', 57519), (''GROUP'', 57520),
     (''GROUPING'', 57521), (''GROUPS'', 57522), (''HAVING'', 57523), (''HASH'', 57524),
     (''HIGH'', 57525), (''HISTOGRAM'', 57526), (''HOUR'', 57527), (''IDENTITY'', 57528),
     (''IF'', 57529), (''IFERROR'', 57530), (''IFNULL'', 57531),
     (''IGNORE_FOREIGN_KEYS'', 57532), (''ILIKE'', 57533), (''IMMEDIATE'', 57534),
     (''IMPORT'', 57535), (''IN'', 57536), (''INCLUDE'', 57537), (''INCLUDING'', 57538),
     (''INCREMENT'', 57539), (''INCREMENTAL'', 57540), (''INET'', 57541),
     (''INET_CONTAINED_BY_OR_EQUALS'', 57542), (''INET_CONTAINS_OR_EQUALS'', 57543),
     (''INDEX'', 57544), (''INDEXES'', 57545), (''INJECT'', 57546), (''INTERLEAVE'', 57547),
     (''INITIALLY'', 57548), (''INNER'', 57549), (''INSERT'', 57550), (''INT'', 57551),
     (''INTEGER'', 57552), (''INTERSECT'', 57553), (''INTERVAL'', 57554), (''INTO'', 57555),
     (''INVERTED'', 57556), (''IS'', 57557), (''ISERROR'', 57558), (''ISNULL'', 57559),
     (''ISOLATION'', 57560), (''JOB'', 57561), (''JOBS'', 57562), (''JOIN'', 57563),
     (''JSON'', 57564), (''JSONB'', 57565), (''JSON_SOME_EXISTS'', 57566),
     (''JSON_ALL_EXISTS'', 57567), (''KEY'', 57568), (''KEYS'', 57569), (''KV'', 57570),
     (''LANGUAGE'', 57571), (''LAST'', 57572), (''LATERAL'', 57573), (''LC_CTYPE'', 57574),
     (''LC_COLLATE'', 57575), (''LEADING'', 57576), (''LEASE'', 57577), (''LEAST'', 57578),
     (''LEFT'', 57579), (''LESS'', 57580), (''LEVEL'', 57581), (''LIKE'', 57582),
     (''LIMIT'', 57583), (''LINESTRING'', 57584), (''LIST'', 57585)]"

definition token_consts_3 :: "(string \<times> int) list" where
  "token_consts_3 =
    [(''LOCAL'', 57586), (''LOCALTIME'', 57587), (''LOCALTIMESTAMP'', 57588),
     (''LOCKED'', 57589), (''LOGIN'', 57590), (''LOOKUP'', 57591), (''LOW'', 57592),
     (''LSHIFT'', 57593), (''MATCH'', 57594), (''MATERIALIZED'', 57595), (''MERGE'', 57596),
     (''MINVALUE'', 57597), (''MAXVALUE'', 57598), (''MINUTE'', 57599), (''MONTH'', 57600),
     (''MULTILINESTRING'', 57601), (''MULTIPOINT'', 57602), (''MULTIPOLYGON'', 57603),
     (''NAN'', 57604), (''NAME'', 57605), (''NAMES'', 57606), (''NATURAL'', 57607),
     (''NEVER'', 57608), (''NEXT'', 57609), (''NO'', 57610), (''NOCREATEROLE'', 57611),
     (''NOLOGIN'', 57612), (''NO_INDEX_JOIN'', 57613), (''NONE'', 57614), (''NORMAL'', 57615),
     (''NOT'', 57616), (''NOTHING'', 57617), (''NOTNULL'', 57618), (''NOWAIT'', 57619),
     (''NULL'', 57620), (''NULLIF'', 57621), (''NULLS'', 57622), (''NUMERIC'', 57623),
     (''OF'', 57624), (''OFF'', 57625), (''OFFSET'', 57626), (''OID'', 57627),
     (''OIDS'', 57628), (''OIDVECTOR'', 57629), (''ON'', 57630), (''ONLY'', 57631),
     (''OPT'', 57632), (''OPTION'', 57633), (''OPTIONS'', 57634), (''OR'', 57635),
     (''ORDER'', 57636), (''ORDINALITY'', 57637), (''OTHERS'', 57638), (''OUT'', 57639),
     (''OUTER'', 57640), (''OVER'', 57641), (''OVERLAPS'', 57642), (''OVERLAY'', 57643),
     (''OWNED'', 57644), (''OWNER'', 57645), (''OPERATOR'', 57646), (''PARENT'', 57647),
     (''PARTIAL'', 57648), (''PARTITION'', 57649), (''PARTITIONS'', 57650),
     (''PASSWORD'', 57651), (''PAUSE'', 57652), (''PHYSICAL'', 57653), (''PLACING'', 57654),
     (''PLAN'', 57655), (''PLANS'', 57656), (''POINT'', 57657), (''POLYGON'', 57658),
     (''POSITION'', 57659), (''PRECEDING'', 57660), (''PRECISION'', 57661),
     (''PREPARE'', 57662), (''PRESERVE'', 57663), (''PRIMARY'', 57664), (''PRIORITY'', 57665),
     (''PROCEDURAL'', 57666), (''PUBLIC'', 57667), (''PUBLICATION'', 57668),
     (''QUERIES'', 57669), (''QUERY'', 57670), (''RANGE'', 57671), (''RANGES'', 57672),
     (''READ'', 57673), (''REAL'', 57674), (''RECURSIVE'', 57675), (''RECURRING'', 57676),
     (''REF'', 57677), (''REFERENCES'', 57678), (''REGCLASS'', 57679), (''REGPROC'', 57680),
     (''REGPROCEDURE'', 57681), (''REGNAMESPACE'', 57682), (''REGTYPE'', 57683),
     (''REINDEX'', 57684), (''REMOVE_PATH'', 57685), (''RENAME'', 57686),
     (''REPEATABLE'', 57687), (''REPLACE'', 57688), (''RELEASE'', 57689), (''RESET'', 57690),
     (''RESTORE'', 57691), (''RESTRICT'', 57692), (''RESUME'', 57693), (''RETURNING'', 57694),
     (''RETRY'', 57695), (''REVISION_HISTORY'', 57696), (''REVOKE'', 57697),
     (''RIGHT'', 57698), (''ROLE'', 57699), (''ROLES'', 57700), (''ROLLBACK'', 57701),
     (''ROLLUP'', 57702), (''ROW'', 57703), (''ROWS'', 57704), (''RSHIFT'', 57705)]"

definition token_consts_4 :: "(string \<times> int) list" where
  "token_consts_4 =
    [(''RULE'', 57706), (''SAVEPOINT'', 57707), (''SCATTER'', 57708), (''SCHEDULE'', 57709),
     (''SCHEMA'', 57710), (''SCHEMAS'', 57711), (''SCRUB'', 57712), (''SEARCH'', 57713),
     (''SECOND'', 57714), (''SELECT'', 57715), (''SEQUENCE'', 57716), (''SEQUENCES'', 57717),
     (''SERIALIZABLE'', 57718), (''SERVER'', 57719), (''SESSION'', 57720),
     (''SESSIONS'', 57721), (''SESSION_USER'', 57722), (''SET'', 57723), (''SETTING'', 57724),
     (''SETTINGS'', 57725), (''SHARE'', 57726), (''SHOW'', 57727), (''SIMILAR'', 57728),
     (''SIMPLE'', 57729), (''SKIP'', 57730), (''SMALLINT'', 57731), (''SMALLSERIAL'', 57732),
     (''SNAPSHOT'', 57733), (''SOME'', 57734), (''SPLIT'', 57735), (''SQL'', 57736),
     (''START'', 57737), (''STATISTICS'', 57738), (''STATUS'', 57739), (''STDIN'', 57740),
     (''STRICT'', 57741), (''STRING'', 57742), (''STORAGE'', 57743), (''STORE'', 57744),
     (''STORED'', 57745), (''STORING'', 57746), (''SUBSTRING'', 57747), (''SYMMETRIC'', 57748),
     (''SYNTAX'', 57749), (''SYSTEM'', 57750), (''SQRT'', 57751), (''SUBSCRIPTION'', 57752),
     (''TABLE'', 57753), (''TABLES'', 57754), (''TEMP'', 57755), (''TEMPLATE'', 57756),
     (''TEMPORARY'', 57757), (''TENANT'', 57758), (''TESTING_RELOCATE'', 57759),
     (''EXPERIMENTAL_RELOCATE'', 57760), (''TEXT'', 57761), (''THEN'', 57762),
     (''TIES'', 57763), (''TIME'', 57764), (''TIMETZ'', 57765), (''TIMESTAMP'', 57766),
     (''TIMESTAMPTZ'', 57767), (''TO'', 57768), (''THROTTLING'', 57769), (''TRAILING'', 57770),
     (''TRACE'', 57771), (''TRANSACTION'', 57772), (''TREAT'', 57773), (''TRIGGER'', 57774),
     (''TRIM'', 57775), (''TRUE'', 57776), (''TRUNCATE'', 57777), (''TRUSTED'', 57778),
     (''TYPE'', 57779), (''TRACING'', 57780), (''UNBOUNDED'', 57781), (''UNCOMMITTED'', 57782),
     (''UNION'', 57783), (''UNIQUE'', 57784), (''UNKNOWN'', 57785), (''UNLOGGED'', 57786),
     (''UNSPLIT'', 57787), (''UPDATE'', 57788), (''UPSERT'', 57789), (''UNTIL'', 57790),
     (''USE'', 57791), (''USER'', 57792), (''USERS'', 57793), (''USING'', 57794),
     (''UUID'', 57795), (''VALID'', 57796), (''VALIDATE'', 57797), (''VALUE'', 57798),
     (''VALUES'', 57799), (''VARBIT'', 57800), (''VARCHAR'', 57801), (''VARIADIC'', 57802),
     (''VIEW'', 57803), (''VARYING'', 57804), (''VIRTUAL'', 57805), (''WHEN'', 57806),
     (''WHERE'', 57807), (''WINDOW'', 57808), (''WITH'', 57809), (''WITHIN'', 57810),
     (''WITHOUT'', 57811), (''WORK'', 57812), (''WRITE'', 57813), (''YEAR'', 57814),
     (''ZONE'', 57815), (''NOT_LA'', 57816), (''WITH_LA'', 57817), (''AS_LA'', 57818),
     (''GENERATED_ALWAYS'', 57819), (''CONTAINED_BY'', 57820), (''POSTFIXOP'', 57821),
     (''UMINUS'', 57822), (''HELPTOKEN'', 57823)]"

definition token_consts :: "(string \<times> int) list" where
  "token_consts = token_consts_1 @ token_consts_2 @ token_consts_3 @ token_consts_4"

lemmas token_consts_defs = token_consts_def token_consts_1_def token_consts_2_def token_consts_3_def token_consts_4_def

subsection \<open>Keywords\<close>

text \<open>The map \<open>KeywordsCategories\<close>, entry by entry in the order of the source: keyword and category.\<close>

definition KeywordsCategories_1 :: "(string \<times> char) list" where
  "KeywordsCategories_1 =
    [(''abort'', CHR ''U''), (''action'', CHR ''U''), (''add'', CHR ''U''),
     (''admin'', CHR ''U''), (''after'', CHR ''U''), (''aggregate'', CHR ''U''),
     (''all'', CHR ''R''), (''alter'', CHR ''U''), (''always'', CHR ''U''),
     (''analyse'', CHR ''R''), (''analyze'', CHR ''R''), (''and'', CHR ''R''),
     (''annotate_type'', CHR ''C''), (''any'', CHR ''R''), (''array'', CHR ''R''),
     (''as'', CHR ''R''), (''asc'', CHR ''R''), (''asymmetric'', CHR ''R''),
     (''at'', CHR ''U''), (''attribute'', CHR ''U''), (''authorization'', CHR ''U''),
     (''automatic'', CHR ''U''), (''backup'', CHR ''U''), (''before'', CHR ''U''),
     (''begin'', CHR ''U''), (''between'', CHR ''C''), (''bigint'', CHR ''C''),
     (''bit'', CHR ''C''), (''boolean'', CHR ''C''), (''both'', CHR ''R''),
     (''bucket_count'', CHR ''U''), (''bundle'', CHR ''U''), (''by'', CHR ''U''),
     (''cache'', CHR ''U''), (''cancel'', CHR ''U''), (''cascade'', CHR ''U''),
     (''case'', CHR ''R''), (''cast'', CHR ''R''), (''changefeed'', CHR ''U''),
     (''char'', CHR ''C''), (''character'', CHR ''C''), (''characteristics'', CHR ''C''),
     (''check'', CHR ''R''), (''close'', CHR ''U''), (''cluster'', CHR ''U''),
     (''coalesce'', CHR ''C''), (''collate'', CHR ''R''), (''collation'', CHR ''T''),
     (''column'', CHR ''R''), (''columns'', CHR ''U''), (''comment'', CHR ''U''),
     (''comments'', CHR ''U''), (''commit'', CHR ''U''), (''committed'', CHR ''U''),
     (''compact'', CHR ''U''), (''complete'', CHR ''U''), (''concurrently'', CHR ''R''),
     (''configuration'', CHR ''U''), (''configurations'', CHR ''U''),
     (''configure'', CHR ''U''), (''conflict'', CHR ''U''), (''constraint'', CHR ''R''),
     (''constraints'', CHR ''U''), (''conversion'', CHR ''U''), (''copy'', CHR ''U''),
     (''covering'', CHR ''U''), (''create'', CHR ''R''), (''createrole'', CHR ''U''),
     (''cross'', CHR ''T''), (''cube'', CHR ''U''), (''current'', CHR ''U''),
     (''current_catalog'', CHR ''R''), (''current_date'', CHR ''R''),
     (''current_role'', CHR ''R''), (''current_schema'', CHR ''R''),
     (''current_time'', CHR ''R''), (''current_timestamp'', CHR ''R''),
     (''current_user'', CHR ''R''), (''cycle'', CHR ''U''), (''data'', CHR ''U''),
     (''database'', CHR ''U''), (''databases'', CHR ''U''), (''day'', CHR ''U''),
     (''deallocate'', CHR ''U''), (''dec'', CHR ''C''), (''decimal'', CHR ''C''),
     (''declare'', CHR ''U''), (''default'', CHR ''R''), (''defaults'', CHR ''U''),
     (''deferrable'', CHR ''R''), (''deferred'', CHR ''U''), (''delete'', CHR ''U''),
     (''desc'', CHR ''R''), (''detached'', CHR ''U''), (''discard'', CHR ''U''),
     (''distinct'', CHR ''R''), (''do'', CHR ''R''), (''domain'', CHR ''U''),
     (''double'', CHR ''U''), (''drop'', CHR ''U''), (''else'', CHR ''R''),
     (''encoding'', CHR ''U''), (''encryption_passphrase'', CHR ''U''), (''end'', CHR ''R''),
     (''enum'', CHR ''U''), (''escape'', CHR ''U''), (''except'', CHR ''R''),
     (''exclude'', CHR ''U''), (''excluding'', CHR ''U''), (''execute'', CHR ''U''),
     (''execution'', CHR ''U''), (''exists'', CHR ''C''), (''experimental'', CHR ''U''),
     (''experimental_audit'', CHR ''U''), (''experimental_fingerprints'', CHR ''U''),
     (''experimental_relocate'', CHR ''U''), (''experimental_replica'', CHR ''U''),
     (''expiration'', CHR ''U''), (''explain'', CHR ''U''), (''export'', CHR ''U''),
     (''extension'', CHR ''U''), (''extract'', CHR ''C''), (''extract_duration'', CHR ''C''),
     (''false'', CHR ''R''), (''family'', CHR ''T''), (''fetch'', CHR ''R''),
     (''files'', CHR ''U''), (''filter'', CHR ''U''), (''first'', CHR ''U''),
     (''float'', CHR ''C''), (''following'', CHR ''U''), (''for'', CHR ''R''),
     (''force_index'', CHR ''U''), (''foreign'', CHR ''R''), (''from'', CHR ''R''),
     (''full'', CHR ''T''), (''function'', CHR ''U''), (''generated'', CHR ''U''),
     (''geography'', CHR ''C''), (''geometry'', CHR ''C'')]"

definition KeywordsCategories_2 :: "(string \<times> char) list" where
  "KeywordsCategories_2 =
    [(''geometrycollection'', CHR ''U''), (''global'', CHR ''U''), (''grant'', CHR ''R''),
     (''grants'', CHR ''U''), (''greatest'', CHR ''C''), (''group'', CHR ''R''),
     (''grouping'', CHR ''C''), (''groups'', CHR ''U''), (''hash'', CHR ''U''),
     (''having'', CHR ''R''), (''high'', CHR ''U''), (''histogram'', CHR ''U''),
     (''hour'', CHR ''U''), (''identity'', CHR ''U''), (''if'', CHR ''C''),
     (''iferror'', CHR ''C''), (''ifnull'', CHR ''C''), (''ignore_foreign_keys'', CHR ''U''),
     (''ilike'', CHR ''T''), (''immediate'', CHR ''U''), (''import'', CHR ''U''),
     (''in'', CHR ''R''), (''include'', CHR ''U''), (''including'', CHR ''U''),
     (''increment'', CHR ''U''), (''incremental'', CHR ''U''), (''index'', CHR ''R''),
     (''indexes'', CHR ''U''), (''initially'', CHR ''R''), (''inject'', CHR ''U''),
     (''inner'', CHR ''T''), (''insert'', CHR ''U''), (''int'', CHR ''C''),
     (''integer'', CHR ''C''), (''interleave'', CHR ''U''), (''intersect'', CHR ''R''),
     (''interval'', CHR ''C''), (''into'', CHR ''R''), (''inverted'', CHR ''U''),
     (''is'', CHR ''T''), (''iserror'', CHR ''C''), (''isnull'', CHR ''T''),
     (''isolation'', CHR ''U''), (''job'', CHR ''U''), (''jobs'', CHR ''U''),
     (''join'', CHR ''T''), (''json'', CHR ''U''), (''key'', CHR ''U''), (''keys'', CHR ''U''),
     (''kv'', CHR ''U''), (''language'', CHR ''U''), (''last'', CHR ''U''),
     (''lateral'', CHR ''R''), (''lc_collate'', CHR ''U''), (''lc_ctype'', CHR ''U''),
     (''leading'', CHR ''R''), (''lease'', CHR ''U''), (''least'', CHR ''C''),
     (''left'', CHR ''T''), (''less'', CHR ''U''), (''level'', CHR ''U''),
     (''like'', CHR ''T''), (''limit'', CHR ''R''), (''linestring'', CHR ''U''),
     (''list'', CHR ''U''), (''local'', CHR ''U''), (''localtime'', CHR ''R''),
     (''localtimestamp'', CHR ''R''), (''locked'', CHR ''U''), (''login'', CHR ''U''),
     (''lookup'', CHR ''U''), (''low'', CHR ''U''), (''match'', CHR ''U''),
     (''materialized'', CHR ''U''), (''maxvalue'', CHR ''U''), (''merge'', CHR ''U''),
     (''minute'', CHR ''U''), (''minvalue'', CHR ''U''), (''month'', CHR ''U''),
     (''multilinestring'', CHR ''U''), (''multipoint'', CHR ''U''),
     (''multipolygon'', CHR ''U''), (''names'', CHR ''U''), (''nan'', CHR ''U''),
     (''natural'', CHR ''T''), (''never'', CHR ''U''), (''next'', CHR ''U''),
     (''no'', CHR ''U''), (''nocreaterole'', CHR ''U''), (''nologin'', CHR ''U''),
     (''none'', CHR ''T''), (''normal'', CHR ''U''), (''not'', CHR ''R''),
     (''nothing'', CHR ''R''), (''notnull'', CHR ''T''), (''nowait'', CHR ''U''),
     (''no_index_join'', CHR ''U''), (''null'', CHR ''R''), (''nullif'', CHR ''C''),
     (''nulls'', CHR ''U''), (''numeric'', CHR ''C''), (''of'', CHR ''U''),
     (''off'', CHR ''U''), (''offset'', CHR ''R''), (''oids'', CHR ''U''), (''on'', CHR ''R''),
     (''only'', CHR ''R''), (''operator'', CHR ''U''), (''opt'', CHR ''U''),
     (''option'', CHR ''U''), (''options'', CHR ''U''), (''or'', CHR ''R''),
     (''order'', CHR ''R''), (''ordinality'', CHR ''U''), (''others'', CHR ''U''),
     (''out'', CHR ''C''), (''outer'', CHR ''T''), (''over'', CHR ''U''),
     (''overlaps'', CHR ''T''), (''overlay'', CHR ''C''), (''owned'', CHR ''U''),
     (''owner'', CHR ''U''), (''parent'', CHR ''U''), (''partial'', CHR ''U''),
     (''partition'', CHR ''U''), (''partitions'', CHR ''U''), (''password'', CHR ''U''),
     (''pause'', CHR ''U''), (''physical'', CHR ''U''), (''placing'', CHR ''R''),
     (''plan'', CHR ''U''), (''plans'', CHR ''U''), (''point'', CHR ''C''),
     (''polygon'', CHR ''C''), (''position'', CHR ''C''), (''preceding'', CHR ''U''),
     (''precision'', CHR ''C''), (''prepare'', CHR ''U''), (''preserve'', CHR ''U''),
     (''primary'', CHR ''R'')]"

definition KeywordsCategories_3 :: "(string \<times> char) list" where
  "KeywordsCategories_3 =
    [(''priority'', CHR ''U''), (''public'', CHR ''U''), (''publication'', CHR ''U''),
     (''queries'', CHR ''U''), (''query'', CHR ''U''), (''range'', CHR ''U''),
     (''ranges'', CHR ''U''), (''read'', CHR ''U''), (''real'', CHR ''C''),
     (''recurring'', CHR ''U''), (''recursive'', CHR ''U''), (''ref'', CHR ''U''),
     (''references'', CHR ''R''), (''reindex'', CHR ''U''), (''release'', CHR ''U''),
     (''rename'', CHR ''U''), (''repeatable'', CHR ''U''), (''replace'', CHR ''U''),
     (''reset'', CHR ''U''), (''restore'', CHR ''U''), (''restrict'', CHR ''U''),
     (''resume'', CHR ''U''), (''retry'', CHR ''U''), (''returning'', CHR ''R''),
     (''revision_history'', CHR ''U''), (''revoke'', CHR ''U''), (''right'', CHR ''T''),
     (''role'', CHR ''U''), (''roles'', CHR ''U''), (''rollback'', CHR ''U''),
     (''rollup'', CHR ''U''), (''row'', CHR ''C''), (''rows'', CHR ''U''),
     (''rule'', CHR ''U''), (''savepoint'', CHR ''U''), (''scatter'', CHR ''U''),
     (''schedule'', CHR ''U''), (''schema'', CHR ''U''), (''schemas'', CHR ''U''),
     (''scrub'', CHR ''U''), (''search'', CHR ''U''), (''second'', CHR ''U''),
     (''select'', CHR ''R''), (''sequence'', CHR ''U''), (''sequences'', CHR ''U''),
     (''serializable'', CHR ''U''), (''server'', CHR ''U''), (''session'', CHR ''U''),
     (''sessions'', CHR ''U''), (''session_user'', CHR ''R''), (''set'', CHR ''U''),
     (''setting'', CHR ''U''), (''settings'', CHR ''U''), (''share'', CHR ''U''),
     (''show'', CHR ''U''), (''similar'', CHR ''T''), (''simple'', CHR ''U''),
     (''skip'', CHR ''U''), (''smallint'', CHR ''C''), (''snapshot'', CHR ''U''),
     (''some'', CHR ''R''), (''split'', CHR ''U''), (''sql'', CHR ''U''),
     (''start'', CHR ''U''), (''statistics'', CHR ''U''), (''status'', CHR ''U''),
     (''stdin'', CHR ''U''), (''storage'', CHR ''U''), (''store'', CHR ''U''),
     (''stored'', CHR ''U''), (''storing'', CHR ''U''), (''strict'', CHR ''U''),
     (''string'', CHR ''C''), (''subscription'', CHR ''U''), (''substring'', CHR ''C''),
     (''symmetric'', CHR ''R''), (''syntax'', CHR ''U''), (''system'', CHR ''U''),
     (''table'', CHR ''R''), (''tables'', CHR ''U''), (''temp'', CHR ''U''),
     (''template'', CHR ''U''), (''temporary'', CHR ''U''), (''tenant'', CHR ''U''),
     (''testing_relocate'', CHR ''U''), (''text'', CHR ''U''), (''then'', CHR ''R''),
     (''throttling'', CHR ''U''), (''ties'', CHR ''U''), (''time'', CHR ''C''),
     (''timestamp'', CHR ''C''), (''timestamptz'', CHR ''C''), (''timetz'', CHR ''C''),
     (''to'', CHR ''R''), (''trace'', CHR ''U''), (''trailing'', CHR ''R''),
     (''transaction'', CHR ''U''), (''treat'', CHR ''C''), (''trigger'', CHR ''U''),
     (''trim'', CHR ''C''), (''true'', CHR ''R''), (''truncate'', CHR ''U''),
     (''trusted'', CHR ''U''), (''type'', CHR ''U''), (''unbounded'', CHR ''U''),
     (''uncommitted'', CHR ''U''), (''union'', CHR ''R''), (''unique'', CHR ''R''),
     (''unknown'', CHR ''U''), (''unlogged'', CHR ''U''), (''unsplit'', CHR ''U''),
     (''until'', CHR ''U''), (''update'', CHR ''U''), (''upsert'', CHR ''U''),
     (''use'', CHR ''U''), (''user'', CHR ''R''), (''users'', CHR ''U''),
     (''using'', CHR ''R''), (''valid'', CHR ''U''), (''validate'', CHR ''U''),
     (''value'', CHR ''U''), (''values'', CHR ''C''), (''varbit'', CHR ''C''),
     (''varchar'', CHR ''C''), (''variadic'', CHR ''R''), (''varying'', CHR ''U''),
     (''view'', CHR ''U''), (''virtual'', CHR ''C''), (''when'', CHR ''R''),
     (''where'', CHR ''R''), (''window'', CHR ''R''), (''with'', CHR ''R''),
     (''within'', CHR ''U''), (''without'', CHR ''U''), (''work'', CHR ''C''),
     (''write'', CHR ''U''), (''year'', CHR ''U''), (''zone'', CHR ''U'')]"

definition KeywordsCategories :: "(string \<times> char) list" where
  "KeywordsCategories = KeywordsCategories_1 @ KeywordsCategories_2 @ KeywordsCategories_3"

lemmas KeywordsCategories_defs = KeywordsCategories_def KeywordsCategories_1_def KeywordsCategories_2_def KeywordsCategories_3_def

text \<open>The slice \<open>KeywordNames\<close>.\<close>

definition KeywordNames_1 :: "string list" where
  "KeywordNames_1 =
    [''abort'', ''action'', ''add'', ''admin'', ''after'', ''aggregate'', ''all'', ''alter'',
     ''always'', ''analyse'', ''analyze'', ''and'', ''annotate_type'', ''any'', ''array'',
     ''as'', ''asc'', ''asymmetric'', ''at'', ''attribute'', ''authorization'', ''automatic'',
     ''backup'', ''before'', ''begin'', ''between'', ''bigint'', ''bit'', ''boolean'',
     ''both'', ''bucket_count'', ''bundle'', ''by'', ''cache'', ''cancel'', ''cascade'',
     ''case'', ''cast'', ''changefeed'', ''char'', ''character'', ''characteristics'',
     ''check'', ''close'', ''cluster'', ''coalesce'', ''collate'', ''collation'', ''column'',
     ''columns'', ''comment'', ''comments'', ''commit'', ''committed'', ''compact'',
     ''complete'', ''concurrently'', ''configuration'', ''configurations'', ''configure'',
     ''conflict'', ''constraint'', ''constraints'', ''conversion'', ''copy'', ''covering'',
     ''create'', ''createrole'', ''cross'', ''cube'', ''current'', ''current_catalog'',
     ''current_date'', ''current_role'', ''current_schema'', ''current_time'',
     ''current_timestamp'', ''current_user'', ''cycle'', ''data'', ''database'', ''databases'',
     ''day'', ''deallocate'', ''dec'', ''decimal'', ''declare'', ''default'', ''defaults'',
     ''deferrable'', ''deferred'', ''delete'', ''desc'', ''detached'', ''discard'',
     ''distinct'', ''do'', ''domain'', ''double'', ''drop'', ''else'', ''encoding'',
     ''encryption_passphrase'', ''end'', ''enum'', ''escape'', ''except'', ''exclude'',
     ''excluding'', ''execute'', ''execution'', ''exists'', ''experimental'',
     ''experimental_audit'', ''experimental_fingerprints'', ''experimental_relocate'',
     ''experimental_replica'', ''expiration'', ''explain'', ''export'', ''extension'',
     ''extract'', ''extract_duration'', ''false'', ''family'', ''fetch'', ''files'',
     ''filter'', ''first'', ''float'', ''following'', ''for'', ''force_index'', ''foreign'',
     ''from'', ''full'', ''function'', ''generated'', ''geography'', ''geometry'']"

definition KeywordNames_2 :: "string list" where
  "KeywordNames_2 =
    [''geometrycollection'', ''global'', ''grant'', ''grants'', ''greatest'', ''group'',
     ''grouping'', ''groups'', ''hash'', ''having'', ''high'', ''histogram'', ''hour'',
     ''identity'', ''if'', ''iferror'', ''ifnull'', ''ignore_foreign_keys'', ''ilike'',
     ''immediate'', ''import'', ''in'', ''include'', ''including'', ''increment'',
     ''incremental'', ''index'', ''indexes'', ''initially'', ''inject'', ''inner'', ''insert'',
     ''int'', ''integer'', ''interleave'', ''intersect'', ''interval'', ''into'', ''inverted'',
     ''is'', ''iserror'', ''isnull'', ''isolation'', ''job'', ''jobs'', ''join'', ''json'',
     ''key'', ''keys'', ''kv'', ''language'', ''last'', ''lateral'', ''lc_collate'',
     ''lc_ctype'', ''leading'', ''lease'', ''least'', ''left'', ''less'', ''level'', ''like'',
     ''limit'', ''linestring'', ''list'', ''local'', ''localtime'', ''localtimestamp'',
     ''locked'', ''login'', ''lookup'', ''low'', ''match'', ''materialized'', ''maxvalue'',
     ''merge'', ''minute'', ''minvalue'', ''month'', ''multilinestring'', ''multipoint'',
     ''multipolygon'', ''names'', ''nan'', ''natural'', ''never'', ''next'', ''no'',
     ''nocreaterole'', ''nologin'', ''none'', ''normal'', ''not'', ''nothing'', ''notnull'',
     ''nowait'', ''no_index_join'', ''null'', ''nullif'', ''nulls'', ''numeric'', ''of'',
     ''off'', ''offset'', ''oids'', ''on'', ''only'', ''operator'', ''opt'', ''option'',
     ''options'', ''or'', ''order'', ''ordinality'', ''others'', ''out'', ''outer'', ''over'',
     ''overlaps'', ''overlay'', ''owned'', ''owner'', ''parent'', ''partial'', ''partition'',
     ''partitions'', ''password'', ''pause'', ''physical'', ''placing'', ''plan'', ''plans'',
     ''point'', ''polygon'', ''position'', ''preceding'', ''precision'', ''prepare'',
     ''preserve'', ''primary'']"

definition KeywordNames_3 :: "string list" where
  "KeywordNames_3 =
    [''priority'', ''public'', ''publication'', ''queries'', ''query'', ''range'', ''ranges'',
     ''read'', ''real'', ''recurring'', ''recursive'', ''ref'', ''references'', ''reindex'',
     ''release'', ''rename'', ''repeatable'', ''replace'', ''reset'', ''restore'',
     ''restrict'', ''resume'', ''retry'', ''returning'', ''revision_history'', ''revoke'',
     ''right'', ''role'', ''roles'', ''rollback'', ''rollup'', ''row'', ''rows'', ''rule'',
     ''savepoint'', ''scatter'', ''schedule'', ''schema'', ''schemas'', ''scrub'', ''search'',
     ''second'', ''select'', ''sequence'', ''sequences'', ''serializable'', ''server'',
     ''session'', ''sessions'', ''session_user'', ''set'', ''setting'', ''settings'',
     ''share'', ''show'', ''similar'', ''simple'', ''skip'', ''smallint'', ''snapshot'',
     ''some'', ''split'', ''sql'', ''start'', ''statistics'', ''status'', ''stdin'',
     ''storage'', ''store'', ''stored'', ''storing'', ''strict'', ''string'', ''subscription'',
     ''substring'', ''symmetric'', ''syntax'', ''system'', ''table'', ''tables'', ''temp'',
     ''template'', ''temporary'', ''tenant'', ''testing_relocate'', ''text'', ''then'',
     ''throttling'', ''ties'', ''time'', ''timestamp'', ''timestamptz'', ''timetz'', ''to'',
     ''trace'', ''trailing'', ''transaction'', ''treat'', ''trigger'', ''trim'', ''true'',
     ''truncate'', ''trusted'', ''type'', ''unbounded'', ''uncommitted'', ''union'',
     ''unique'', ''unknown'', ''unlogged'', ''unsplit'', ''until'', ''update'', ''upsert'',
     ''use'', ''user'', ''users'', ''using'', ''valid'', ''validate'', ''value'', ''values'',
     ''varbit'', ''varchar'', ''variadic'', ''varying'', ''view'', ''virtual'', ''when'',
     ''where'', ''window'', ''with'', ''within'', ''without'', ''work'', ''write'', ''year'',
     ''zone'']"

definition KeywordNames :: "string list" where
  "KeywordNames = KeywordNames_1 @ KeywordNames_2 @ KeywordNames_3"

lemmas KeywordNames_defs = KeywordNames_def KeywordNames_1_def KeywordNames_2_def KeywordNames_3_def

text \<open>The cases of \<open>GetKeywordID\<close>: keyword and token number.\<close>

definition keyword_table_1 :: "(string \<times> int) list" where
  "keyword_table_1 =
    [(''abort'', 57363), (''action'', 57364), (''add'', 57365), (''admin'', 57366),
     (''after'', 57367), (''aggregate'', 57368), (''all'', 57369), (''alter'', 57370),
     (''always'', 57371), (''analyse'', 57372), (''analyze'', 57373), (''and'', 57374),
     (''annotate_type'', 57377), (''any'', 57376), (''array'', 57378), (''as'', 57379),
     (''asc'', 57380), (''asymmetric'', 57381), (''at'', 57382), (''attribute'', 57383),
     (''authorization'', 57384), (''automatic'', 57385), (''backup'', 57386),
     (''before'', 57387), (''begin'', 57388), (''between'', 57389), (''bigint'', 57390),
     (''bit'', 57392), (''boolean'', 57394), (''both'', 57395), (''bucket_count'', 57393),
     (''bundle'', 57396), (''by'', 57397), (''cache'', 57398), (''cancel'', 57399),
     (''cascade'', 57400), (''case'', 57401), (''cast'', 57402), (''changefeed'', 57404),
     (''char'', 57405), (''character'', 57406), (''characteristics'', 57407),
     (''check'', 57408), (''close'', 57409), (''cluster'', 57410), (''coalesce'', 57411),
     (''collate'', 57412), (''collation'', 57413), (''column'', 57414), (''columns'', 57415),
     (''comment'', 57416), (''comments'', 57417), (''commit'', 57418), (''committed'', 57419),
     (''compact'', 57420), (''complete'', 57421), (''concurrently'', 57423),
     (''configuration'', 57424), (''configurations'', 57425), (''configure'', 57426),
     (''conflict'', 57427), (''constraint'', 57428), (''constraints'', 57429),
     (''conversion'', 57431), (''copy'', 57432), (''covering'', 57433), (''create'', 57434),
     (''createrole'', 57435), (''cross'', 57436), (''cube'', 57437)]"

definition keyword_table_2 :: "(string \<times> int) list" where
  "keyword_table_2 =
    [(''current'', 57438), (''current_catalog'', 57439), (''current_date'', 57440),
     (''current_role'', 57442), (''current_schema'', 57441), (''current_time'', 57443),
     (''current_timestamp'', 57444), (''current_user'', 57445), (''cycle'', 57446),
     (''data'', 57447), (''database'', 57448), (''databases'', 57449), (''day'', 57451),
     (''deallocate'', 57456), (''dec'', 57452), (''decimal'', 57453), (''declare'', 57457),
     (''default'', 57454), (''defaults'', 57455), (''deferrable'', 57458),
     (''deferred'', 57459), (''delete'', 57460), (''desc'', 57461), (''detached'', 57462),
     (''discard'', 57463), (''distinct'', 57464), (''do'', 57465), (''domain'', 57466),
     (''double'', 57467), (''drop'', 57468), (''else'', 57469), (''encoding'', 57470),
     (''encryption_passphrase'', 57471), (''end'', 57472), (''enum'', 57473),
     (''escape'', 57474), (''except'', 57475), (''exclude'', 57476), (''excluding'', 57477),
     (''execute'', 57479), (''execution'', 57480), (''exists'', 57478),
     (''experimental'', 57481), (''experimental_audit'', 57484),
     (''experimental_fingerprints'', 57482), (''experimental_relocate'', 57760),
     (''experimental_replica'', 57483), (''expiration'', 57485), (''explain'', 57486),
     (''export'', 57487), (''extension'', 57488), (''extract'', 57489),
     (''extract_duration'', 57490), (''false'', 57491), (''family'', 57492),
     (''fetch'', 57493), (''files'', 57498), (''filter'', 57499), (''first'', 57500),
     (''float'', 57501), (''following'', 57505), (''for'', 57506), (''force_index'', 57507),
     (''foreign'', 57508), (''from'', 57509), (''full'', 57510), (''function'', 57511),
     (''generated'', 57512), (''geography'', 57513), (''geometry'', 57514)]"

definition keyword_table_3 :: "(string \<times> int) list" where
  "keyword_table_3 =
    [(''geometrycollection'', 57515), (''global'', 57516), (''grant'', 57517),
     (''grants'', 57518), (''greatest'', 57519), (''group'', 57520), (''grouping'', 57521),
     (''groups'', 57522), (''hash'', 57524), (''having'', 57523), (''high'', 57525),
     (''histogram'', 57526), (''hour'', 57527), (''identity'', 57528), (''if'', 57529),
     (''iferror'', 57530), (''ifnull'', 57531), (''ignore_foreign_keys'', 57532),
     (''ilike'', 57533), (''immediate'', 57534), (''import'', 57535), (''in'', 57536),
     (''include'', 57537), (''including'', 57538), (''increment'', 57539),
     (''incremental'', 57540), (''index'', 57544), (''indexes'', 57545),
     (''initially'', 57548), (''inject'', 57546), (''inner'', 57549), (''insert'', 57550),
     (''int'', 57551), (''integer'', 57552), (''interleave'', 57547), (''intersect'', 57553),
     (''interval'', 57554), (''into'', 57555), (''inverted'', 57556), (''is'', 57557),
     (''iserror'', 57558), (''isnull'', 57559), (''isolation'', 57560), (''job'', 57561),
     (''jobs'', 57562), (''join'', 57563), (''json'', 57564), (''key'', 57568),
     (''keys'', 57569), (''kv'', 57570), (''language'', 57571), (''last'', 57572),
     (''lateral'', 57573), (''lc_collate'', 57575), (''lc_ctype'', 57574),
     (''leading'', 57576), (''lease'', 57577), (''least'', 57578), (''left'', 57579),
     (''less'', 57580), (''level'', 57581), (''like'', 57582), (''limit'', 57583),
     (''linestring'', 57584), (''list'', 57585), (''local'', 57586), (''localtime'', 57587),
     (''localtimestamp'', 57588), (''locked'', 57589), (''login'', 57590)]"

definition keyword_table_4 :: "(string \<times> int) list" where
  "keyword_table_4 =
    [(''lookup'', 57591), (''low'', 57592), (''match'', 57594), (''materialized'', 57595),
     (''maxvalue'', 57598), (''merge'', 57596), (''minute'', 57599), (''minvalue'', 57597),
     (''month'', 57600), (''multilinestring'', 57601), (''multipoint'', 57602),
     (''multipolygon'', 57603), (''names'', 57606), (''nan'', 57604), (''natural'', 57607),
     (''never'', 57608), (''next'', 57609), (''no'', 57610), (''nocreaterole'', 57611),
     (''nologin'', 57612), (''none'', 57614), (''normal'', 57615), (''not'', 57616),
     (''nothing'', 57617), (''notnull'', 57618), (''nowait'', 57619),
     (''no_index_join'', 57613), (''null'', 57620), (''nullif'', 57621), (''nulls'', 57622),
     (''numeric'', 57623), (''of'', 57624), (''off'', 57625), (''offset'', 57626),
     (''oids'', 57628), (''on'', 57630), (''only'', 57631), (''operator'', 57646),
     (''opt'', 57632), (''option'', 57633), (''options'', 57634), (''or'', 57635),
     (''order'', 57636), (''ordinality'', 57637), (''others'', 57638), (''out'', 57639),
     (''outer'', 57640), (''over'', 57641), (''overlaps'', 57642), (''overlay'', 57643),
     (''owned'', 57644), (''owner'', 57645), (''parent'', 57647), (''partial'', 57648),
     (''partition'', 57649), (''partitions'', 57650), (''password'', 57651),
     (''pause'', 57652), (''physical'', 57653), (''placing'', 57654), (''plan'', 57655),
     (''plans'', 57656), (''point'', 57657), (''polygon'', 57658), (''position'', 57659),
     (''preceding'', 57660), (''precision'', 57661), (''prepare'', 57662),
     (''preserve'', 57663), (''primary'', 57664)]"

definition keyword_table_5 :: "(string \<times> int) list" where
  "keyword_table_5 =
    [(''priority'', 57665), (''public'', 57667), (''publication'', 57668),
     (''queries'', 57669), (''query'', 57670), (''range'', 57671), (''ranges'', 57672),
     (''read'', 57673), (''real'', 57674), (''recurring'', 57676), (''recursive'', 57675),
     (''ref'', 57677), (''references'', 57678), (''reindex'', 57684), (''release'', 57689),
     (''rename'', 57686), (''repeatable'', 57687), (''replace'', 57688), (''reset'', 57690),
     (''restore'', 57691), (''restrict'', 57692), (''resume'', 57693), (''retry'', 57695),
     (''returning'', 57694), (''revision_history'', 57696), (''revoke'', 57697),
     (''right'', 57698), (''role'', 57699), (''roles'', 57700), (''rollback'', 57701),
     (''rollup'', 57702), (''row'', 57703), (''rows'', 57704), (''rule'', 57706),
     (''savepoint'', 57707), (''scatter'', 57708), (''schedule'', 57709), (''schema'', 57710),
     (''schemas'', 57711), (''scrub'', 57712), (''search'', 57713), (''second'', 57714),
     (''select'', 57715), (''sequence'', 57716), (''sequences'', 57717),
     (''serializable'', 57718), (''server'', 57719), (''session'', 57720),
     (''sessions'', 57721), (''session_user'', 57722), (''set'', 57723), (''setting'', 57724),
     (''settings'', 57725), (''share'', 57726), (''show'', 57727), (''similar'', 57728),
     (''simple'', 57729), (''skip'', 57730), (''smallint'', 57731), (''snapshot'', 57733),
     (''some'', 57734), (''split'', 57735), (''sql'', 57736), (''start'', 57737),
     (''statistics'', 57738), (''status'', 57739), (''stdin'', 57740), (''storage'', 57743),
     (''store'', 57744), (''stored'', 57745)]"

definition keyword_table_6 :: "(string \<times> int) list" where
  "keyword_table_6 =
    [(''storing'', 57746), (''strict'', 57741), (''string'', 57742), (''subscription'', 57752),
     (''substring'', 57747), (''symmetric'', 57748), (''syntax'', 57749), (''system'', 57750),
     (''table'', 57753), (''tables'', 57754), (''temp'', 57755), (''template'', 57756),
     (''temporary'', 57757), (''tenant'', 57758), (''testing_relocate'', 57759),
     (''text'', 57761), (''then'', 57762), (''throttling'', 57769), (''ties'', 57763),
     (''time'', 57764), (''timestamp'', 57766), (''timestamptz'', 57767), (''timetz'', 57765),
     (''to'', 57768), (''trace'', 57771), (''trailing'', 57770), (''transaction'', 57772),
     (''treat'', 57773), (''trigger'', 57774), (''trim'', 57775), (''true'', 57776),
     (''truncate'', 57777), (''trusted'', 57778), (''type'', 57779), (''unbounded'', 57781),
     (''uncommitted'', 57782), (''union'', 57783), (''unique'', 57784), (''unknown'', 57785),
     (''unlogged'', 57786), (''unsplit'', 57787), (''until'', 57790), (''update'', 57788),
     (''upsert'', 57789), (''use'', 57791), (''user'', 57792), (''users'', 57793),
     (''using'', 57794), (''valid'', 57796), (''validate'', 57797), (''value'', 57798),
     (''values'', 57799), (''varbit'', 57800), (''varchar'', 57801), (''variadic'', 57802),
     (''varying'', 57804), (''view'', 57803), (''virtual'', 57805), (''when'', 57806),
     (''where'', 57807), (''window'', 57808), (''with'', 57809), (''within'', 57810),
     (''without'', 57811), (''work'', 57812), (''write'', 57813), (''year'', 57814),
     (''zone'', 57815)]"

definition keyword_table :: "(string \<times> int) list" where
  "keyword_table = keyword_table_1 @ keyword_table_2 @ keyword_table_3 @ keyword_table_4 @ keyword_table_5 @ keyword_table_6"

lemmas keyword_table_defs = keyword_table_def keyword_table_1_def keyword_table_2_def keyword_table_3_def keyword_table_4_def keyword_table_5_def keyword_table_6_def

text \<open>\<open>lex.GetKeywordID\<close>: the token number of a keyword, \<open>IDENT\<close> for any other word.\<close>

definition GetKeywordID :: "string \<Rightarrow> int" where
  "GetKeywordID k = (case map_of keyword_table k of Some t \<Rightarrow> t | None \<Rightarrow> T_IDENT)"

definition reservedKeywords :: "string list" where
  "reservedKeywords =
    [''all'', ''analyse'', ''analyze'', ''and'', ''annotate_type'', ''any'', ''array'', ''as'',
     ''asc'', ''asymmetric'', ''between'', ''bigint'', ''bit'', ''boolean'', ''both'',
     ''case'', ''cast'', ''char'', ''character'', ''characteristics'', ''check'', ''coalesce'',
     ''cockroachdb_extra_reserved_keyword'', ''collate'', ''collation'', ''column'',
     ''concurrently'', ''constraint'', ''create'', ''cross'', ''current_catalog'',
     ''current_date'', ''current_role'', ''current_schema'', ''current_time'',
     ''current_timestamp'', ''current_user'', ''dec'', ''decimal'', ''default'',
     ''deferrable'', ''desc'', ''distinct'', ''do'', ''else'', ''end'', ''except'', ''exists'',
     ''extract'', ''extract_duration'', ''false'', ''family'', ''fetch'', ''float'', ''for'',
     ''foreign'', ''from'', ''full'', ''geography'', ''geometry'', ''grant'', ''greatest'',
     ''group'', ''grouping'', ''having'', ''if'', ''iferror'', ''ifnull'', ''ilike'', ''in'',
     ''index'', ''initially'', ''inner'', ''int'', ''integer'', ''intersect'', ''interval'',
     ''into'', ''is'', ''iserror'', ''isnull'', ''join'', ''lateral'', ''leading'', ''least'',
     ''left'', ''like'', ''limit'', ''localtime'', ''localtimestamp'', ''natural'', ''none'',
     ''not'', ''nothing'', ''notnull'', ''null'', ''nullif'', ''numeric'', ''offset'', ''on'',
     ''only'', ''or'', ''order'', ''out'', ''outer'', ''overlaps'', ''overlay'', ''placing'',
     ''point'', ''polygon'', ''position'', ''precision'', ''primary'', ''real'',
     ''references'', ''returning'', ''right'', ''row'', ''select'', ''session_user'',
     ''similar'', ''smallint'', ''some'', ''string'', ''substring'', ''symmetric'', ''table'',
     ''then'', ''time'', ''timestamp'', ''timestamptz'', ''timetz'', ''to'', ''trailing'',
     ''treat'', ''trim'', ''true'', ''union'', ''unique'', ''user'', ''using'', ''values'',
     ''varbit'', ''varchar'', ''variadic'', ''virtual'', ''when'', ''where'', ''window'',
     ''with'', ''work'']"

text \<open>The words \<open>init\<close> of \<open>lex/predicates.go\<close> adds to the reserved keywords.\<close>

definition lookaheadKeywords :: "string list" where
  "lookaheadKeywords =
    [''between'', ''ilike'', ''in'', ''like'', ''of'', ''ordinality'', ''similar'', ''time'', ''generated'']"

definition isReservedKeyword :: "string \<Rightarrow> bool" where
  "isReservedKeyword s = (s \<in> set (reservedKeywords @ lookaheadKeywords))"

text \<open>\<open>lex.AllowedExperimental\<close>.\<close>

definition AllowedExperimental :: "string list" where
  "AllowedExperimental = [''ranges'']"

text \<open>Every keyword has a named token, none of them the error token.\<close>

lemma keyword_ids_named: "list_all (\<lambda>(k, t). T_ERROR < t) keyword_table"
  by (simp add: keyword_table_defs)

lemma GetKeywordID_named: "255 < GetKeywordID k" "GetKeywordID k \<noteq> T_ERROR"
proof -
  have "T_ERROR < t" if "map_of keyword_table k = Some t" for t
    using keyword_ids_named map_of_SomeD [OF that] by (auto simp: list_all_iff)
  then show "255 < GetKeywordID k" "GetKeywordID k \<noteq> T_ERROR"
    by (auto simp: GetKeywordID_def dest: less_trans split: option.split)
qed

end
