(* ===== verification/Lex_Predicates.thy ===== *)
theory Lex_Predicates
  imports Lex_Keywords
begin

text \<open>
  Character classes, bare identifiers and name normalisation: \<open>lex/predicates.go\<close> and
  \<open>lex/normalize.go\<close>. What these call outside the repository is gathered in the record
  \<open>lex_env\<close>: the case tables of package \<open>unicode\<close>, the NFC normaliser of
  \<open>golang.org/x/text\<close>, and whether \<open>go/constant\<close> can represent a float literal (it cannot
  when the exponent overflows its arbitrary-precision format).
\<close>

record lex_env =
  unicode_ToLower :: "nat \<Rightarrow> nat"
  nfc :: "string \<Rightarrow> string"
  float_literal_ok :: "string \<Rightarrow> bool"

subsection \<open>Character classes\<close>

text \<open>The scanner's characters are Go \<open>int\<close>s: a byte, or \<open>eof = -1\<close>.\<close>

abbreviation eof :: int where "eof \<equiv> - 1"

definition IsDigit :: "int \<Rightarrow> bool" where
  "IsDigit ch = (byte_val CHR ''0'' \<le> ch \<and> ch \<le> byte_val CHR ''9'')"

definition IsHexDigit :: "int \<Rightarrow> bool" where
  "IsHexDigit ch =
     ((byte_val CHR ''0'' \<le> ch \<and> ch \<le> byte_val CHR ''9'') \<or>
      (byte_val CHR ''a'' \<le> ch \<and> ch \<le> byte_val CHR ''f'') \<or>
      (byte_val CHR ''A'' \<le> ch \<and> ch \<le> byte_val CHR ''F''))"

definition IsUpper :: "int \<Rightarrow> bool" where
  "IsUpper ch = (byte_val CHR ''A'' \<le> ch \<and> ch \<le> byte_val CHR ''Z'')"

definition IsIdentStart :: "int \<Rightarrow> bool" where
  "IsIdentStart ch =
     ((byte_val CHR ''A'' \<le> ch \<and> ch \<le> byte_val CHR ''Z'') \<or>
      (byte_val CHR ''a'' \<le> ch \<and> ch \<le> byte_val CHR ''z'') \<or>
      (128 \<le> ch \<and> ch \<le> 255) \<or>
      ch = byte_val CHR ''_'')"

definition IsIdentMiddle :: "int \<Rightarrow> bool" where
  "IsIdentMiddle ch = (IsIdentStart ch \<or> IsDigit ch \<or> ch = byte_val CHR ''$'')"

lemmas char_class_defs = IsDigit_def IsHexDigit_def IsUpper_def IsIdentStart_def IsIdentMiddle_def

lemma IsDigit_eof [simp]: "\<not> IsDigit eof" "\<not> IsHexDigit eof" "\<not> IsIdentStart eof" "\<not> IsIdentMiddle eof"
  by (simp_all add: char_class_defs)

lemma IsIdentStart_Middle: "IsIdentStart ch \<Longrightarrow> IsIdentMiddle ch"
  by (simp add: IsIdentMiddle_def)

lemma IsUpper_IdentStart: "IsUpper ch \<Longrightarrow> IsIdentStart ch"
  by (simp add: char_class_defs)

lemma IsDigit_digit_char: "is_digit_char c \<longleftrightarrow> IsDigit (byte_val c)"
  by (simp add: is_digit_char_def IsDigit_def)

subsection \<open>Normalisation\<close>

text \<open>\<open>isASCII\<close>: a range loop over the runes of the string.\<close>

definition isASCII :: "string \<Rightarrow> bool" where
  "isASCII s = (\<forall>c \<in> set (runes s). c \<le> 0x7F)"

text \<open>The special case table \<open>normalize\<close>: both Turkish i's fold to the ASCII letter.\<close>

definition normalize_ToLower :: "lex_env \<Rightarrow> nat \<Rightarrow> nat" where
  "normalize_ToLower env r = (if r = 0x130 \<or> r = 0x131 then 0x69 else unicode_ToLower env r)"

text \<open>\<open>strings.Map\<close> for a mapping that drops no rune; undecodable bytes come out as \<open>RuneError\<close>.\<close>

definition strings_Map :: "(nat \<Rightarrow> nat) \<Rightarrow> string \<Rightarrow> string" where
  "strings_Map f s = concat (map (\<lambda>r. EncodeRune (f r)) (runes s))"

definition NormalizeName :: "lex_env \<Rightarrow> string \<Rightarrow> string" where
  "NormalizeName env n =
     (let lower = strings_Map (normalize_ToLower env) n
      in if isASCII lower then lower else nfc env lower)"

definition isBareIdentifier :: "lex_env \<Rightarrow> string \<Rightarrow> bool" where
  "isBareIdentifier env s =
     (case s of
        [] \<Rightarrow> False
      | c # cs \<Rightarrow>
          if \<not> IsIdentStart (byte_val c) \<or> IsUpper (byte_val c) then False
          else if \<exists>d \<in> set cs. \<not> IsIdentMiddle (byte_val d) \<or> IsUpper (byte_val d) then False
          else (\<forall>d \<in> set s. byte_val d < RuneSelf) \<or> NormalizeName env s = s)"

subsection \<open>Facts\<close>

text \<open>What \<open>unicode.ToLower\<close> documents for ASCII: letters to lower case, the rest unchanged.\<close>

definition ascii_lower :: "nat \<Rightarrow> nat" where
  "ascii_lower r = (if 65 \<le> r \<and> r \<le> 90 then r + 32 else r)"

definition ascii_case_env :: "lex_env \<Rightarrow> bool" where
  "ascii_case_env env = (\<forall>r < 0x80. unicode_ToLower env r = ascii_lower r)"

definition lower_char :: "char \<Rightarrow> char" where
  "lower_char c = (if IsUpper (byte_val c) then char_of (of_char c + 32 :: nat) else c)"

lemma lower_char_ascii: "of_char c < (0x80 :: nat) \<Longrightarrow> EncodeRune (ascii_lower (of_char c)) = [lower_char c]"
  by (auto simp: EncodeRune_def ascii_lower_def lower_char_def IsUpper_def byte_val_nat)

lemma strings_Map_ascii:
  assumes "ascii_case_env env" "\<forall>c \<in> set s. of_char c < (0x80 :: nat)"
  shows "strings_Map (normalize_ToLower env) s = map lower_char s"
  using assms(2)
proof (induction s)
  case Nil
  then show ?case by (simp add: strings_Map_def)
next
  case (Cons c s)
  then have "EncodeRune (normalize_ToLower env (of_char c)) = [lower_char c]"
    using assms(1) lower_char_ascii [of c]
    by (simp add: normalize_ToLower_def ascii_case_env_def)
  with Cons show ?case
    by (simp add: strings_Map_def runes_ascii_Cons)
qed

lemma lower_char_lt: "of_char c < (0x80 :: nat) \<Longrightarrow> of_char (lower_char c) < (0x80 :: nat)"
  by (auto simp: lower_char_def IsUpper_def byte_val_nat)

lemma isASCII_ascii: "\<forall>c \<in> set s. of_char c < (0x80 :: nat) \<Longrightarrow> isASCII s"
  unfolding isASCII_def by (induction s) (auto simp: runes_ascii_Cons)

text \<open>On ASCII text, normalising a name lower-cases it byte by byte.\<close>

lemma NormalizeName_ascii:
  assumes "ascii_case_env env" "\<forall>c \<in> set s. of_char c < (0x80 :: nat)"
  shows "NormalizeName env s = map lower_char s"
proof -
  have "isASCII (map lower_char s)"
    using assms(2) by (intro isASCII_ascii) (auto simp: lower_char_lt)
  then show ?thesis
    using strings_Map_ascii [OF assms] by (simp add: NormalizeName_def)
qed

end
