(* ===== verification/Scanner_Base.thy ===== *)
theory Scanner_Base
  imports Lex_Predicates
begin

text \<open>
  The SQL scanner of \<open>parser/scan.go\<close>. The state is the input and the position
  (\<open>scanner\<close>); a scan updates the symbol value \<open>lval\<close> in place, so every operation takes the
  symbol and returns it. The preallocated byte buffers of the Go code only avoid allocations;
  the strings built in them are modelled as values.
\<close>

subsection \<open>State\<close>

record scanner =
  inp :: string
  spos :: nat

text \<open>
  Numeric constants carry the exact value of an integer literal; a float constant is
  identified by its literal. The union of a symbol holds what the scanner stores there.
\<close>

datatype const_value = IntConst nat | FloatConst string

datatype sym_union = NoVal | NumVal const_value string bool | PlaceholderVal nat

record sqlSymType =
  sym_id :: int
  sym_pos :: "32 word"
  sym_str :: string
  sym_union :: sym_union

definition zero_sym :: sqlSymType where
  "zero_sym = \<lparr>sym_id = 0, sym_pos = 0, sym_str = [], sym_union = NoVal\<rparr>"

definition makeScanner :: "string \<Rightarrow> scanner" where
  "makeScanner str = \<lparr>inp = str, spos = 0\<rparr>"

abbreviation singleQuote :: int where "singleQuote \<equiv> byte_val CHR 0x27"
abbreviation identQuote :: int where "identQuote \<equiv> byte_val CHR 0x22"
abbreviation backslash :: int where "backslash \<equiv> byte_val CHR 0x5C"
abbreviation newline_ch :: int where "newline_ch \<equiv> byte_val CHR 0x0A"

definition errUnterminated :: string where "errUnterminated = ''unterminated string''"
definition errInvalidUTF8 :: string where "errInvalidUTF8 = ''invalid UTF-8 byte sequence''"
definition errInvalidHexNumeric :: string where
  "errInvalidHexNumeric = ''invalid hexadecimal numeric literal''"
definition errInvalidBytesLiteral :: string where
  "errInvalidBytesLiteral = ''invalid hexadecimal bytes literal''"

text \<open>\<open>lval.id = ERROR; lval.str = msg\<close>.\<close>

definition lex_error :: "sqlSymType \<Rightarrow> string \<Rightarrow> sqlSymType" where
  "lex_error lval msg = lval\<lparr>sym_id := T_ERROR, sym_str := msg\<rparr>"

subsection \<open>Reading characters\<close>

definition peek :: "scanner \<Rightarrow> int" where
  "peek s = (if length (inp s) \<le> spos s then eof else byte_val (inp s ! spos s))"

definition peekN :: "scanner \<Rightarrow> nat \<Rightarrow> int" where
  "peekN s n = (if length (inp s) \<le> spos s + n then eof else byte_val (inp s ! (spos s + n)))"

text \<open>\<open>s.pos += n\<close>.\<close>

definition advance :: "scanner \<Rightarrow> nat \<Rightarrow> scanner" where
  "advance s n = s\<lparr>spos := spos s + n\<rparr>"

definition scanner_next :: "scanner \<Rightarrow> scanner \<times> int" where
  "scanner_next s = (let ch = peek s in (if ch \<noteq> eof then advance s 1 else s, ch))"

lemma advance_simps [simp]:
  "inp (advance s n) = inp s" "spos (advance s n) = spos s + n"
  "advance s 0 = s" "advance (advance s m) n = advance s (m + n)"
  by (simp_all add: advance_def)

lemma peek_not_eof: "peek s \<noteq> eof \<Longrightarrow> spos s < length (inp s)"
  by (simp add: peek_def split: if_splits)

lemma peek_eof_iff: "peek s = eof \<longleftrightarrow> length (inp s) \<le> spos s"
  by (simp add: peek_def)

lemma peek_ge: "0 \<le> peek s \<Longrightarrow> spos s < length (inp s)"
  by (simp add: peek_def split: if_splits)

lemma peek_byte_val: "peek s = byte_val c \<Longrightarrow> spos s < length (inp s)"
  by (rule peek_ge) simp

lemma peek_numeral: "peek s = numeral n \<Longrightarrow> spos s < length (inp s)"
  by (rule peek_ge) simp

lemma peek_IsDigit: "IsDigit (peek s) \<Longrightarrow> spos s < length (inp s)"
  by (rule peek_not_eof) auto

lemma peek_IsHexDigit: "IsHexDigit (peek s) \<Longrightarrow> spos s < length (inp s)"
  by (rule peek_not_eof) auto

lemma peek_IsIdentMiddle: "IsIdentMiddle (peek s) \<Longrightarrow> spos s < length (inp s)"
  by (rule peek_not_eof) auto

lemmas peek_in_range = peek_numeral peek_IsDigit peek_IsHexDigit peek_IsIdentMiddle

lemma scanner_next_inp [simp]: "inp (fst (scanner_next s)) = inp s"
  by (simp add: scanner_next_def Let_def)

lemma scanner_next_spos: "spos (fst (scanner_next s)) = (if peek s = eof then spos s else spos s + 1)"
  by (simp add: scanner_next_def Let_def)

lemma snd_scanner_next [simp]: "snd (scanner_next s) = peek s"
  by (simp add: scanner_next_def Let_def)

subsection \<open>Moving forward\<close>

text \<open>
  The relation between the scanner states before and after an operation: the input is the
  same, the position does not go back, and it stays within the input.
\<close>

definition moves :: "scanner \<Rightarrow> scanner \<Rightarrow> bool" where
  "moves s s' \<longleftrightarrow>
     inp s' = inp s \<and> spos s \<le> spos s' \<and> (spos s \<le> length (inp s) \<longrightarrow> spos s' \<le> length (inp s))"

lemma moves_refl [simp, intro]: "moves s s"
  by (simp add: moves_def)

lemma moves_trans [trans]: "moves s t \<Longrightarrow> moves t u \<Longrightarrow> moves s u"
  by (auto simp: moves_def)

lemma moves_inp: "moves s s' \<Longrightarrow> inp s' = inp s"
  by (simp add: moves_def)

lemma moves_spos: "moves s s' \<Longrightarrow> spos s \<le> spos s'"
  by (simp add: moves_def)

lemma moves_bound: "moves s s' \<Longrightarrow> spos s \<le> length (inp s) \<Longrightarrow> spos s' \<le> length (inp s)"
  by (simp add: moves_def)

lemma moves_advance: "spos s + n \<le> length (inp s) \<Longrightarrow> moves s (advance s n)"
  by (simp add: moves_def)

lemma moves_advance_1: "peek s \<noteq> eof \<Longrightarrow> moves s (advance s 1)"
  by (rule moves_advance) (use peek_not_eof in fastforce)

lemma moves_advance_numeral: "peek s = numeral n \<Longrightarrow> moves s (advance s 1)"
  by (rule moves_advance_1) simp

lemma moves_advance_2: "peek s \<noteq> eof \<Longrightarrow> peek (advance s 1) \<noteq> eof \<Longrightarrow> moves s (advance s 2)"
  by (rule moves_advance) (use peek_not_eof [of "advance s 1"] in simp)

lemma scanner_next_moves: "scanner_next s = (s1, ch) \<Longrightarrow> moves s s1"
  by (auto simp: scanner_next_def Let_def moves_advance_1 simp del: One_nat_def split: if_splits)

lemma scanner_next_peek: "scanner_next s = (s1, ch) \<Longrightarrow> ch = peek s"
  by (auto simp: scanner_next_def Let_def)

lemma scanner_next_step:
  "scanner_next s = (s1, ch) \<Longrightarrow> ch \<noteq> eof \<Longrightarrow> s1 = advance s 1 \<and> spos s < length (inp s)"
  by (auto simp: scanner_next_def Let_def dest: peek_not_eof split: if_splits)

subsection \<open>Comments and white space\<close>

text \<open>
  The loop over the body of a block comment, with the nesting depth. The boolean tells
  whether the comment was closed before the end of the input.
\<close>

function scanComment_block :: "scanner \<Rightarrow> nat \<Rightarrow> scanner \<times> bool" where
  "scanComment_block s depth =
     (let (s1, ch) = scanner_next s in
      if ch = byte_val CHR ''*'' then
        (if peek s1 = byte_val CHR ''/'' then
           (if depth - 1 = 0 then (advance s1 1, True)
            else scanComment_block (advance s1 1) (depth - 1))
         else scanComment_block s1 depth)
      else if ch = byte_val CHR ''/'' then
        (if peek s1 = byte_val CHR ''*'' then scanComment_block (advance s1 1) (depth + 1)
         else scanComment_block s1 depth)
      else if ch = eof then (s1, False)
      else scanComment_block s1 depth)"
  by pat_completeness auto
termination
  by (relation "measure (\<lambda>(s, depth). length (inp s) - spos s)")
    (auto simp: scanner_next_def Let_def dest!: peek_in_range peek_not_eof split: if_splits)

declare scanComment_block.simps [simp del]

text \<open>The loop that skips to the end of the line.\<close>

function scanComment_line :: "scanner \<Rightarrow> scanner" where
  "scanComment_line s =
     (let (s1, ch) = scanner_next s in
      if ch = eof \<or> ch = newline_ch then s1 else scanComment_line s1)"
  by pat_completeness auto
termination
  by (relation "measure (\<lambda>s. length (inp s) - spos s)")
    (auto simp: scanner_next_def Let_def dest!: peek_not_eof split: if_splits)

declare scanComment_line.simps [simp del]

text \<open>\<open>scanComment\<close> returns \<open>(present, ok)\<close>.\<close>

definition scanComment :: "scanner \<Rightarrow> sqlSymType \<Rightarrow> scanner \<times> sqlSymType \<times> bool \<times> bool" where
  "scanComment s lval =
     (let start = spos s; ch = peek s in
      if ch = byte_val CHR ''/'' then
        (if peek (advance s 1) \<noteq> byte_val CHR ''*'' then (s, lval, False, True)
         else
           (case scanComment_block (advance s 2) 1 of
              (s', True) \<Rightarrow> (s', lval, True, True)
            | (s', False) \<Rightarrow>
                (s', lval\<lparr>sym_id := T_ERROR, sym_pos := word_of_nat start,
                          sym_str := ''unterminated comment''\<rparr>, False, False)))
      else if ch = byte_val CHR ''-'' then
        (if peek (advance s 1) \<noteq> byte_val CHR ''-'' then (s, lval, False, True)
         else (scanComment_line (advance s 1), lval, True, True))
      else (s, lval, False, True))"

lemma scanComment_block_moves: "moves s (fst (scanComment_block s depth))"
proof (induction s depth rule: scanComment_block.induct)
  case (1 s depth)
  obtain s1 ch where n: "scanner_next s = (s1, ch)" by (cases "scanner_next s")
  note IH = "1.IH" [OF n [symmetric] refl]
  have m: "moves s s1" using n by (rule scanner_next_moves)
  then have m2: "peek s1 = numeral k \<Longrightarrow> moves s (advance s1 1)" for k
    by (rule moves_trans [OF _ moves_advance_numeral])
  show ?case
    unfolding scanComment_block.simps [of s depth] n using IH m m2
    by (auto simp: Let_def simp del: One_nat_def intro: moves_trans)
qed

lemma scanComment_line_moves: "moves s (scanComment_line s)"
proof (induction s rule: scanComment_line.induct)
  case (1 s)
  obtain s1 ch where n: "scanner_next s = (s1, ch)" by (cases "scanner_next s")
  note IH = "1.IH" [OF n [symmetric] refl]
  show ?case
    unfolding scanComment_line.simps [of s] n using IH scanner_next_moves [OF n]
    by (auto simp: Let_def intro: moves_trans)
qed

lemma scanComment_moves:
  assumes "scanComment s lval = (s', lval', present, ok)"
  shows "moves s s'" and "present \<or> \<not> ok \<Longrightarrow> spos s < spos s' \<and> spos s < length (inp s)"
proof -
  have block: "peek s = byte_val CHR ''/'' \<Longrightarrow> peek (advance s 1) = byte_val CHR ''*'' \<Longrightarrow>
      moves s (fst (scanComment_block (advance s 2) 1))"
    by (rule moves_trans [OF moves_advance_2 scanComment_block_moves]) simp_all
  have line: "peek s = byte_val CHR ''-'' \<Longrightarrow> moves s (scanComment_line (advance s 1))"
    by (rule moves_trans [OF moves_advance_1 scanComment_line_moves]) simp
  show "moves s s'"
    using assms block line
    by (auto simp: scanComment_def Let_def simp del: One_nat_def split: if_splits prod.splits bool.splits)
  have "spos (advance s 2) \<le> spos (fst (scanComment_block (advance s 2) 1))"
    "spos (advance s 1) \<le> spos (scanComment_line (advance s 1))"
    using scanComment_block_moves scanComment_line_moves by (blast intro: moves_spos)+
  then show "present \<or> \<not> ok \<Longrightarrow> spos s < spos s' \<and> spos s < length (inp s)"
    using assms
    by (auto simp: scanComment_def Let_def dest: peek_numeral [of s] split: if_splits prod.splits bool.splits)
qed

lemma scanComment_present:
  "(s', lval', True, ok) = scanComment s lval \<Longrightarrow> length (inp s') - spos s' < length (inp s) - spos s"
  using scanComment_moves [of s lval s' lval' True ok] by (auto simp: moves_def)

text \<open>\<open>skipWhitespace\<close> returns \<open>(newline, ok)\<close>.\<close>

definition is_blank :: "int \<Rightarrow> bool" where
  "is_blank ch = (ch = byte_val CHR '' '' \<or> ch = byte_val CHR 0x09 \<or> ch = byte_val CHR 0x0D \<or>
                  ch = byte_val CHR 0x0C)"

lemma is_blank_peek: "is_blank (peek s) \<Longrightarrow> spos s < length (inp s)"
  unfolding is_blank_def by (auto dest: peek_numeral)

function skipWhitespace_loop ::
  "bool \<Rightarrow> bool \<Rightarrow> scanner \<Rightarrow> sqlSymType \<Rightarrow> scanner \<times> sqlSymType \<times> bool \<times> bool" where
  "skipWhitespace_loop allowComments newline s lval =
     (let ch = peek s in
      if ch = newline_ch then skipWhitespace_loop allowComments True (advance s 1) lval
      else if is_blank ch then skipWhitespace_loop allowComments newline (advance s 1) lval
      else if allowComments then
        (case scanComment s lval of
           (s', lval', present, cok) \<Rightarrow>
             if \<not> cok then (s', lval', False, False)
             else if present then skipWhitespace_loop allowComments newline s' lval'
             else (s', lval', newline, True))
      else (s, lval, newline, True))"
  by pat_completeness auto
termination
  by (relation "measure (\<lambda>(allowComments, newline, s, lval). length (inp s) - spos s)")
    (auto dest: peek_numeral is_blank_peek scanComment_present)

declare skipWhitespace_loop.simps [simp del]

definition skipWhitespace ::
  "scanner \<Rightarrow> sqlSymType \<Rightarrow> bool \<Rightarrow> scanner \<times> sqlSymType \<times> bool \<times> bool" where
  "skipWhitespace s lval allowComments = skipWhitespace_loop allowComments False s lval"

lemma skipWhitespace_loop_cases:
  "peek s = newline_ch \<Longrightarrow>
     skipWhitespace_loop ac nl s lval = skipWhitespace_loop ac True (advance s 1) lval"
  "is_blank (peek s) \<Longrightarrow>
     skipWhitespace_loop ac nl s lval = skipWhitespace_loop ac nl (advance s 1) lval"
  "peek s \<noteq> newline_ch \<Longrightarrow> \<not> is_blank (peek s) \<Longrightarrow> scanComment s lval = (s1, lval1, True, True) \<Longrightarrow>
     skipWhitespace_loop True nl s lval = skipWhitespace_loop True nl s1 lval1"
  "peek s \<noteq> newline_ch \<Longrightarrow> \<not> is_blank (peek s) \<Longrightarrow> scanComment s lval = (s1, lval1, False, True) \<Longrightarrow>
     skipWhitespace_loop True nl s lval = (s1, lval1, nl, True)"
  "peek s \<noteq> newline_ch \<Longrightarrow> \<not> is_blank (peek s) \<Longrightarrow> scanComment s lval = (s1, lval1, p, False) \<Longrightarrow>
     skipWhitespace_loop True nl s lval = (s1, lval1, False, False)"
  "peek s \<noteq> newline_ch \<Longrightarrow> \<not> is_blank (peek s) \<Longrightarrow>
     skipWhitespace_loop False nl s lval = (s, lval, nl, True)"
  by (auto simp: skipWhitespace_loop.simps [of ac nl s lval] skipWhitespace_loop.simps [of True nl s lval]
      skipWhitespace_loop.simps [of False nl s lval] Let_def is_blank_def)

lemma skipWhitespace_loop_moves:
  assumes "skipWhitespace_loop ac nl s lval = (s', lval', newline, ok)"
  shows "moves s s'"
  using assms
proof (induction ac nl s lval rule: skipWhitespace_loop.induct)
  case (1 ac nl s lval)
  consider (nl) "peek s = newline_ch" | (blank) "peek s \<noteq> newline_ch" "is_blank (peek s)"
    | (other) "peek s \<noteq> newline_ch" "\<not> is_blank (peek s)" by blast
  then show ?case
  proof cases
    case nl
    then have "moves s (advance s 1)" by (intro moves_advance_1) simp
    then show ?thesis
      using "1.IH"(1) [OF refl nl] "1.prems" nl
      by (auto simp: skipWhitespace_loop_cases(1) intro: moves_trans)
  next
    case blank
    then have "moves s (advance s 1)"
      by (intro moves_advance) (use is_blank_peek in fastforce)
    then show ?thesis
      using "1.IH"(2) [OF refl blank] "1.prems" blank
      by (auto simp: skipWhitespace_loop_cases(2) intro: moves_trans)
  next
    case other
    show ?thesis
    proof (cases ac)
      case False
      then show ?thesis using "1.prems" other by (auto simp: skipWhitespace_loop_cases(6))
    next
      case True
      obtain s1 lval1 p c where sc: "scanComment s lval = (s1, lval1, p, c)"
        by (cases "scanComment s lval") auto
      note m = scanComment_moves(1) [OF sc]
      have IH: "p \<Longrightarrow> c \<Longrightarrow> skipWhitespace_loop True nl s1 lval1 = (s', lval', newline, ok) \<Longrightarrow> moves s1 s'"
        using "1.IH"(3) [OF refl other True sc [symmetric] refl refl] True by simp
      show ?thesis
        using "1.prems" other sc m IH True
        by (cases p; cases c) (auto simp: skipWhitespace_loop_cases intro: moves_trans)
    qed
  qed
qed

lemma skipWhitespace_moves:
  "skipWhitespace s lval ac = (s', lval', newline, ok) \<Longrightarrow> moves s s'"
  unfolding skipWhitespace_def by (rule skipWhitespace_loop_moves)

end
