(* ===== verification/Scanner_Literals.thy ===== *)
theory Scanner_Literals
  imports Scanner_Base
begin

text \<open>
  The scanner's routines for identifiers, numbers, placeholders and the string forms:
  \<open>scanIdent\<close>, \<open>scanNumber\<close>, \<open>scanPlaceholder\<close>, \<open>scanHexString\<close>,
  \<open>scanBitString\<close>, \<open>scanString\<close> and \<open>scanDollarQuotedString\<close> of \<open>parser/scan.go\<close>, with
  \<open>ast.NewPlaceholder\<close> and the library functions they call.
\<close>

subsection \<open>Identifiers\<close>

text \<open>The loop over the identifier, with the flags \<open>isASCII\<close> and \<open>isLower\<close>.\<close>

function scanIdent_loop :: "scanner \<Rightarrow> bool \<Rightarrow> bool \<Rightarrow> scanner \<times> bool \<times> bool" where
  "scanIdent_loop s ascii lower =
     (let ch = peek s;
          ascii' = (if ch \<ge> RuneSelf then False else ascii);
          lower' = (if \<not> ch \<ge> RuneSelf \<and> IsUpper ch then False else lower)
      in if \<not> IsIdentMiddle ch then (s, ascii', lower')
         else scanIdent_loop (advance s 1) ascii' lower')"
  by pat_completeness auto
termination
  by (relation "measure (\<lambda>(s, a, l). length (inp s) - spos s)") (auto dest: peek_IsIdentMiddle)

declare scanIdent_loop.simps [simp del]

text \<open>The prefixes \<open>experimental_\<close> and \<open>testing_\<close>: the keyword to look up and whether one was cut.\<close>

definition experimental_split :: "string \<Rightarrow> string \<times> bool" where
  "experimental_split str =
     (if take 13 str = ''experimental_'' then (drop 13 str, True)
      else if take 8 str = ''testing_'' then (drop 8 str, True)
      else (str, False))"

definition ident_keyword :: "string \<Rightarrow> string \<times> int" where
  "ident_keyword str =
     (let (kw, isExperimental) = experimental_split str; id = GetKeywordID kw in
      if id \<noteq> T_IDENT then
        (if isExperimental then
           (if kw \<notin> set AllowedExperimental then (str, GetKeywordID str) else (kw, id))
         else (str, id))
      else (str, GetKeywordID str))"

definition scanIdent :: "lex_env \<Rightarrow> scanner \<Rightarrow> sqlSymType \<Rightarrow> scanner \<times> sqlSymType" where
  "scanIdent env s lval =
     (let start = spos s - 1;
          (s', ascii, lower) = scanIdent_loop (s\<lparr>spos := start\<rparr>) True True;
          text = slice (inp s') start (spos s');
          str = (if lower then text
                 else if ascii then map lower_char text
                 else NormalizeName env text);
          (str', id) = ident_keyword str
      in (s', lval\<lparr>sym_id := id, sym_str := str'\<rparr>))"

subsection \<open>Numbers\<close>

text \<open>
  The loop over a number, with its flags; the result is an error message or the flags at
  the end of the number.
\<close>

function scanNumber_loop ::
  "nat \<Rightarrow> bool \<Rightarrow> bool \<Rightarrow> bool \<Rightarrow> scanner \<Rightarrow> scanner \<times> (string + bool \<times> bool \<times> bool)" where
  "scanNumber_loop start isHex hasDecimal hasExponent s =
     (let ch = peek s in
      if (isHex \<and> IsHexDigit ch) \<or> IsDigit ch then
        scanNumber_loop start isHex hasDecimal hasExponent (advance s 1)
      else if ch = byte_val CHR ''x'' \<or> ch = byte_val CHR ''X'' then
        (if isHex \<or> inp s ! start \<noteq> CHR ''0'' \<or> spos s \<noteq> start + 1 then (s, Inl errInvalidHexNumeric)
         else scanNumber_loop start True hasDecimal hasExponent (advance s 1))
      else if isHex then (s, Inr (isHex, hasDecimal, hasExponent))
      else if ch = byte_val CHR ''.'' then
        (if hasDecimal \<or> hasExponent then (s, Inr (isHex, hasDecimal, hasExponent))
         else if peek (advance s 1) = byte_val CHR ''.'' then
           (s, Inr (isHex, hasDecimal, hasExponent))
         else scanNumber_loop start isHex True hasExponent (advance s 1))
      else if ch = byte_val CHR ''e'' \<or> ch = byte_val CHR ''E'' then
        (if hasExponent then (s, Inr (isHex, hasDecimal, hasExponent))
         else
           (let c1 = peek (advance s 1);
                s2 = (if c1 = byte_val CHR ''-'' \<or> c1 = byte_val CHR ''+''
                      then advance s 2 else advance s 1)
            in if \<not> IsDigit (peek s2) then (s2, Inl ''invalid floating point literal'')
               else scanNumber_loop start isHex hasDecimal True s2))
      else (s, Inr (isHex, hasDecimal, hasExponent)))"
  by pat_completeness auto
termination
  by (relation "measure (\<lambda>(start, h, d, e, s). length (inp s) - spos s)")
    (auto dest!: peek_in_range simp: Let_def split: if_splits)

declare scanNumber_loop.simps [simp del]

text \<open>\<open>for len(str) > 1 && str[0] == '0' { str = str[1:] }\<close>\<close>

fun strip_zeros :: "string \<Rightarrow> string" where
  "strip_zeros (c # d # cs) = (if c = CHR ''0'' then strip_zeros (d # cs) else c # d # cs)"
| "strip_zeros cs = cs"

definition hex_digit_value :: "char \<Rightarrow> nat option" where
  "hex_digit_value c =
     (let n = of_char c in
      if 48 \<le> n \<and> n \<le> 57 then Some (n - 48)
      else if 97 \<le> n \<and> n \<le> 102 then Some (n - 87)
      else if 65 \<le> n \<and> n \<le> 70 then Some (n - 55)
      else None)"

text \<open>The value of a nonempty digit string in the given base.\<close>

fun read_base_acc :: "nat \<Rightarrow> nat \<Rightarrow> string \<Rightarrow> nat option" where
  "read_base_acc b a [] = Some a"
| "read_base_acc b a (c # cs) =
     (case hex_digit_value c of
        Some d \<Rightarrow> if d < b then read_base_acc b (b * a + d) cs else None
      | None \<Rightarrow> None)"

definition read_base :: "nat \<Rightarrow> string \<Rightarrow> nat option" where
  "read_base b cs = (if cs = [] then None else read_base_acc b 0 cs)"

text \<open>
  \<open>constant.MakeFromLiteral(lit, token.INT, 0)\<close> for literals without sign and underscores:
  a base prefix, a leading zero for octal, or decimal; \<open>None\<close> is the kind \<open>Unknown\<close>.
\<close>

definition MakeFromLiteral_INT :: "string \<Rightarrow> nat option" where
  "MakeFromLiteral_INT lit =
     (case lit of
        c # d # cs \<Rightarrow>
          if c = CHR ''0'' \<and> (d = CHR ''x'' \<or> d = CHR ''X'') then read_base 16 cs
          else if c = CHR ''0'' \<and> (d = CHR ''b'' \<or> d = CHR ''B'') then read_base 2 cs
          else if c = CHR ''0'' \<and> (d = CHR ''o'' \<or> d = CHR ''O'') then read_base 8 cs
          else if c = CHR ''0'' then read_base 8 (d # cs)
          else read_base 10 lit
      | _ \<Rightarrow> read_base 10 lit)"

definition scanNumber :: "lex_env \<Rightarrow> scanner \<Rightarrow> sqlSymType \<Rightarrow> int \<Rightarrow> scanner \<times> sqlSymType" where
  "scanNumber env s lval ch =
     (let start = spos s - 1 in
      case scanNumber_loop start False (ch = byte_val CHR ''.'') False s of
        (s', Inl e) \<Rightarrow> (s', lex_error lval e)
      | (s', Inr (isHex, hasDecimal, hasExponent)) \<Rightarrow>
          (let str = slice (inp s') start (spos s') in
           if hasDecimal \<or> hasExponent then
             (if \<not> float_literal_ok env str then
                (s', lex_error lval
                   (''could not make constant float from literal '' @ [CHR 0x22] @ str @ [CHR 0x22]))
              else
                (s', lval\<lparr>sym_id := T_FCONST, sym_str := str,
                          sym_union := NumVal (FloatConst str) str False\<rparr>))
           else if isHex \<and> spos s' = start + 2 then (s', lex_error lval errInvalidHexNumeric)
           else
             (let str' = (if isHex then str else strip_zeros str) in
              case MakeFromLiteral_INT str' of
                None \<Rightarrow>
                  (s', lex_error lval
                     (''could not make constant int from literal '' @ [CHR 0x22] @ str' @ [CHR 0x22]))
              | Some v \<Rightarrow>
                  (s', lval\<lparr>sym_id := T_ICONST, sym_str := str',
                            sym_union := NumVal (IntConst v) str' False\<rparr>))))"

subsection \<open>Placeholders\<close>

abbreviation MaxPlaceholderIdx :: nat where "MaxPlaceholderIdx \<equiv> 65535"

text \<open>
  \<open>ast.NewPlaceholder\<close>: the 0-based index of a placeholder name, or the error message.
  \<open>strconv.ParseUint\<close> quotes the name in its message; a name of digits is quoted as it is.
\<close>

definition NewPlaceholder :: "string \<Rightarrow> string + nat" where
  "NewPlaceholder name =
     (let uval = read_nat name in
      if name = [] \<or> (\<exists>c \<in> set name. \<not> is_digit_char c) then
        Inl (''strconv.ParseUint: parsing '' @ [CHR 0x22] @ name @ [CHR 0x22] @ '': invalid syntax'')
      else if 2 ^ 64 \<le> uval then
        Inl (''strconv.ParseUint: parsing '' @ [CHR 0x22] @ name @ [CHR 0x22] @ '': value out of range'')
      else if uval = 0 \<or> uval > MaxPlaceholderIdx + 1 then
        Inl (''placeholder index must be between 1 and '' @ show_nat (MaxPlaceholderIdx + 1))
      else Inr (uval - 1))"

function scanPlaceholder_loop :: "scanner \<Rightarrow> scanner" where
  "scanPlaceholder_loop s = (if IsDigit (peek s) then scanPlaceholder_loop (advance s 1) else s)"
  by pat_completeness auto
termination
  by (relation "measure (\<lambda>s. length (inp s) - spos s)") (auto dest: peek_IsDigit)

declare scanPlaceholder_loop.simps [simp del]

definition scanPlaceholder :: "scanner \<Rightarrow> sqlSymType \<Rightarrow> scanner \<times> sqlSymType" where
  "scanPlaceholder s lval =
     (let start = spos s; s' = scanPlaceholder_loop s; str = slice (inp s') start (spos s') in
      case NewPlaceholder str of
        Inl e \<Rightarrow> (s', lex_error lval e)
      | Inr idx \<Rightarrow>
          (s', lval\<lparr>sym_id := T_PLACEHOLDER, sym_str := str, sym_union := PlaceholderVal idx\<rparr>))"

subsection \<open>Hexadecimal and bit strings\<close>

text \<open>
  After the closing quote of any string form the code skips white space (no comments) and,
  when it contained a newline and another quote follows, continues with that string.
\<close>

lemma next_decreases:
  "(s1, ch) = scanner_next s \<Longrightarrow> ch \<noteq> eof \<Longrightarrow> length (inp s1) - spos s1 < length (inp s) - spos s"
  by (auto dest!: sym [of _ "scanner_next s"] scanner_next_step)

lemma next_advance_decreases:
  "(s1, ch) = scanner_next s \<Longrightarrow> ch \<noteq> eof \<Longrightarrow> length (inp s1) - (spos s1 + n) < length (inp s) - spos s"
  "(s1, ch) = scanner_next s \<Longrightarrow> ch \<noteq> eof \<Longrightarrow> length (inp s1) - Suc (spos s1) < length (inp s) - spos s"
  by (auto dest!: sym [of _ "scanner_next s"] scanner_next_step intro: diff_less_mono2)

lemma adjacent_decreases:
  assumes "(s1, ch) = scanner_next s" "ch \<noteq> eof"
    and "(s2, lval2, newline, ok) = skipWhitespace s1 lval False"
  shows "length (inp s2) - Suc (spos s2) < length (inp s) - spos s"
  using scanner_next_step [OF assms(1) [symmetric] assms(2)] skipWhitespace_moves [OF assms(3) [symmetric]]
  by (auto simp: moves_def intro: diff_less_mono2)

lemmas quote_decreases = adjacent_decreases [OF _ byte_val_not_eof]

text \<open>The loop of \<open>scanHexString\<close>: \<open>None\<close> is an error, otherwise the bytes and \<open>bytep\<close>.\<close>

function scanHexString_loop ::
  "char \<Rightarrow> scanner \<Rightarrow> sqlSymType \<Rightarrow> string \<Rightarrow> nat \<Rightarrow> nat
   \<Rightarrow> scanner \<times> sqlSymType \<times> (string \<times> nat) option" where
  "scanHexString_loop q s lval buf curbyte bytep =
     (let (s1, b) = scanner_next s in
      if b = byte_val q then
        (let (s2, lval2, newline, ok) = skipWhitespace s1 lval False in
         if \<not> ok then (s2, lval2, None)
         else if peek s2 = byte_val q \<and> newline then
           scanHexString_loop q (advance s2 1) lval2 buf curbyte bytep
         else (s2, lval2, Some (buf, bytep)))
      else if b = eof then (s1, lex_error lval errInvalidBytesLiteral, None)
      else
        (case hex_digit_value (char_of b) of
           None \<Rightarrow> (s1, lex_error lval errInvalidBytesLiteral, None)
         | Some d \<Rightarrow>
             (let cur = (curbyte * 16) mod 256 + d in
              if bytep + 1 > 1 then scanHexString_loop q s1 lval (buf @ [char_of cur]) 0 0
              else scanHexString_loop q s1 lval buf cur (bytep + 1))))"
  by pat_completeness auto
termination
  by (relation "measure (\<lambda>(q, s, lval, buf, c, p). length (inp s) - spos s)")
    (auto dest: quote_decreases next_decreases)

declare scanHexString_loop.simps [simp del]

definition scanHexString :: "scanner \<Rightarrow> sqlSymType \<Rightarrow> char \<Rightarrow> scanner \<times> sqlSymType" where
  "scanHexString s lval q =
     (case scanHexString_loop q s lval [] 0 0 of
        (s', lval', None) \<Rightarrow> (s', lval')
      | (s', lval', Some (buf, bytep)) \<Rightarrow>
          if bytep \<noteq> 0 then (s', lex_error lval' errInvalidBytesLiteral)
          else (s', lval'\<lparr>sym_id := T_BCONST, sym_str := buf\<rparr>))"

text \<open>\<open>fmt.Sprintf("%c", rune(b))\<close> of a scanned character; \<open>eof\<close> is not a rune.\<close>

definition format_c :: "int \<Rightarrow> string" where
  "format_c b = (if b = eof then EncodeRune RuneError else EncodeRune (nat b))"

function scanBitString_loop ::
  "char \<Rightarrow> scanner \<Rightarrow> sqlSymType \<Rightarrow> string \<Rightarrow> scanner \<times> sqlSymType \<times> string option" where
  "scanBitString_loop q s lval buf =
     (let (s1, b) = scanner_next s in
      if b = byte_val q then
        (let (s2, lval2, newline, ok) = skipWhitespace s1 lval False in
         if \<not> ok then (s2, lval2, None)
         else if peek s2 = byte_val q \<and> newline then
           scanBitString_loop q (advance s2 1) lval2 buf
         else (s2, lval2, Some buf))
      else if b = byte_val CHR ''0'' \<or> b = byte_val CHR ''1'' then
        scanBitString_loop q s1 lval (buf @ [char_of b])
      else
        (s1, lex_error lval ([CHR 0x22] @ format_c b @ [CHR 0x22] @ '' is not a valid binary digit''),
         None))"
  by pat_completeness auto
termination
  by (relation "measure (\<lambda>(q, s, lval, buf). length (inp s) - spos s)")
    (auto dest: quote_decreases next_decreases)

declare scanBitString_loop.simps [simp del]

definition scanBitString :: "scanner \<Rightarrow> sqlSymType \<Rightarrow> char \<Rightarrow> scanner \<times> sqlSymType" where
  "scanBitString s lval q =
     (case scanBitString_loop q s lval [] of
        (s', lval', None) \<Rightarrow> (s', lval')
      | (s', lval', Some buf) \<Rightarrow> (s', lval'\<lparr>sym_id := T_BITCONST, sym_str := buf\<rparr>))"

subsection \<open>Escape sequences\<close>

text \<open>The digits of a \<open>\x\<close>, \<open>\u\<close> or \<open>\U\<close> escape, accumulated in a 32-bit rune.\<close>

fun unquote_hex :: "nat \<Rightarrow> int \<Rightarrow> string \<Rightarrow> (int \<times> string) option" where
  "unquote_hex 0 v s = Some (v, s)"
| "unquote_hex (Suc n) v [] = None"
| "unquote_hex (Suc n) v (c # s) =
     (case hex_digit_value c of
        None \<Rightarrow> None
      | Some x \<Rightarrow> unquote_hex n (int32 (16 * v + int x)) s)"

fun unquote_octal :: "nat \<Rightarrow> nat \<Rightarrow> string \<Rightarrow> (nat \<times> string) option" where
  "unquote_octal 0 v s = Some (v, s)"
| "unquote_octal (Suc n) v [] = None"
| "unquote_octal (Suc n) v (c # s) =
     (if 48 \<le> (of_char c :: nat) \<and> (of_char c :: nat) \<le> 55
      then unquote_octal n (8 * v + (of_char c - 48)) s else None)"

definition simple_escape :: "char \<Rightarrow> int option" where
  "simple_escape c =
     map_of [(CHR ''a'', 7), (CHR ''b'', 8), (CHR ''f'', 12), (CHR ''n'', 10), (CHR ''r'', 13),
             (CHR ''t'', 9), (CHR ''v'', 11), (CHR 0x5C, 92)] c"

text \<open>
  \<open>strconv.UnquoteChar\<close> on a string that begins with a backslash: the rune, whether it is
  multibyte, and the rest; \<open>None\<close> is \<open>ErrSyntax\<close>.
\<close>

definition UnquoteChar_escape :: "char \<Rightarrow> char \<Rightarrow> string \<Rightarrow> (int \<times> bool \<times> string) option" where
  "UnquoteChar_escape q c s =
     (case simple_escape c of
        Some v \<Rightarrow> Some (v, False, s)
      | None \<Rightarrow>
          if c = CHR ''x'' then map_option (\<lambda>(v, t). (v, False, t)) (unquote_hex 2 0 s)
          else if c = CHR ''u'' \<or> c = CHR ''U'' then
            (case unquote_hex (if c = CHR ''u'' then 4 else 8) 0 s of
               None \<Rightarrow> None
             | Some (v, t) \<Rightarrow> if v > int MaxRune then None else Some (v, True, t))
          else if 48 \<le> (of_char c :: nat) \<and> (of_char c :: nat) \<le> 55 then
            (case unquote_octal 2 (of_char c - 48) s of
               None \<Rightarrow> None
             | Some (v, t) \<Rightarrow> if v > 255 then None else Some (int v, False, t))
          else if c = CHR 0x27 \<or> c = CHR 0x22 then
            (if c \<noteq> q then None else Some (byte_val c, False, s))
          else None)"

definition UnquoteChar :: "string \<Rightarrow> char \<Rightarrow> (int \<times> bool \<times> string) option" where
  "UnquoteChar str q =
     (case str of
        [] \<Rightarrow> None
      | c # s \<Rightarrow>
          if c = q \<and> (q = CHR 0x27 \<or> q = CHR 0x22) then None
          else if byte_val c \<ge> RuneSelf then
            (let (r, n) = DecodeRune str in Some (int r, True, drop n str))
          else if c \<noteq> CHR 0x5C then Some (byte_val c, False, s)
          else (case s of [] \<Rightarrow> None | d # t \<Rightarrow> UnquoteChar_escape q d t))"

subsection \<open>Quoted strings\<close>

text \<open>The characters after a backslash that \<open>scanString\<close> hands to \<open>UnquoteChar\<close>.\<close>

definition is_escape_char :: "int \<Rightarrow> bool" where
  "is_escape_char t = (t \<in> byte_val ` set (''abfnrtvxXuU'' @ [CHR 0x5C] @ ''01234567''))"

definition escape_text :: "scanner \<Rightarrow> int \<Rightarrow> string" where
  "escape_text s t =
     (if t = byte_val CHR ''X'' \<and> length (drop (spos s) (inp s)) \<ge> 3
      then [CHR 0x5C, CHR ''x''] @ slice (inp s) (spos s + 1) (spos s + 3)
      else drop (spos s - 1) (inp s))"

definition escape_bytes :: "int \<Rightarrow> bool \<Rightarrow> string" where
  "escape_bytes v multibyte =
     (if v < RuneSelf \<or> \<not> multibyte then [char_of v] else EncodeRune (nat v))"

function scanString_loop ::
  "char \<Rightarrow> bool \<Rightarrow> scanner \<Rightarrow> sqlSymType \<Rightarrow> string \<Rightarrow> nat \<Rightarrow> scanner \<times> sqlSymType \<times> string option" where
  "scanString_loop q allowEscapes s lval buf start =
     (let (s1, c) = scanner_next s in
      if c = byte_val q then
        (let buf1 = buf @ slice (inp s1) start (spos s1 - 1) in
         if peek s1 = byte_val q then
           scanString_loop q allowEscapes (advance s1 1) lval buf1 (spos s1)
         else
           (let (s2, lval2, newline, ok) = skipWhitespace s1 lval False in
            if \<not> ok then (s2, lval2, None)
            else if peek s2 = byte_val q \<and> newline then
              scanString_loop q allowEscapes (advance s2 1) lval2 buf1 (spos s2 + 1)
            else (s2, lval2, Some buf1)))
      else if c = backslash then
        (if allowEscapes then
           (let t = peek s1; buf1 = buf @ slice (inp s1) start (spos s1 - 1) in
            if t = byte_val q then
              scanString_loop q allowEscapes (advance s1 1) lval buf1 (spos s1)
            else if is_escape_char t then
              (let tmp = escape_text s1 t in
               case UnquoteChar tmp q of
                 None \<Rightarrow> (s1, lex_error lval ''invalid syntax'', None)
               | Some (v, multibyte, tail) \<Rightarrow>
                   (let s2 = advance s1 (length tmp - length tail - 1) in
                    scanString_loop q allowEscapes s2 lval (buf1 @ escape_bytes v multibyte) (spos s2)))
            else scanString_loop q allowEscapes s1 lval buf1 (spos s1))
         else scanString_loop q allowEscapes s1 lval buf start)
      else if c = eof then (s1, lex_error lval errUnterminated, None)
      else scanString_loop q allowEscapes s1 lval buf start)"
  by pat_completeness auto
termination
  by (relation "measure (\<lambda>(q, e, s, lval, buf, start). length (inp s) - spos s)")
    (auto dest: quote_decreases next_decreases next_advance_decreases)

declare scanString_loop.simps [simp del]

definition scanString ::
  "scanner \<Rightarrow> sqlSymType \<Rightarrow> char \<Rightarrow> bool \<Rightarrow> bool \<Rightarrow> scanner \<times> sqlSymType \<times> bool" where
  "scanString s lval q allowEscapes requireUTF8 =
     (case scanString_loop q allowEscapes s lval [] (spos s) of
        (s', lval', None) \<Rightarrow> (s', lval', False)
      | (s', lval', Some buf) \<Rightarrow>
          if requireUTF8 \<and> \<not> utf8_valid buf then (s', lex_error lval' errInvalidUTF8, False)
          else (s', lval'\<lparr>sym_str := buf\<rparr>, True))"

subsection \<open>Dollar-quoted strings\<close>

function scanDollar_loop ::
  "nat \<Rightarrow> bool \<Rightarrow> bool \<Rightarrow> int \<Rightarrow> string \<Rightarrow> scanner \<Rightarrow> sqlSymType
   \<Rightarrow> scanner \<times> sqlSymType \<times> string option" where
  "scanDollar_loop start foundStartTag possibleEndTag startTagIndex startTag s lval =
     (let ch = peek s in
      if ch = byte_val CHR ''$'' then
        (let s1 = advance s 1 in
         if foundStartTag then
           (if possibleEndTag then
              (if int (length startTag) = startTagIndex then
                 (s1, lval, Some (slice (inp s1) (start + length startTag + 1)
                                        (spos s1 - length startTag - 2)))
               else scanDollar_loop start foundStartTag possibleEndTag 0 startTag s1 lval)
            else scanDollar_loop start foundStartTag True 0 startTag s1 lval)
         else
           scanDollar_loop start True possibleEndTag startTagIndex
             (slice (inp s1) start (spos s1 - 1)) s1 lval)
      else if ch = eof then
        (if foundStartTag then (s, lex_error lval errUnterminated, None)
         else (s\<lparr>spos := start\<rparr>, lval, None))
      else if \<not> foundStartTag \<and> \<not> IsIdentStart ch then (s, lval, None)
      else
        (let s1 = advance s 1 in
         if possibleEndTag then
           (if startTagIndex \<ge> int (length startTag) \<or> ch \<noteq> byte_val (startTag ! nat startTagIndex) then
              scanDollar_loop start foundStartTag False (- 1) startTag s1 lval
            else scanDollar_loop start foundStartTag possibleEndTag (startTagIndex + 1) startTag s1 lval)
         else scanDollar_loop start foundStartTag possibleEndTag startTagIndex startTag s1 lval))"
  by pat_completeness auto
termination
  by (relation "measure (\<lambda>(start, f, p, i, t, s, lval). length (inp s) - spos s)")
    (auto dest!: peek_numeral peek_byte_val peek_not_eof)

declare scanDollar_loop.simps [simp del]

definition scanDollarQuotedString :: "scanner \<Rightarrow> sqlSymType \<Rightarrow> scanner \<times> sqlSymType \<times> bool" where
  "scanDollarQuotedString s lval =
     (case scanDollar_loop (spos s) False False (- 1) [] s lval of
        (s', lval', None) \<Rightarrow> (s', lval', False)
      | (s', lval', Some buf) \<Rightarrow>
          if \<not> utf8_valid buf then (s', lex_error lval' errInvalidUTF8, False)
          else (s', lval'\<lparr>sym_str := buf\<rparr>, True))"

end
