(* ===== verification/Scanner.thy ===== *)
theory Scanner
  imports Scanner_Literals
begin

text \<open>
  \<open>scanner.scan\<close> of \<open>parser/scan.go\<close>: one token. The switch on the first character is
  split into the literal-like starts, the operators, and the default branch.
\<close>

subsection \<open>Operators\<close>

text \<open>\<open>s.pos += n; lval.id = t\<close>.\<close>

definition token :: "scanner \<Rightarrow> sqlSymType \<Rightarrow> nat \<Rightarrow> int \<Rightarrow> scanner \<times> sqlSymType" where
  "token s lval n t = (advance s n, lval\<lparr>sym_id := t\<rparr>)"

definition scan_dot :: "lex_env \<Rightarrow> scanner \<Rightarrow> sqlSymType \<Rightarrow> int \<Rightarrow> scanner \<times> sqlSymType" where
  "scan_dot env s lval ch =
     (let t = peek s in
      if t = byte_val CHR ''.'' then token s lval 1 T_DOT_DOT
      else if IsDigit t then scanNumber env s lval ch
      else (s, lval))"

definition scan_exclamation :: "scanner \<Rightarrow> sqlSymType \<Rightarrow> scanner \<times> sqlSymType" where
  "scan_exclamation s lval =
     (if peek s = byte_val CHR ''='' then token s lval 1 T_NOT_EQUALS
      else if peek s = byte_val CHR ''~'' then
        (if peek (advance s 1) = byte_val CHR ''*'' then token s lval 2 T_NOT_REGIMATCH
         else token s lval 1 T_NOT_REGMATCH)
      else (s, lval))"

definition scan_question :: "scanner \<Rightarrow> sqlSymType \<Rightarrow> scanner \<times> sqlSymType" where
  "scan_question s lval =
     (if peek s = byte_val CHR ''?'' then token s lval 1 T_HELPTOKEN
      else if peek s = byte_val CHR ''|'' then token s lval 1 T_JSON_SOME_EXISTS
      else if peek s = byte_val CHR ''&'' then token s lval 1 T_JSON_ALL_EXISTS
      else (s, lval))"

definition scan_less :: "scanner \<Rightarrow> sqlSymType \<Rightarrow> scanner \<times> sqlSymType" where
  "scan_less s lval =
     (if peek s = byte_val CHR ''<'' then
        (if peek (advance s 1) = byte_val CHR ''='' then token s lval 2 T_INET_CONTAINED_BY_OR_EQUALS
         else token s lval 1 T_LSHIFT)
      else if peek s = byte_val CHR ''>'' then token s lval 1 T_NOT_EQUALS
      else if peek s = byte_val CHR ''='' then token s lval 1 T_LESS_EQUALS
      else if peek s = byte_val CHR ''@'' then token s lval 1 T_CONTAINED_BY
      else (s, lval))"

definition scan_greater :: "scanner \<Rightarrow> sqlSymType \<Rightarrow> scanner \<times> sqlSymType" where
  "scan_greater s lval =
     (if peek s = byte_val CHR ''>'' then
        (if peek (advance s 1) = byte_val CHR ''='' then token s lval 2 T_INET_CONTAINS_OR_EQUALS
         else token s lval 1 T_RSHIFT)
      else if peek s = byte_val CHR ''='' then token s lval 1 T_GREATER_EQUALS
      else (s, lval))"

definition scan_colon :: "scanner \<Rightarrow> sqlSymType \<Rightarrow> scanner \<times> sqlSymType" where
  "scan_colon s lval =
     (if peek s = byte_val CHR '':'' then
        (if peekN s 1 = byte_val CHR '':'' then token s lval 2 T_TYPEANNOTATE
         else token s lval 1 T_TYPECAST)
      else (s, lval))"

definition scan_bar :: "scanner \<Rightarrow> sqlSymType \<Rightarrow> scanner \<times> sqlSymType" where
  "scan_bar s lval =
     (if peek s = byte_val CHR ''|'' then
        (if peek (advance s 1) = byte_val CHR ''/'' then token s lval 2 T_CBRT
         else token s lval 1 T_CONCAT)
      else if peek s = byte_val CHR ''/'' then token s lval 1 T_SQRT
      else (s, lval))"

text \<open>The operators with one possible second character: \<open>//\<close>, \<open>~*\<close>, \<open>@>\<close>, \<open>&&\<close>.\<close>

definition scan_pair :: "scanner \<Rightarrow> sqlSymType \<Rightarrow> char \<Rightarrow> int \<Rightarrow> scanner \<times> sqlSymType" where
  "scan_pair s lval c t = (if peek s = byte_val c then token s lval 1 t else (s, lval))"

definition scan_minus :: "scanner \<Rightarrow> sqlSymType \<Rightarrow> scanner \<times> sqlSymType" where
  "scan_minus s lval =
     (if peek s = byte_val CHR ''>'' then
        (if peekN s 1 = byte_val CHR ''>'' then token s lval 2 T_FETCHTEXT
         else token s lval 1 T_FETCHVAL)
      else (s, lval))"

definition scan_hash :: "scanner \<Rightarrow> sqlSymType \<Rightarrow> scanner \<times> sqlSymType" where
  "scan_hash s lval =
     (if peek s = byte_val CHR ''>'' then
        (if peekN s 1 = byte_val CHR ''>'' then token s lval 2 T_FETCHTEXT_PATH
         else token s lval 1 T_FETCHVAL_PATH)
      else if peek s = byte_val CHR ''-'' then token s lval 1 T_REMOVE_PATH
      else (s, lval))"

text \<open>The operator cases of the switch; \<open>None\<close> when the character is not one of them.\<close>

definition scan_operator :: "lex_env \<Rightarrow> scanner \<Rightarrow> sqlSymType \<Rightarrow> int \<Rightarrow> (scanner \<times> sqlSymType) option" where
  "scan_operator env s lval ch =
     (if ch = byte_val CHR ''.'' then Some (scan_dot env s lval ch)
      else if ch = byte_val CHR ''!'' then Some (scan_exclamation s lval)
      else if ch = byte_val CHR ''?'' then Some (scan_question s lval)
      else if ch = byte_val CHR ''<'' then Some (scan_less s lval)
      else if ch = byte_val CHR ''>'' then Some (scan_greater s lval)
      else if ch = byte_val CHR '':'' then Some (scan_colon s lval)
      else if ch = byte_val CHR ''|'' then Some (scan_bar s lval)
      else if ch = byte_val CHR ''/'' then Some (scan_pair s lval CHR ''/'' T_FLOORDIV)
      else if ch = byte_val CHR ''~'' then Some (scan_pair s lval CHR ''*'' T_REGIMATCH)
      else if ch = byte_val CHR ''@'' then Some (scan_pair s lval CHR ''>'' T_CONTAINS)
      else if ch = byte_val CHR ''&'' then Some (scan_pair s lval CHR ''&'' T_AND_AND)
      else if ch = byte_val CHR ''-'' then Some (scan_minus s lval)
      else if ch = byte_val CHR ''#'' then Some (scan_hash s lval)
      else None)"

subsection \<open>Literals and identifiers\<close>

text \<open>\<open>if s.scanString(...) { lval.id = t }\<close>.\<close>

definition string_token ::
  "scanner \<Rightarrow> sqlSymType \<Rightarrow> char \<Rightarrow> bool \<Rightarrow> bool \<Rightarrow> int \<Rightarrow> scanner \<times> sqlSymType" where
  "string_token s lval q allowEscapes requireUTF8 t =
     (case scanString s lval q allowEscapes requireUTF8 of
        (s', lval', True) \<Rightarrow> (s', lval'\<lparr>sym_id := t\<rparr>)
      | (s', lval', False) \<Rightarrow> (s', lval'))"

definition scan_dollar :: "scanner \<Rightarrow> sqlSymType \<Rightarrow> scanner \<times> sqlSymType" where
  "scan_dollar s lval =
     (if IsDigit (peek s) then scanPlaceholder s lval
      else
        (case scanDollarQuotedString s lval of
           (s', lval', True) \<Rightarrow> (s', lval'\<lparr>sym_id := T_SCONST\<rparr>)
         | (s', lval', False) \<Rightarrow> (s', lval')))"

text \<open>The cases \<open>$\<close>, quotes, and the letters that may start a string literal.\<close>

definition scan_literal :: "lex_env \<Rightarrow> scanner \<Rightarrow> sqlSymType \<Rightarrow> int \<Rightarrow> (scanner \<times> sqlSymType) option" where
  "scan_literal env s lval ch =
     (if ch = byte_val CHR ''$'' then Some (scan_dollar s lval)
      else if ch = identQuote then Some (string_token s lval CHR 0x22 False True T_IDENT)
      else if ch = singleQuote then Some (string_token s lval CHR 0x27 False True T_SCONST)
      else if ch = byte_val CHR ''b'' then
        Some (if peek s = singleQuote then string_token (advance s 1) lval CHR 0x27 True False T_BCONST
              else scanIdent env s lval)
      else if ch = byte_val CHR ''r'' \<or> ch = byte_val CHR ''R'' then Some (scanIdent env s lval)
      else if ch = byte_val CHR ''e'' \<or> ch = byte_val CHR ''E'' then
        Some (if peek s = singleQuote then string_token (advance s 1) lval CHR 0x27 True True T_SCONST
              else scanIdent env s lval)
      else if ch = byte_val CHR ''B'' then
        Some (if peek s = singleQuote then scanBitString (advance s 1) lval CHR 0x27
              else scanIdent env s lval)
      else if ch = byte_val CHR ''x'' \<or> ch = byte_val CHR ''X'' then
        Some (if peek s = singleQuote then scanHexString (advance s 1) lval CHR 0x27
              else scanIdent env s lval)
      else None)"

subsection \<open>One token\<close>

text \<open>The switch of \<open>scan\<close> on the character just read.\<close>

definition scan_switch :: "lex_env \<Rightarrow> scanner \<Rightarrow> sqlSymType \<Rightarrow> int \<Rightarrow> scanner \<times> sqlSymType" where
  "scan_switch env s lval ch =
     (case scan_literal env s lval ch of
        Some r \<Rightarrow> r
      | None \<Rightarrow>
          (case scan_operator env s lval ch of
             Some r \<Rightarrow> r
           | None \<Rightarrow>
               if IsDigit ch then scanNumber env s lval ch
               else if IsIdentStart ch then scanIdent env s lval
               else (s, lval)))"

definition scan :: "lex_env \<Rightarrow> scanner \<Rightarrow> sqlSymType \<Rightarrow> scanner \<times> sqlSymType" where
  "scan env s lval =
     (let lval0 = lval\<lparr>sym_id := 0, sym_pos := word_of_nat (spos s), sym_str := ''EOF''\<rparr>;
          (s1, lval1, newline, ok) = skipWhitespace s lval0 True
      in if \<not> ok then (s1, lval1)
         else
           (let (s2, ch) = scanner_next s1 in
            if ch = eof then (s2, lval1\<lparr>sym_pos := word_of_nat (spos s2)\<rparr>)
            else
              scan_switch env s2
                (lval1\<lparr>sym_id := ch, sym_pos := word_of_nat (spos s2 - 1),
                       sym_str := slice (inp s2) (spos s2 - 1) (spos s2)\<rparr>) ch))"

subsection \<open>Evaluation\<close>

text \<open>
  The facts that evaluate the scanner on a concrete text, and an environment for such
  evaluations: the ASCII part of the case tables, no normalisation, every float literal
  representable.
\<close>

lemmas scan_eval = makeScanner_def zero_sym_def lex_error_def peek_def peekN_def advance_def scanner_next_def
  scanComment_block.simps scanComment_line.simps scanComment_def is_blank_def skipWhitespace_loop.simps skipWhitespace_def
  scanIdent_loop.simps experimental_split_def ident_keyword_def scanIdent_def scanNumber_loop.simps hex_digit_value_def
  read_base_def MakeFromLiteral_INT_def scanNumber_def NewPlaceholder_def scanPlaceholder_loop.simps scanPlaceholder_def
  scanHexString_loop.simps scanHexString_def format_c_def scanBitString_loop.simps scanBitString_def simple_escape_def
  UnquoteChar_escape_def UnquoteChar_def is_escape_char_def escape_text_def escape_bytes_def scanString_loop.simps scanString_def
  scanDollar_loop.simps scanDollarQuotedString_def token_def scan_dot_def scan_exclamation_def scan_question_def scan_less_def
  scan_greater_def scan_colon_def scan_bar_def scan_pair_def scan_minus_def scan_hash_def scan_operator_def string_token_def
  scan_dollar_def scan_literal_def scan_switch_def scan_def slice_def char_class_defs lower_char_def ascii_lower_def
  AllowedExperimental_def read_nat_def is_digit_char_def utf8_valid.simps decode_defs EncodeRune_def in_range_def Let_def valid_rune_def int32_def

definition sample_env :: lex_env where
  "sample_env =
     \<lparr>unicode_ToLower = ascii_lower, nfc = (\<lambda>x. x), float_literal_ok = (\<lambda>_. True)\<rparr>"

end
