(* ===== verification/Scanner_Props.thy ===== *)
theory Scanner_Props
  imports Scanner
begin

text \<open>
  What every call of \<open>scan\<close> guarantees: the input is unchanged, the position moves
  forward and stays within the input, and a token other than the end marker consumes at
  least one byte. The routines of \<open>Scanner_Literals\<close> are treated one by one.
\<close>

subsection \<open>Every routine moves forward\<close>

lemma scanIdent_loop_moves: "scanIdent_loop s a l = (s', a', l') \<Longrightarrow> moves s s'"
proof (induction s a l rule: scanIdent_loop.induct)
  case (1 s a l)
  show ?case
  proof (cases "IsIdentMiddle (peek s)")
    case True
    then have "moves s (advance s 1)"
      by (intro moves_advance_1) auto
    then show ?thesis
      using "1.IH" [OF refl refl refl] True "1.prems"
      by (auto simp: scanIdent_loop.simps [of s a l] Let_def intro: moves_trans)
  next
    case False
    then show ?thesis
      using "1.prems" by (auto simp: scanIdent_loop.simps [of s a l] Let_def)
  qed
qed

lemma scanNumber_loop_moves: "scanNumber_loop start h d e s = (s', r) \<Longrightarrow> moves s s'"
proof (induction start h d e s rule: scanNumber_loop.induct)
  case (1 start h d e s)
  let ?ch = "peek s"
  note pr = "1.prems" [unfolded scanNumber_loop.simps [of start h d e s]]
  have m1: "?ch \<noteq> eof \<Longrightarrow> moves s (advance s 1)" by (rule moves_advance_1)
  have m2: "?ch \<noteq> eof \<Longrightarrow> peek (advance s 1) \<noteq> eof \<Longrightarrow> moves s (advance s 2)" by (rule moves_advance_2)
  consider (digit) "(h \<and> IsHexDigit ?ch) \<or> IsDigit ?ch"
    | (x) "\<not> ((h \<and> IsHexDigit ?ch) \<or> IsDigit ?ch)" "?ch = 120 \<or> ?ch = 88"
    | (dot) "\<not> ((h \<and> IsHexDigit ?ch) \<or> IsDigit ?ch)" "\<not> h" "?ch = 46"
    | (exp) "\<not> ((h \<and> IsHexDigit ?ch) \<or> IsDigit ?ch)" "\<not> h" "?ch = 101 \<or> ?ch = 69"
    | (stop) "\<not> ((h \<and> IsHexDigit ?ch) \<or> IsDigit ?ch)" "?ch \<noteq> 120" "?ch \<noteq> 88"
        "h \<or> (?ch \<noteq> 46 \<and> ?ch \<noteq> 101 \<and> ?ch \<noteq> 69)"
    by blast
  then show ?case
  proof cases
    case digit
    then have "moves s (advance s 1)" by (intro m1) auto
    then show ?thesis
      using "1.IH"(1) [OF refl digit] pr digit
      by (auto simp: Let_def intro: moves_trans)
  next
    case x
    then have m: "moves s (advance s 1)" by (intro m1) auto
    show ?thesis
    proof (cases "h \<or> inp s ! start \<noteq> CHR ''0'' \<or> spos s \<noteq> start + 1")
      case True
      then show ?thesis using pr x by (auto simp: Let_def)
    next
      case False
      then show ?thesis
        using "1.IH"(2) [OF refl x(1) _ False] pr x m
        by (auto simp: Let_def intro: moves_trans)
    qed
  next
    case dot
    then have m: "moves s (advance s 1)" by (intro m1) auto
    show ?thesis
      using "1.IH"(3) [OF refl dot(1) _ dot(2)] pr dot m
      by (auto simp: Let_def intro: moves_trans split: if_splits)
  next
    case exp
    then have m: "moves s (advance s 1)" by (intro m1) auto
    let ?s2 = "if peek (advance s 1) = 45 \<or> peek (advance s 1) = 43 then advance s 2 else advance s 1"
    have ms: "moves s ?s2" using m exp m2 by auto
    show ?thesis
      using "1.IH"(4) [OF refl exp(1) _ exp(2)] pr exp ms
      by (auto simp: Let_def intro: moves_trans split: if_splits)
  next
    case stop
    then show ?thesis
      using pr by (auto simp: Let_def split: if_splits)
  qed
qed

lemma scanPlaceholder_loop_moves: "moves s (scanPlaceholder_loop s)"
proof (induction s rule: scanPlaceholder_loop.induct)
  case (1 s)
  show ?case
  proof (cases "IsDigit (peek s)")
    case True
    then have "moves s (advance s 1)" by (intro moves_advance_1) auto
    then show ?thesis
      using "1.IH" [OF True] True
      by (auto simp: scanPlaceholder_loop.simps [of s] intro: moves_trans)
  qed (simp add: scanPlaceholder_loop.simps [of s])
qed

lemma scanHexString_loop_moves: "scanHexString_loop q s lval buf c p = (s', r) \<Longrightarrow> moves s s'"
proof (induction q s lval buf c p rule: scanHexString_loop.induct)
  case (1 q s lval buf c p)
  obtain s1 b where n: "scanner_next s = (s1, b)" by (cases "scanner_next s")
  obtain s2 lval2 nl ok where w: "skipWhitespace s1 lval False = (s2, lval2, nl, ok)"
    by (cases "skipWhitespace s1 lval False") auto
  note IH = "1.IH" [OF n [symmetric] refl]
  note pr = "1.prems" [unfolded scanHexString_loop.simps [of q s lval buf c p] n]
  have m1: "moves s s1" using n by (rule scanner_next_moves)
  have m2: "moves s s2" using m1 skipWhitespace_moves [OF w] by (rule moves_trans)
  have m3: "moves s (advance s2 1)" if "peek s2 = byte_val q"
    using m2 moves_advance_1 [of s2] that by (auto intro: moves_trans)
  show ?case
  proof (cases "b = byte_val q")
    case True
    then show ?thesis
      using pr w m2 m3 IH(1) [OF True w [symmetric] refl refl]
      by (auto simp: Let_def intro: moves_trans split: if_splits)
  next
    case False
    then show ?thesis
      using pr m1 IH(2,3) [OF False] 
      by (auto simp: Let_def intro: moves_trans split: if_splits option.splits)
  qed
qed

lemma scanBitString_loop_moves: "scanBitString_loop q s lval buf = (s', r) \<Longrightarrow> moves s s'"
proof (induction q s lval buf rule: scanBitString_loop.induct)
  case (1 q s lval buf)
  obtain s1 b where n: "scanner_next s = (s1, b)" by (cases "scanner_next s")
  obtain s2 lval2 nl ok where w: "skipWhitespace s1 lval False = (s2, lval2, nl, ok)"
    by (cases "skipWhitespace s1 lval False") auto
  note IH = "1.IH" [OF n [symmetric] refl]
  note pr = "1.prems" [unfolded scanBitString_loop.simps [of q s lval buf] n]
  have m1: "moves s s1" using n by (rule scanner_next_moves)
  have m2: "moves s s2" using m1 skipWhitespace_moves [OF w] by (rule moves_trans)
  have m3: "moves s (advance s2 1)" if "peek s2 = byte_val q"
    using m2 moves_advance_1 [of s2] that by (auto intro: moves_trans)
  show ?case
  proof (cases "b = byte_val q")
    case True
    then show ?thesis
      using pr w m2 m3 IH(1) [OF True w [symmetric] refl refl]
      by (auto simp: Let_def intro: moves_trans split: if_splits)
  next
    case False
    then show ?thesis
      using pr m1 IH(2) [OF False] 
      by (auto simp: Let_def intro: moves_trans split: if_splits option.splits)
  qed
qed

lemma moves_escape:
  assumes "spos s1 = Suc p" "is_escape_char (peek s1)"
  shows "moves s1 (advance s1 (length (escape_text s1 (peek s1)) - n - 1))"
proof -
  have "spos s1 < length (inp s1)"
    using assms(2) by (intro peek_not_eof) (auto simp: is_escape_char_def)
  then show ?thesis
    by (intro moves_advance) (auto simp: escape_text_def slice_def assms(1))
qed

lemma scanString_loop_moves: "scanString_loop q e s lval buf start = (s', r) \<Longrightarrow> moves s s'"
proof (induction q e s lval buf start rule: scanString_loop.induct)
  case (1 q e s lval buf start)
  obtain s1 c where n: "scanner_next s = (s1, c)" by (cases "scanner_next s")
  obtain s2 lval2 nl ok where w: "skipWhitespace s1 lval False = (s2, lval2, nl, ok)"
    by (cases "skipWhitespace s1 lval False") auto
  note IH = "1.IH" [OF n [symmetric] refl]
  note pr = "1.prems" [unfolded scanString_loop.simps [of q e s lval buf start] n]
  have m1: "moves s s1" using n by (rule scanner_next_moves)
  have m2: "moves s s2" using m1 skipWhitespace_moves [OF w] by (rule moves_trans)
  have m3: "moves s (advance s2 1)" if "peek s2 = byte_val q"
    using m2 moves_advance_1 [of s2] that by (auto intro: moves_trans)
  have m4: "moves s (advance s1 1)" if "peek s1 = byte_val q"
    using m1 moves_advance_1 [of s1] that by (auto intro: moves_trans)
  have m5: "moves s (advance s1 (length (escape_text s1 (peek s1)) - k - 1))"
    if "c \<noteq> eof" "is_escape_char (peek s1)" for k
    using m1 moves_escape [OF _ that(2), of "spos s" k] scanner_next_step [OF n that(1)]
    by (auto intro: moves_trans)
  consider (quote) "c = byte_val q" | (esc) "c \<noteq> byte_val q" "c = backslash" "e"
    | (other) "c \<noteq> byte_val q" "c \<noteq> backslash \<or> \<not> e" by blast
  then show ?case
  proof cases
    case quote
    then show ?thesis
      using pr w m2 m3 m4 IH(1) [OF quote refl] IH(2) [OF quote refl _ w [symmetric] refl refl]
      by (auto simp: Let_def intro: moves_trans split: if_splits)
  next
    case esc
    then show ?thesis
      using pr m1 m4 m5 IH(3) [OF esc refl refl] IH(4) [OF esc refl refl _ _ refl]
        IH(5) [OF esc refl refl]
      by (auto simp: Let_def intro: moves_trans split: if_splits option.splits)
        (blast intro: moves_trans)
  next
    case other
    then show ?thesis
      using pr m1 IH(6) [OF other(1)] IH(7) [OF other(1)]
      by (auto simp: Let_def intro: moves_trans split: if_splits)
  qed
qed

lemma scanDollar_loop_moves:
  "scanDollar_loop (spos z) f p i t s lval = (s', r) \<Longrightarrow> moves z s \<Longrightarrow> moves z s'"
proof (induction "spos z" f p i t s lval rule: scanDollar_loop.induct)
  case (1 f p i t s lval)
  note IH = "1.hyps" [OF refl]
  note pr = "1.prems" (1) [unfolded scanDollar_loop.simps [of "spos z" f p i t s lval]]
  have m: "moves z (advance s 1)" if "peek s \<noteq> eof"
    using "1.prems" (2) moves_advance_1 [OF that] by (rule moves_trans)
  have z: "moves z (s\<lparr>spos := spos z\<rparr>)" using "1.prems" (2) by (simp add: moves_def)
  consider (dollar) "peek s = byte_val CHR ''$''" | (eof) "peek s = eof"
    | (other) "peek s \<noteq> byte_val CHR ''$''" "peek s \<noteq> eof" by blast
  then show ?case
  proof cases
    case dollar
    then show ?thesis
      using pr m IH(1-3) [OF dollar refl] by (auto simp: Let_def split: if_splits)
  next
    case eof
    then show ?thesis using pr z "1.prems" (2) by (auto simp: Let_def split: if_splits)
  next
    case other
    then show ?thesis
      using pr m "1.prems" (2) IH(4-6) [OF other _ refl] by (auto simp: Let_def split: if_splits)
  qed
qed

subsection \<open>Errors of the scanning loops\<close>

text \<open>
  The scanning loops touch the semantic value only to report an error, and return a
  result exactly when they did not.
\<close>

definition error_of :: "sqlSymType \<Rightarrow> sqlSymType \<Rightarrow> 'a option \<Rightarrow> bool" where
  "error_of lval lval' r \<longleftrightarrow>
     (case r of Some _ \<Rightarrow> lval' = lval | None \<Rightarrow> lval' = lex_error lval (sym_str lval'))"

lemma error_of_simps [simp]:
  "error_of lval lval' (Some x) \<longleftrightarrow> lval' = lval"
  "error_of lval (lex_error lval e) None"
  by (simp_all add: error_of_def lex_error_def)

lemma skipWhitespace_no_comments:
  "skipWhitespace s lval False = (s', lval', newline, ok) \<Longrightarrow> lval' = lval \<and> ok"
proof -
  have "skipWhitespace_loop ac nl s lval = (s', lval', newline, ok) \<Longrightarrow> \<not> ac \<Longrightarrow> lval' = lval \<and> ok" for ac nl
  proof (induction ac nl s lval rule: skipWhitespace_loop.induct)
    case (1 ac nl s lval)
    note IH = "1.IH"(1,2) [OF refl] and pr = "1.prems"(1) [unfolded skipWhitespace_loop.simps [of ac nl s lval]]
    show ?case using IH pr "1.prems"(2) by (auto simp: Let_def split: if_splits)
  qed
  from this [of False False]
  show "skipWhitespace s lval False = (s', lval', newline, ok) \<Longrightarrow> lval' = lval \<and> ok"
    by (simp add: skipWhitespace_def)
qed

lemma scanHexString_loop_error:
  "scanHexString_loop q s lval buf c p = (s', lval', r) \<Longrightarrow> error_of lval lval' r"
proof (induction q s lval buf c p rule: scanHexString_loop.induct)
  case (1 q s lval buf c p)
  obtain s1 b where n: "scanner_next s = (s1, b)" by (cases "scanner_next s")
  obtain s2 lval2 nl ok where w: "skipWhitespace s1 lval False = (s2, lval2, nl, ok)"
    by (cases "skipWhitespace s1 lval False") auto
  note IH = "1.IH" [OF n [symmetric] refl]
  note pr = "1.prems" [unfolded scanHexString_loop.simps [of q s lval buf c p] n]
  show ?case
  proof (cases "b = byte_val q")
    case True
    then show ?thesis
      using pr w skipWhitespace_no_comments [OF w] IH(1) [OF True w [symmetric] refl refl]
      by (auto simp: Let_def split: if_splits)
  next
    case False
    then show ?thesis
      using pr IH(2,3) [OF False] by (auto simp: Let_def split: if_splits option.splits)
  qed
qed

lemma scanBitString_loop_error:
  "scanBitString_loop q s lval buf = (s', lval', r) \<Longrightarrow> error_of lval lval' r"
proof (induction q s lval buf rule: scanBitString_loop.induct)
  case (1 q s lval buf)
  obtain s1 b where n: "scanner_next s = (s1, b)" by (cases "scanner_next s")
  obtain s2 lval2 nl ok where w: "skipWhitespace s1 lval False = (s2, lval2, nl, ok)"
    by (cases "skipWhitespace s1 lval False") auto
  note IH = "1.IH" [OF n [symmetric] refl]
  note pr = "1.prems" [unfolded scanBitString_loop.simps [of q s lval buf] n]
  show ?case
  proof (cases "b = byte_val q")
    case True
    then show ?thesis
      using pr w skipWhitespace_no_comments [OF w] IH(1) [OF True w [symmetric] refl refl]
      by (auto simp: Let_def split: if_splits)
  next
    case False
    then show ?thesis
      using pr IH(2) [OF False] by (auto simp: Let_def split: if_splits)
  qed
qed

lemma scanString_loop_error:
  "scanString_loop q e s lval buf start = (s', lval', r) \<Longrightarrow> error_of lval lval' r"
proof (induction q e s lval buf start rule: scanString_loop.induct)
  case (1 q e s lval buf start)
  obtain s1 c where n: "scanner_next s = (s1, c)" by (cases "scanner_next s")
  obtain s2 lval2 nl ok where w: "skipWhitespace s1 lval False = (s2, lval2, nl, ok)"
    by (cases "skipWhitespace s1 lval False") auto
  note IH = "1.IH" [OF n [symmetric] refl]
  note pr = "1.prems" [unfolded scanString_loop.simps [of q e s lval buf start] n]
  consider (quote) "c = byte_val q" | (esc) "c \<noteq> byte_val q" "c = backslash" "e"
    | (other) "c \<noteq> byte_val q" "c \<noteq> backslash \<or> \<not> e" by blast
  then show ?case
  proof cases
    case quote
    then show ?thesis
      using pr w skipWhitespace_no_comments [OF w] IH(1) [OF quote refl]
        IH(2) [OF quote refl _ w [symmetric] refl refl]
      by (auto simp: Let_def split: if_splits)
  next
    case esc
    then show ?thesis
      using pr IH(3) [OF esc refl refl] IH(4) [OF esc refl refl _ _ refl] IH(5) [OF esc refl refl]
      by (auto simp: Let_def split: if_splits option.splits)
  next
    case other
    then show ?thesis
      using pr IH(6) [OF other(1)] IH(7) [OF other(1)]
      by (auto simp: Let_def split: if_splits)
  qed
qed

lemma scanDollar_loop_error:
  "scanDollar_loop start f p i t s lval = (s', lval', r) \<Longrightarrow>
   error_of lval lval' r \<or> (lval' = lval \<and> r = None)"
proof (induction start f p i t s lval rule: scanDollar_loop.induct)
  case (1 start f p i t s lval)
  note pr = "1.prems" [unfolded scanDollar_loop.simps [of start f p i t s lval]]
  show ?case
  proof (cases "peek s = byte_val CHR ''$''")
    case True
    then show ?thesis
      using pr "1.IH"(1-3) [OF refl True refl] by (auto simp: Let_def split: if_splits)
  next
    case False
    then show ?thesis
      using pr "1.IH"(4-6) [OF refl False _ _ refl] by (auto simp: Let_def split: if_splits)
  qed
qed

subsection \<open>One token\<close>

text \<open>The state in which the switch runs: \<open>ch\<close> is the byte before the position.\<close>

definition just_read :: "scanner \<Rightarrow> int \<Rightarrow> bool" where
  "just_read s ch \<longleftrightarrow> 0 < spos s \<and> spos s \<le> length (inp s) \<and> ch = byte_val (inp s ! (spos s - 1))"

lemma scanner_next_just_read:
  "scanner_next s = (s1, ch) \<Longrightarrow> ch \<noteq> eof \<Longrightarrow> just_read s1 ch"
  by (auto simp: just_read_def scanner_next_def peek_def advance_def Let_def split: if_splits)

lemma scanIdent_moves:
  assumes "just_read s ch" "IsIdentMiddle ch" "scanIdent env s lval = (s', lval')"
  shows "moves s s'"
proof -
  let ?s0 = "s\<lparr>spos := spos s - 1\<rparr>"
  have pk: "peek ?s0 = ch" and adv: "advance ?s0 1 = s"
    using assms(1) by (auto simp: just_read_def peek_def advance_def)
  obtain a l where lp: "scanIdent_loop ?s0 True True = (s', a, l)"
    using assms(3) by (auto simp: scanIdent_def Let_def split: prod.splits)
  show ?thesis
    using lp [unfolded scanIdent_loop.simps [of ?s0] adv pk Let_def] assms(2)
    by (auto intro: scanIdent_loop_moves)
qed

lemma scanNumber_moves: "scanNumber env s lval ch = (s', lval') \<Longrightarrow> moves s s'"
  by (auto simp: scanNumber_def Let_def dest!: scanNumber_loop_moves
      split: prod.splits sum.splits if_splits option.splits)

lemma scanPlaceholder_moves: "scanPlaceholder s lval = (s', lval') \<Longrightarrow> moves s s'"
  using scanPlaceholder_loop_moves [of s]
  by (auto simp: scanPlaceholder_def Let_def split: sum.splits)

lemma scanHexString_moves: "scanHexString s lval q = (s', lval') \<Longrightarrow> moves s s'"
  by (auto simp: scanHexString_def dest!: scanHexString_loop_moves split: prod.splits option.splits if_splits)

lemma scanBitString_moves: "scanBitString s lval q = (s', lval') \<Longrightarrow> moves s s'"
  by (auto simp: scanBitString_def dest!: scanBitString_loop_moves split: prod.splits option.splits if_splits)

lemma scanString_moves: "scanString s lval q e u = (s', lval', ok) \<Longrightarrow> moves s s'"
  by (auto simp: scanString_def dest!: scanString_loop_moves split: prod.splits option.splits if_splits)

lemma string_token_moves: "string_token s lval q e u t = (s', lval') \<Longrightarrow> moves s s'"
  by (auto simp: string_token_def dest!: scanString_moves split: prod.splits bool.splits)

lemma scanDollarQuotedString_moves: "scanDollarQuotedString s lval = (s', lval', ok) \<Longrightarrow> moves s s'"
  by (auto simp: scanDollarQuotedString_def dest!: scanDollar_loop_moves split: prod.splits option.splits if_splits)

lemma scan_dollar_moves: "scan_dollar s lval = (s', lval') \<Longrightarrow> moves s s'"
  by (auto simp: scan_dollar_def dest!: scanDollarQuotedString_moves scanPlaceholder_moves
      split: prod.splits bool.splits if_splits)

text \<open>The operators peek before they advance.\<close>

lemma token_1_moves: "token s lval 1 t = (s', lval') \<Longrightarrow> peek s = numeral n \<Longrightarrow> moves s s'"
  by (auto simp: token_def intro: moves_advance_numeral [unfolded One_nat_def])

lemma peekN_1: "peekN s 1 = peek (advance s 1)"
  by (simp add: peekN_def peek_def advance_def)

lemma token_2_moves:
  "token s lval 2 t = (s', lval') \<Longrightarrow> peek s = numeral n \<Longrightarrow> peek (advance s 1) = numeral m \<Longrightarrow> moves s s'"
  using moves_advance_2 [of s] by (auto simp: token_def)

lemmas token_moves = token_1_moves [unfolded One_nat_def] token_2_moves [unfolded One_nat_def]

lemma scan_operator_moves:
  assumes "scan_operator env s lval ch = Some (s', lval')"
  shows "moves s s'"
  using assms
  unfolding scan_operator_def scan_dot_def scan_exclamation_def scan_question_def scan_less_def
    scan_greater_def scan_colon_def scan_bar_def scan_pair_def scan_minus_def scan_hash_def peekN_1
  by (auto simp: Let_def dest: token_moves scanNumber_moves split: if_splits)

lemma scan_literal_moves:
  assumes "just_read s ch" "scan_literal env s lval ch = Some (s', lval')"
  shows "moves s s'"
proof -
  have q: "moves s (advance s (Suc 0))" if "peek s = numeral k" for k
    using moves_advance_numeral [OF that] by simp
  have id: "IsIdentMiddle ch" if "ch \<in> byte_val ` set ''brReEBxX''"
    using that by (auto simp: char_class_defs)
  show ?thesis
    using assms id unfolding scan_literal_def
    by (auto dest!: scan_dollar_moves string_token_moves scanBitString_moves scanHexString_moves
        intro: moves_trans [OF q] scanIdent_moves split: if_splits)
qed

lemma scan_switch_moves:
  assumes "just_read s ch" "scan_switch env s lval ch = (s', lval')"
  shows "moves s s'"
  using assms scanIdent_moves [OF assms(1)] scan_literal_moves [OF assms(1)]
  by (auto simp: scan_switch_def dest: scan_operator_moves scanNumber_moves split: option.splits if_splits
      simp: char_class_defs)


text \<open>The id of the token is a named token, all above 255, or the byte just read.\<close>

lemma ident_keyword_named: "255 < snd (ident_keyword str)"
  by (simp add: ident_keyword_def GetKeywordID_named Let_def split: prod.split)

lemma scanIdent_id: "scanIdent env s lval = (s', lval') \<Longrightarrow> 255 < sym_id lval'"
  using ident_keyword_named
  by (auto simp: scanIdent_def Let_def split: prod.splits) (metis snd_conv)+

lemma scanNumber_id: "scanNumber env s lval ch = (s', lval') \<Longrightarrow> 255 < sym_id lval'"
  by (auto simp: scanNumber_def lex_error_def Let_def split: prod.splits sum.splits if_splits option.splits)

lemma scanPlaceholder_id: "scanPlaceholder s lval = (s', lval') \<Longrightarrow> 255 < sym_id lval'"
  by (auto simp: scanPlaceholder_def lex_error_def Let_def split: sum.splits)

lemma error_of_None_id: "error_of lval lval' None \<Longrightarrow> sym_id lval' = T_ERROR"
  by (cases lval') (simp add: error_of_def lex_error_def)

lemma scanHexString_id: "scanHexString s lval q = (s', lval') \<Longrightarrow> 255 < sym_id lval'"
  by (auto simp: scanHexString_def lex_error_def dest!: scanHexString_loop_error error_of_None_id
      split: prod.splits option.splits if_splits)

lemma scanBitString_id: "scanBitString s lval q = (s', lval') \<Longrightarrow> 255 < sym_id lval'"
  by (auto simp: scanBitString_def dest!: scanBitString_loop_error error_of_None_id
      split: prod.splits option.splits if_splits)

lemma string_token_id: "string_token s lval q e u t = (s', lval') \<Longrightarrow> 255 < t \<Longrightarrow> 255 < sym_id lval'"
  by (auto simp: string_token_def scanString_def lex_error_def dest!: scanString_loop_error error_of_None_id
      split: prod.splits option.splits if_splits bool.splits)

lemma scan_dollar_id: "scan_dollar s lval = (s', lval') \<Longrightarrow> sym_id lval' = sym_id lval \<or> 255 < sym_id lval'"
  by (auto simp: scan_dollar_def scanDollarQuotedString_def lex_error_def
      dest!: scanDollar_loop_error error_of_None_id scanPlaceholder_id
      split: prod.splits option.splits if_splits bool.splits)

lemma scan_operator_id:
  assumes "scan_operator env s lval ch = Some (s', lval')"
  shows "sym_id lval' = sym_id lval \<or> 255 < sym_id lval'"
  using assms
  unfolding scan_operator_def scan_dot_def scan_exclamation_def scan_question_def scan_less_def
    scan_greater_def scan_colon_def scan_bar_def scan_pair_def scan_minus_def scan_hash_def
  by (auto simp: Let_def token_def dest: scanNumber_id split: if_splits)

lemma scan_literal_id:
  assumes "scan_literal env s lval ch = Some (s', lval')"
  shows "sym_id lval' = sym_id lval \<or> 255 < sym_id lval'"
  using assms unfolding scan_literal_def
  by (auto dest: scan_dollar_id string_token_id scanBitString_id scanHexString_id scanIdent_id
      split: if_splits)

lemma scan_switch_id:
  assumes "scan_switch env s lval ch = (s', lval')"
  shows "sym_id lval' = sym_id lval \<or> 255 < sym_id lval'"
  using assms
  by (auto simp: scan_switch_def
      dest: scan_literal_id scan_operator_id scanNumber_id scanIdent_id split: option.splits if_splits)

lemma scanComment_result:
  assumes "scanComment s lval = (s', lval', present, ok)"
  shows "(ok \<longrightarrow> lval' = lval) \<and>
         (\<not> ok \<longrightarrow> lval' = lval\<lparr>sym_id := T_ERROR, sym_pos := word_of_nat (spos s),
                                      sym_str := ''unterminated comment''\<rparr>)"
  using assms by (auto simp: scanComment_def Let_def split: if_splits prod.splits bool.splits)

lemma skipWhitespace_result:
  assumes "skipWhitespace s lval ac = (s', lval', newline, ok)"
  shows "(ok \<longrightarrow> lval' = lval) \<and>
    (\<not> ok \<longrightarrow> sym_id lval' = T_ERROR \<and>
       (\<exists>p. sym_pos lval' = word_of_nat p \<and> spos s \<le> p \<and> p < spos s' \<and> p < length (inp s)))"
proof -
  have "skipWhitespace_loop ac nl s lval = (s', lval', newline, ok) \<Longrightarrow>
    (ok \<longrightarrow> lval' = lval) \<and>
    (\<not> ok \<longrightarrow> sym_id lval' = T_ERROR \<and>
       (\<exists>p. sym_pos lval' = word_of_nat p \<and> spos s \<le> p \<and> p < spos s' \<and> p < length (inp s)))" for nl
  proof (induction ac nl s lval rule: skipWhitespace_loop.induct)
    case (1 ac nl s lval)
    obtain s1 lval1 p c where sc: "scanComment s lval = (s1, lval1, p, c)"
      by (cases "scanComment s lval") auto
    note pr = "1.prems" [unfolded skipWhitespace_loop.simps [of ac nl s lval] sc]
    note cm = scanComment_result [OF sc] scanComment_moves [OF sc]
    show ?case
    proof (cases "peek s = newline_ch \<or> is_blank (peek s)")
      case True
      then show ?thesis
        using pr "1.IH"(1,2) [OF refl] by (auto simp: Let_def Suc_le_eq split: if_splits intro: less_imp_le)
    next
      case False
      consider (none) "\<not> ac \<or> (\<not> p \<and> c)" | (bad) "ac" "\<not> c" | (comment) "ac" "p" "c" by blast
      then show ?thesis
      proof cases
        case comment
        then show ?thesis
          using False pr "1.IH"(3) [OF refl _ _ _ sc [symmetric] refl refl] cm
          by (fastforce simp: Let_def moves_def)
      qed (use False pr cm in \<open>auto simp: Let_def split: if_splits\<close>)
    qed
  qed
  then show ?thesis using assms by (simp add: skipWhitespace_def)
qed

text \<open>No routine of the switch changes the position of the token.\<close>

lemma error_of_pos: "error_of lval lval' r \<Longrightarrow> sym_pos lval' = sym_pos lval"
  by (cases lval'; cases lval) (auto simp: error_of_def lex_error_def split: option.splits)

lemma scanNumber_pos: "scanNumber env s lval ch = (s', lval') \<Longrightarrow> sym_pos lval' = sym_pos lval"
  by (auto simp: scanNumber_def lex_error_def Let_def split: prod.splits sum.splits if_splits option.splits)

lemma scanIdent_pos: "scanIdent env s lval = (s', lval') \<Longrightarrow> sym_pos lval' = sym_pos lval"
  by (auto simp: scanIdent_def Let_def split: prod.splits)

lemma scanPlaceholder_pos: "scanPlaceholder s lval = (s', lval') \<Longrightarrow> sym_pos lval' = sym_pos lval"
  by (auto simp: scanPlaceholder_def lex_error_def Let_def split: sum.splits)

lemma scanHexString_pos: "scanHexString s lval q = (s', lval') \<Longrightarrow> sym_pos lval' = sym_pos lval"
  by (auto simp: scanHexString_def lex_error_def dest!: scanHexString_loop_error error_of_pos
      split: prod.splits option.splits if_splits)

lemma scanBitString_pos: "scanBitString s lval q = (s', lval') \<Longrightarrow> sym_pos lval' = sym_pos lval"
  by (auto simp: scanBitString_def dest!: scanBitString_loop_error error_of_pos
      split: prod.splits option.splits if_splits)

lemma string_token_pos: "string_token s lval q e u t = (s', lval') \<Longrightarrow> sym_pos lval' = sym_pos lval"
  by (auto simp: string_token_def scanString_def lex_error_def dest!: scanString_loop_error error_of_pos
      split: prod.splits option.splits if_splits bool.splits)

lemma scan_dollar_pos: "scan_dollar s lval = (s', lval') \<Longrightarrow> sym_pos lval' = sym_pos lval"
  by (auto simp: scan_dollar_def scanDollarQuotedString_def lex_error_def
      dest!: scanDollar_loop_error error_of_pos scanPlaceholder_pos
      split: prod.splits option.splits if_splits bool.splits)

lemma scan_operator_pos:
  assumes "scan_operator env s lval ch = Some (s', lval')"
  shows "sym_pos lval' = sym_pos lval"
  using assms
  unfolding scan_operator_def scan_dot_def scan_exclamation_def scan_question_def scan_less_def
    scan_greater_def scan_colon_def scan_bar_def scan_pair_def scan_minus_def scan_hash_def
  by (auto simp: Let_def token_def dest: scanNumber_pos split: if_splits)

lemma scan_literal_pos:
  assumes "scan_literal env s lval ch = Some (s', lval')"
  shows "sym_pos lval' = sym_pos lval"
  using assms unfolding scan_literal_def
  by (auto dest: scan_dollar_pos string_token_pos scanBitString_pos scanHexString_pos scanIdent_pos
      split: if_splits)

lemma scan_switch_pos: "scan_switch env s lval ch = (s', lval') \<Longrightarrow> sym_pos lval' = sym_pos lval"
  by (auto simp: scan_switch_def
      dest: scan_literal_pos scan_operator_pos scanNumber_pos scanIdent_pos split: option.splits if_splits)

subsection \<open>The three outcomes of a call\<close>

lemma scan_cases:
  assumes "scan env s lval = (s', lval')"
  obtains
    (comment) p where "sym_id lval' = T_ERROR" "sym_pos lval' = word_of_nat p" "spos s \<le> p" "p < spos s'"
      "p < length (inp s)"
  | (eof) "sym_id lval' = 0" "length (inp s) \<le> spos s'" "sym_pos lval' = word_of_nat (spos s')"
  | (token) s2 l ch where "just_read s2 ch" "inp s2 = inp s" "spos s < spos s2" "sym_id l = ch"
      "sym_pos l = word_of_nat (spos s2 - 1)" "sym_str l = slice (inp s) (spos s2 - 1) (spos s2)"
      "scan_switch env s2 l ch = (s', lval')"
proof -
  let ?l = "lval\<lparr>sym_id := 0, sym_pos := word_of_nat (spos s), sym_str := ''EOF''\<rparr>"
  obtain s1 l1 newline ok where w: "skipWhitespace s ?l True = (s1, l1, newline, ok)"
    by (metis prod_cases4)
  obtain s2 ch where n: "scanner_next s1 = (s2, ch)" by (cases "scanner_next s1")
  note r = assms [unfolded scan_def Let_def w split n]
  note ws = skipWhitespace_result [OF w] skipWhitespace_moves [OF w]
  consider (bad) "\<not> ok" | (fin) "ok" "ch = eof" | (tok) "ok" "ch \<noteq> eof" by blast
  then show thesis
  proof cases
    case bad
    then show thesis using comment r ws by auto
  next
    case fin
    then have "inp s1 = inp s" "length (inp s1) \<le> spos s1" "s2 = s1"
      using n ws by (auto simp: scanner_next_def Let_def peek_eof_iff moves_def split: if_splits)
    then show thesis using eof r fin ws(1) by auto
  next
    case tok
    have j: "just_read s2 ch" "s2 = advance s1 1"
      using scanner_next_just_read [OF n tok(2)] scanner_next_step [OF n tok(2)] by simp_all
    then have "inp s2 = inp s" "spos s < spos s2" using ws(2) by (auto simp: moves_def)
    then show thesis
      using r tok j ws(1)
      by (intro token [of s2 ch "l1\<lparr>sym_id := ch, sym_pos := word_of_nat (spos s2 - 1),
            sym_str := slice (inp s2) (spos s2 - 1) (spos s2)\<rparr>"]) (simp_all del: One_nat_def)
  qed
qed

lemma scan_moves:
  assumes "scan env s lval = (s', lval')"
  shows "moves s s'"
proof -
  obtain s1 lval1 newline ok where
    w: "skipWhitespace s (lval\<lparr>sym_id := 0, sym_pos := word_of_nat (spos s), sym_str := ''EOF''\<rparr>) True
        = (s1, lval1, newline, ok)"
    by (metis prod_cases4)
  obtain s2 ch where n: "scanner_next s1 = (s2, ch)" by (cases "scanner_next s1")
  note m = skipWhitespace_moves [OF w] scanner_next_moves [OF n]
  show ?thesis
    using assms m moves_trans [OF m] scan_switch_moves [OF scanner_next_just_read [OF n]]
    by (auto simp: scan_def w n Let_def split: if_splits intro: moves_trans)
qed

text \<open>A token other than the end marker consumes input; its position is in what it consumed.\<close>

lemma scan_consumes:
  assumes "scan env s lval = (s', lval')" "sym_id lval' \<noteq> 0"
  shows "spos s < spos s'" and "spos s < length (inp s)"
    and "\<exists>p. sym_pos lval' = word_of_nat p \<and> spos s \<le> p \<and> p < spos s' \<and> p < length (inp s)"
proof -
  have "\<exists>p. sym_pos lval' = word_of_nat p \<and> spos s \<le> p \<and> p < spos s' \<and> p < length (inp s)"
    using assms(1)
  proof (cases rule: scan_cases)
    case (token s2 l ch)
    then have "sym_pos lval' = word_of_nat (spos s2 - 1)" "spos s2 \<le> spos s'" "spos s2 \<le> length (inp s)"
      using scan_switch_pos [OF token(7)] moves_spos [OF scan_switch_moves [OF token(1,7)]]
      by (simp_all add: just_read_def)
    then show ?thesis using token(3) by (intro exI [of _ "spos s2 - 1"]) auto
  qed (use assms(2) in auto)
  then show "spos s < spos s'" "spos s < length (inp s)"
    "\<exists>p. sym_pos lval' = word_of_nat p \<and> spos s \<le> p \<and> p < spos s' \<and> p < length (inp s)" by auto
qed

lemma byte_val_eq_chars:
  "byte_val c = 0 \<longleftrightarrow> c = CHR 0x00" "byte_val c = 59 \<longleftrightarrow> c = CHR '';''"
  using of_char_eq_iff [of c "CHR 0x00", where 'a = int] of_char_eq_iff [of c "CHR '';''", where 'a = int]
  by simp_all

text \<open>The end marker is the end of the input, or a NUL byte in it.\<close>

lemma scan_end:
  assumes "scan env s lval = (s', lval')" "sym_id lval' = 0"
  shows "length (inp s) \<le> spos s' \<or> (\<exists>i < spos s'. spos s \<le> i \<and> i < length (inp s) \<and> inp s ! i = CHR 0x00)"
  using assms(1)
proof (cases rule: scan_cases)
  case (token s2 l ch)
  then have "ch = 0" using assms(2) scan_switch_id [OF token(7)] by auto
  moreover have "spos s2 \<le> spos s'" using moves_spos [OF scan_switch_moves [OF token(1,7)]] .
  ultimately show ?thesis
    using token(1-3) by (intro disjI2 exI [of _ "spos s2 - 1"]) (auto simp: just_read_def byte_val_eq_chars)
qed (use assms(2) in auto)

text \<open>A semicolon token is one semicolon character, the last byte read.\<close>

lemma scan_semicolon:
  assumes "scan env s lval = (s', lval')" "sym_id lval' = byte_val CHR '';''"
  shows "0 < spos s'" and "spos s' \<le> length (inp s)" and "inp s ! (spos s' - 1) = CHR '';''"
    and "sym_str lval' = '';''"
proof -
  have "just_read s' (byte_val CHR '';'') \<and> inp s' = inp s \<and>
      sym_str lval' = slice (inp s) (spos s' - 1) (spos s')"
    using assms(1)
  proof (cases rule: scan_cases)
    case (token s2 l ch)
    then have "ch = byte_val CHR '';''" using assms(2) scan_switch_id [OF token(7)] by auto
    moreover from this token(7) have "s' = s2" "lval' = l"
      by (auto simp: scan_switch_def scan_literal_def scan_operator_def char_class_defs)
    ultimately show ?thesis using token(1,2,6) by simp
  qed (use assms(2) in auto)
  then show "0 < spos s'" "spos s' \<le> length (inp s)" "inp s ! (spos s' - 1) = CHR '';''"
    "sym_str lval' = '';''"
    using slice_snoc [of "spos s' - 1" "spos s' - 1" "inp s"]
    by (auto simp: just_read_def byte_val_eq_chars slice_def)
qed

end
