(* ===== verification/Scanner_Shift.thy ===== *)
theory Scanner_Shift
  imports Scanner_Props
begin

text \<open>
  The scanner only looks at the text from its position on: with a text put in front of the
  input, and the position moved by its length, every routine does the same and \<open>scan\<close>
  returns the same token, its position moved. What is scanned after a statement does not
  depend on the statement.
\<close>

subsection \<open>Moving the input\<close>

text \<open>The same scanner with a text in front, and the semantic value that goes with it.\<close>

definition shift :: "string \<Rightarrow> scanner \<Rightarrow> scanner" where
  "shift pre s = s\<lparr>inp := pre @ inp s, spos := spos s + length pre\<rparr>"

definition shift_sym :: "string \<Rightarrow> sym_union \<Rightarrow> sqlSymType \<Rightarrow> sqlSymType" where
  "shift_sym pre u lval = lval\<lparr>sym_pos := sym_pos lval + word_of_nat (length pre), sym_union := u\<rparr>"

lemma shift_sel [simp]:
  "inp (shift pre s) = pre @ inp s" "spos (shift pre s) = spos s + length pre"
  by (simp_all add: shift_def)

lemma peek_shift [simp]: "peek (shift pre s) = peek s"
  by (auto simp: peek_def nth_append)

lemma advance_shift [simp]: "advance (shift pre s) n = shift pre (advance s n)"
  by (simp add: advance_def shift_def)

lemma shift_upd [simp]: "(shift pre s)\<lparr>spos := p + length pre\<rparr> = shift pre (s\<lparr>spos := p\<rparr>)"
  by (simp add: shift_def)

lemma scanner_next_shift: "scanner_next s = (s1, ch) \<Longrightarrow> scanner_next (shift pre s) = (shift pre s1, ch)"
  by (auto simp: scanner_next_def Let_def split: if_splits)

lemma shift_sym_error [simp]: "lex_error (shift_sym pre u lval) e = shift_sym pre u (lex_error lval e)"
  by (simp add: lex_error_def shift_sym_def)

lemma shift_sym_sel [simp]:
  "sym_id (shift_sym pre u lval) = sym_id lval" "sym_str (shift_sym pre u lval) = sym_str lval"
  by (simp_all add: shift_sym_def)

lemma slice_shift_append [simp]: "slice (pre @ xs) (a + length pre) (b + length pre) = slice xs a b"
  by (simp add: slice_def)

lemma slice_shift_pred:
  "0 < b \<Longrightarrow> slice (pre @ xs) (a + length pre) (b + length pre - Suc 0) = slice xs a (b - Suc 0)"
  by (simp add: slice_def)

lemma scanComment_block_shift:
  "scanComment_block s d = (s', ok) \<Longrightarrow> scanComment_block (shift pre s) d = (shift pre s', ok)"
proof (induction s d rule: scanComment_block.induct)
  case (1 s d)
  obtain s1 ch where n: "scanner_next s = (s1, ch)" by (cases "scanner_next s")
  note IH = "1.IH" [OF n [symmetric] refl]
  note pr = "1.prems" [unfolded scanComment_block.simps [of s d] n]
  show ?case
    unfolding scanComment_block.simps [of "shift pre s" d] scanner_next_shift [OF n]
    using pr IH by (auto simp: Let_def split: if_splits)
qed

lemma scanComment_line_shift: "scanComment_line (shift pre s) = shift pre (scanComment_line s)"
proof (induction s rule: scanComment_line.induct)
  case (1 s)
  obtain s1 ch where n: "scanner_next s = (s1, ch)" by (cases "scanner_next s")
  note IH = "1.IH" [OF n [symmetric] refl]
  show ?case
    unfolding scanComment_line.simps [of "shift pre s"] scanComment_line.simps [of s] scanner_next_shift [OF n] n
    using IH by (auto simp: Let_def)
qed

lemma scanComment_shift:
  "scanComment s lval = (s', lval', r) \<Longrightarrow>
   scanComment (shift pre s) (shift_sym pre u lval) = (shift pre s', shift_sym pre u lval', r)"
  using scanComment_block_shift [of "advance s 2" 1 _ _ pre]
  by (auto simp: scanComment_def Let_def scanComment_line_shift shift_sym_def
      split: if_splits prod.splits bool.splits)

lemma skipWhitespace_loop_shift:
  "skipWhitespace_loop ac nl s lval = (s', lval', r) \<Longrightarrow>
   skipWhitespace_loop ac nl (shift pre s) (shift_sym pre u lval) = (shift pre s', shift_sym pre u lval', r)"
proof (induction ac nl s lval rule: skipWhitespace_loop.induct)
  case (1 ac nl s lval)
  obtain s1 lval1 p c where sc: "scanComment s lval = (s1, lval1, p, c)"
    by (cases "scanComment s lval") auto
  note pr = "1.prems" [unfolded skipWhitespace_loop.simps [of ac nl s lval] sc]
  show ?case
    unfolding skipWhitespace_loop.simps [of ac nl "shift pre s"] scanComment_shift [OF sc] peek_shift
    using pr "1.IH"(1,2) [OF refl] "1.IH"(3) [OF refl _ _ _ sc [symmetric] refl refl]
    by (auto simp: Let_def split: if_splits)
qed

lemma skipWhitespace_shift:
  "skipWhitespace s lval ac = (s', lval', r) \<Longrightarrow>
   skipWhitespace (shift pre s) (shift_sym pre u lval) ac = (shift pre s', shift_sym pre u lval', r)"
  unfolding skipWhitespace_def by (rule skipWhitespace_loop_shift)

lemma scanIdent_loop_shift:
  "scanIdent_loop s a l = (s', r) \<Longrightarrow> scanIdent_loop (shift pre s) a l = (shift pre s', r)"
proof (induction s a l rule: scanIdent_loop.induct)
  case (1 s a l)
  note pr = "1.prems" [unfolded scanIdent_loop.simps [of s a l]]
  show ?case
    unfolding scanIdent_loop.simps [of "shift pre s" a l]
    using pr "1.IH" [OF refl refl refl] by (auto simp: Let_def split: if_splits)
qed

lemma scanNumber_loop_shift:
  "scanNumber_loop start h d e s = (s', r) \<Longrightarrow> start < spos s \<Longrightarrow>
   scanNumber_loop (start + length pre) h d e (shift pre s) = (shift pre s', r)"
proof (induction start h d e s rule: scanNumber_loop.induct)
  case (1 start h d e s)
  note pr = "1.prems"(1) [unfolded scanNumber_loop.simps [of start h d e s]]
  have nth: "(pre @ inp s) ! (start + length pre) = inp s ! start" by (simp add: nth_append)
  note un = scanNumber_loop.simps [of "start + length pre" h d e "shift pre s"]
  let ?ch = "peek s"
  consider (digit) "(h \<and> IsHexDigit ?ch) \<or> IsDigit ?ch"
    | (x) "\<not> ((h \<and> IsHexDigit ?ch) \<or> IsDigit ?ch)" "?ch = 120 \<or> ?ch = 88"
    | (dot) "\<not> ((h \<and> IsHexDigit ?ch) \<or> IsDigit ?ch)" "\<not> h" "?ch = 46"
    | (exp) "\<not> ((h \<and> IsHexDigit ?ch) \<or> IsDigit ?ch)" "\<not> h" "?ch = 101 \<or> ?ch = 69"
    | (stop) "\<not> ((h \<and> IsHexDigit ?ch) \<or> IsDigit ?ch)" "?ch \<noteq> 120" "?ch \<noteq> 88"
        "h \<or> (?ch \<noteq> 46 \<and> ?ch \<noteq> 101 \<and> ?ch \<noteq> 69)"
    by blast
  then show ?case
  proof cases
    case digit
    then show ?thesis
      using pr "1.prems"(2) "1.IH"(1) [OF refl digit] unfolding un by (simp add: Let_def)
  next
    case x
    then show ?thesis
      using pr "1.prems"(2) "1.IH"(2) [OF refl x(1)] unfolding un
      by (auto simp: Let_def nth split: if_splits)
  next
    case dot
    then show ?thesis
      using pr "1.prems"(2) "1.IH"(3) [OF refl dot(1) _ dot(2)] unfolding un
      by (auto simp: Let_def split: if_splits)
  next
    case exp
    then have "?ch \<noteq> 120" "?ch \<noteq> 88" "?ch \<noteq> 46" by auto
    with exp show ?thesis
      using pr "1.prems"(2) "1.IH"(4) [OF refl exp(1) _ exp(2)] unfolding un
      by (cases e; cases "peek (advance s 1) = 45 \<or> peek (advance s 1) = 43";
          cases "IsDigit (peek (advance s 2))"; cases "IsDigit (peek (advance s 1))") (simp_all add: Let_def)
  next
    case stop
    then show ?thesis using pr unfolding un by (cases h) (simp_all add: Let_def)
  qed
qed

lemma scanPlaceholder_loop_shift: "scanPlaceholder_loop (shift pre s) = shift pre (scanPlaceholder_loop s)"
proof (induction s rule: scanPlaceholder_loop.induct)
  case (1 s)
  then show ?case
    unfolding scanPlaceholder_loop.simps [of "shift pre s"] scanPlaceholder_loop.simps [of s] by auto
qed

lemma scanHexString_loop_shift:
  "scanHexString_loop q s lval buf c p = (s', lval', r) \<Longrightarrow>
   scanHexString_loop q (shift pre s) (shift_sym pre u lval) buf c p
     = (shift pre s', shift_sym pre u lval', r)"
proof (induction q s lval buf c p rule: scanHexString_loop.induct)
  case (1 q s lval buf c p)
  obtain s1 b where n: "scanner_next s = (s1, b)" by (cases "scanner_next s")
  obtain s2 lval2 nl ok where w: "skipWhitespace s1 lval False = (s2, lval2, nl, ok)"
    by (cases "skipWhitespace s1 lval False") auto
  note IH = "1.IH" [OF n [symmetric] refl]
  note pr = "1.prems" [unfolded scanHexString_loop.simps [of q s lval buf c p] n]
  note un = scanHexString_loop.simps [of q "shift pre s" "shift_sym pre u lval" buf c p]
    scanner_next_shift [OF n] Let_def split
  show ?case
  proof (cases "b = byte_val q")
    case True
    then show ?thesis
      unfolding un using pr w skipWhitespace_shift [OF w, of pre u] IH(1) [OF True w [symmetric] refl refl]
      by (auto simp: Let_def split: if_splits)
  next
    case False
    then show ?thesis
      unfolding un using pr IH(2,3) [OF False]
      by (auto simp: Let_def split: if_splits option.splits)
  qed
qed

lemma scanBitString_loop_shift:
  "scanBitString_loop q s lval buf = (s', lval', r) \<Longrightarrow>
   scanBitString_loop q (shift pre s) (shift_sym pre u lval) buf
     = (shift pre s', shift_sym pre u lval', r)"
proof (induction q s lval buf rule: scanBitString_loop.induct)
  case (1 q s lval buf)
  obtain s1 b where n: "scanner_next s = (s1, b)" by (cases "scanner_next s")
  obtain s2 lval2 nl ok where w: "skipWhitespace s1 lval False = (s2, lval2, nl, ok)"
    by (cases "skipWhitespace s1 lval False") auto
  note IH = "1.IH" [OF n [symmetric] refl]
  note pr = "1.prems" [unfolded scanBitString_loop.simps [of q s lval buf] n]
  note un = scanBitString_loop.simps [of q "shift pre s" "shift_sym pre u lval" buf]
    scanner_next_shift [OF n] Let_def split
  show ?case
  proof (cases "b = byte_val q")
    case True
    then show ?thesis
      unfolding un using pr w skipWhitespace_shift [OF w, of pre u] IH(1) [OF True w [symmetric] refl refl]
      by (auto simp: Let_def split: if_splits)
  next
    case False
    then show ?thesis
      unfolding un using pr IH(2) [OF False] by (auto simp: Let_def split: if_splits)
  qed
qed

lemma escape_text_shift:
  "0 < spos s \<Longrightarrow> escape_text (shift pre s) t = escape_text s t"
  by (simp add: escape_text_def slice_def)

lemma scanString_loop_shift:
  "scanString_loop q e s lval buf start = (s', lval', r) \<Longrightarrow>
   scanString_loop q e (shift pre s) (shift_sym pre u lval) buf (start + length pre)
     = (shift pre s', shift_sym pre u lval', r)"
proof (induction q e s lval buf start rule: scanString_loop.induct)
  case (1 q e s lval buf start)
  obtain s1 c where n: "scanner_next s = (s1, c)" by (cases "scanner_next s")
  obtain s2 lval2 nl ok where w: "skipWhitespace s1 lval False = (s2, lval2, nl, ok)"
    by (cases "skipWhitespace s1 lval False") auto
  note IH = "1.IH" [OF n [symmetric] refl]
  note pr = "1.prems" [unfolded scanString_loop.simps [of q e s lval buf start] n]
  note un = scanString_loop.simps [of q e "shift pre s" "shift_sym pre u lval" buf "start + length pre"]
    scanner_next_shift [OF n] Let_def split
  have pos: "0 < spos s1" if "c \<noteq> eof"
    using scanner_next_step [OF n that] by (simp add: advance_def)
  have sl: "slice (inp (shift pre s1)) (start + length pre) (spos (shift pre s1) - 1)
      = slice (inp s1) start (spos s1 - 1)" if "c \<noteq> eof"
    using slice_shift_pred [OF pos [OF that]] by simp
  consider (quote) "c = byte_val q" | (esc) "c \<noteq> byte_val q" "c = backslash" "e"
    | (other) "c \<noteq> byte_val q" "c \<noteq> backslash \<or> \<not> e" by blast
  then show ?case
  proof cases
    case quote
    then have "c \<noteq> eof" by simp
    with quote show ?thesis
      unfolding un sl [OF \<open>c \<noteq> eof\<close>]
      using pr w skipWhitespace_shift [OF w, of pre u] IH(1) [OF quote refl]
        IH(2) [OF quote refl _ w [symmetric] refl refl]
      by (auto simp: Let_def split: if_splits)
  next
    case esc
    then have "c \<noteq> eof" by simp
    with esc show ?thesis
      unfolding un sl [OF \<open>c \<noteq> eof\<close>]
      using pr IH(3) [OF esc refl refl] IH(4) [OF esc refl refl _ _ refl] IH(5) [OF esc refl refl]
      by (auto simp: Let_def escape_text_shift [OF pos [OF \<open>c \<noteq> eof\<close>]] split: if_splits option.splits)
  next
    case other
    then show ?thesis
      unfolding un using pr IH(6) [OF other(1)] IH(7) [OF other(1)]
      by (auto simp: Let_def split: if_splits)
  qed
qed

text \<open>
  The invariant of the dollar-quote loop: after the start tag the position is past it, and
  within a possible end tag \<open>startTagIndex\<close> bytes of the tag have been read after a \<open>$\<close>.
\<close>

definition dollar_inv :: "nat \<Rightarrow> bool \<Rightarrow> bool \<Rightarrow> int \<Rightarrow> string \<Rightarrow> scanner \<Rightarrow> bool" where
  "dollar_inv start f p i t s \<longleftrightarrow>
     start \<le> spos s \<and> (f \<longrightarrow> start + length t + 1 \<le> spos s) \<and>
     (p \<longrightarrow> f \<and> 0 \<le> i \<and> int (start + length t + 2) + i \<le> int (spos s))"

lemma dollar_inv_init: "dollar_inv (spos s) False False i t s"
  by (simp add: dollar_inv_def)

lemma dollar_inv_step:
  assumes "dollar_inv start f p i t s"
  shows "dollar_inv start f p i t (advance s 1)"
    "peek s = byte_val CHR ''$'' \<Longrightarrow> \<not> f \<Longrightarrow>
       dollar_inv start True p i (slice (inp s) start (spos s)) (advance s 1)"
    "f \<Longrightarrow> dollar_inv start f True 0 t (advance s 1)"
    "p \<Longrightarrow> dollar_inv start f p (i + 1) t (advance s 1)"
    "dollar_inv start f False j t (advance s 1)"
  using assms by (auto simp: dollar_inv_def slice_def)

text \<open>The slice between the tags is in range when the loop succeeds.\<close>

lemma dollar_inv_range:
  assumes "dollar_inv start f p i t s" "p" "int (length t) = i"
  shows "start + length t + 1 \<le> spos (advance s 1) - length t - 2" and "length t + 2 \<le> spos (advance s 1)"
  using assms by (auto simp: dollar_inv_def)

lemma scanDollar_loop_shift:
  "scanDollar_loop start f p i t s lval = (s', lval', r) \<Longrightarrow> dollar_inv start f p i t s \<Longrightarrow>
   scanDollar_loop (start + length pre) f p i t (shift pre s) (shift_sym pre u lval)
     = (shift pre s', shift_sym pre u lval', r)"
proof (induction start f p i t s lval rule: scanDollar_loop.induct)
  case (1 start f p i t s lval)
  note pr = "1.prems"(1) [unfolded scanDollar_loop.simps [of start f p i t s lval]]
  note un = scanDollar_loop.simps [of "start + length pre" f p i t "shift pre s" "shift_sym pre u lval"]
  note inv = dollar_inv_step [OF "1.prems"(2)]
  have sl: "slice (inp (shift pre (advance s 1))) (start + length pre) (spos (shift pre (advance s 1)) - 1)
      = slice (inp s) start (spos s)" by simp
  have body: "slice (inp (shift pre (advance s 1))) (start + length pre + length t + 1)
        (spos (shift pre (advance s 1)) - length t - 2)
      = slice (inp s) (start + length t + 1) (spos (advance s 1) - length t - 2)"
    if "p" "int (length t) = i"
    using dollar_inv_range [OF "1.prems"(2) that] by (simp add: slice_def)
  consider (dollar) "peek s = byte_val CHR ''$''" | (eof) "peek s = eof"
    | (other) "peek s \<noteq> byte_val CHR ''$''" "peek s \<noteq> eof" by blast
  then show ?case
  proof cases
    case dollar
    then show ?thesis
      unfolding un using pr body inv "1.IH"(1-3) [OF refl dollar refl]
      by (auto simp: Let_def split: if_splits)
  next
    case eof
    then show ?thesis unfolding un using pr by (auto simp: Let_def split: if_splits)
  next
    case other
    then show ?thesis
      unfolding un using pr inv "1.IH"(4-6) [OF refl other _ refl]
      by (auto simp: Let_def split: if_splits)
  qed
qed

subsection \<open>One token\<close>

text \<open>Two results that agree up to the shift and the (possibly stale) union.\<close>

definition shifted :: "string \<Rightarrow> scanner \<times> sqlSymType \<Rightarrow> scanner \<times> sqlSymType \<Rightarrow> bool" where
  "shifted pre r r' \<longleftrightarrow> (\<exists>u. r' = (shift pre (fst r), shift_sym pre u (snd r)))"

lemma shiftedI [intro]: "r' = (shift pre (fst r), shift_sym pre u (snd r)) \<Longrightarrow> shifted pre r r'"
  by (auto simp: shifted_def)

lemma shifted_pair [simp]: "shifted pre (s, l) (shift pre s, shift_sym pre u l)"
  by (auto simp: shifted_def)

lemma shifted_id_upd [simp]:
  "shifted pre (s, l\<lparr>sym_id := t\<rparr>) (shift pre s, shift_sym pre u l\<lparr>sym_id := t\<rparr>)"
  "shifted pre (s, l\<lparr>sym_id := t, sym_str := x\<rparr>) (shift pre s, shift_sym pre u l\<lparr>sym_id := t, sym_str := x\<rparr>)"
  "shifted pre (s, l\<lparr>sym_id := t, sym_str := x, sym_union := v\<rparr>)
     (shift pre s, shift_sym pre u l\<lparr>sym_id := t, sym_str := x, sym_union := w\<rparr>)"
  by (cases l; simp add: shifted_def shift_sym_def)+

lemma scanIdent_shift:
  assumes "just_read s ch"
  shows "shifted pre (scanIdent env s lval) (scanIdent env (shift pre s) (shift_sym pre u lval))"
proof -
  obtain s' r where lp: "scanIdent_loop (s\<lparr>spos := spos s - 1\<rparr>) True True = (s', r)"
    by (cases "scanIdent_loop (s\<lparr>spos := spos s - 1\<rparr>) True True")
  have p: "spos (shift pre s) - 1 = (spos s - 1) + length pre"
    using assms by (simp add: just_read_def)
  show ?thesis
    unfolding scanIdent_def Let_def p shift_upd lp scanIdent_loop_shift [OF lp]
    by (simp split: prod.split)
qed

lemma scanNumber_shift:
  assumes "just_read s ch"
  shows "shifted pre (scanNumber env s lval c) (scanNumber env (shift pre s) (shift_sym pre u lval) c)"
proof -
  obtain s' r where lp: "scanNumber_loop (spos s - 1) False (c = byte_val CHR ''.'') False s = (s', r)"
    by (cases "scanNumber_loop (spos s - 1) False (c = byte_val CHR ''.'') False s")
  have p: "spos (shift pre s) - 1 = (spos s - 1) + length pre" and lt: "spos s - 1 < spos s"
    using assms by (simp_all add: just_read_def)
  have two: "spos s' + length pre = spos s - 1 + length pre + 2 \<longleftrightarrow> spos s' = spos s - 1 + 2"
    by simp
  show ?thesis
    unfolding scanNumber_def Let_def p lp scanNumber_loop_shift [OF lp lt]
    unfolding split shift_sel slice_shift_append two
    by (cases r) (simp_all split: prod.split option.split)
qed

lemma scanPlaceholder_shift:
  "shifted pre (scanPlaceholder s lval) (scanPlaceholder (shift pre s) (shift_sym pre u lval))"
  by (simp add: scanPlaceholder_def Let_def scanPlaceholder_loop_shift split: sum.split)

lemma scanHexString_shift:
  "shifted pre (scanHexString s lval q) (scanHexString (shift pre s) (shift_sym pre u lval) q)"
proof -
  obtain s' l' r where lp: "scanHexString_loop q s lval [] 0 0 = (s', l', r)"
    by (cases "scanHexString_loop q s lval [] 0 0") auto
  show ?thesis
    unfolding scanHexString_def lp scanHexString_loop_shift [OF lp] by (simp split: option.split prod.split)
qed

lemma scanBitString_shift:
  "shifted pre (scanBitString s lval q) (scanBitString (shift pre s) (shift_sym pre u lval) q)"
proof -
  obtain s' l' r where lp: "scanBitString_loop q s lval [] = (s', l', r)"
    by (cases "scanBitString_loop q s lval []") auto
  show ?thesis
    unfolding scanBitString_def lp scanBitString_loop_shift [OF lp] by (simp split: option.split prod.split)
qed

lemma string_token_shift:
  "shifted pre (string_token s lval q e v t) (string_token (shift pre s) (shift_sym pre u lval) q e v t)"
proof -
  obtain s' l' r where lp: "scanString_loop q e s lval [] (spos s) = (s', l', r)"
    by (cases "scanString_loop q e s lval [] (spos s)") auto
  have x: "shift_sym pre u l\<lparr>sym_str := x, sym_id := t\<rparr> = shift_sym pre u (l\<lparr>sym_str := x, sym_id := t\<rparr>)" for l x
    by (simp add: shift_sym_def)
  show ?thesis
    unfolding string_token_def scanString_def shift_sel lp scanString_loop_shift [OF lp]
    by (auto simp: x split: option.split)
qed

lemma scan_dollar_shift:
  "shifted pre (scan_dollar s lval) (scan_dollar (shift pre s) (shift_sym pre u lval))"
proof -
  obtain s' l' r where lp: "scanDollar_loop (spos s) False False (- 1) [] s lval = (s', l', r)"
    by (cases "scanDollar_loop (spos s) False False (- 1) [] s lval") auto
  have x: "shift_sym pre u l\<lparr>sym_str := x, sym_id := t\<rparr> = shift_sym pre u (l\<lparr>sym_str := x, sym_id := t\<rparr>)" for l x t
    by (simp add: shift_sym_def)
  show ?thesis
    unfolding scan_dollar_def scanDollarQuotedString_def shift_sel peek_shift lp
      scanDollar_loop_shift [OF lp dollar_inv_init]
    by (auto simp: x scanPlaceholder_shift split: option.split)
qed

lemma peekN_shift [simp]: "peekN (shift pre s) n = peekN s n"
  by (auto simp: peekN_def nth_append)

lemma token_shift [simp]: "shifted pre (token s lval n t) (token (shift pre s) (shift_sym pre u lval) n t)"
  by (simp add: token_def)

lemma scan_operator_shift:
  assumes "just_read s ch"
  shows "rel_option (shifted pre) (scan_operator env s lval ch)
           (scan_operator env (shift pre s) (shift_sym pre u lval) ch)"
  unfolding scan_operator_def scan_dot_def scan_exclamation_def scan_question_def scan_less_def
    scan_greater_def scan_colon_def scan_bar_def scan_pair_def scan_minus_def scan_hash_def
  by (simp add: scanNumber_shift [OF assms] Let_def)

lemma scan_literal_shift:
  assumes "just_read s ch"
  shows "rel_option (shifted pre) (scan_literal env s lval ch)
           (scan_literal env (shift pre s) (shift_sym pre u lval) ch)"
  unfolding scan_literal_def
  by (simp add: scanIdent_shift [OF assms] scan_dollar_shift string_token_shift scanBitString_shift
      scanHexString_shift)

lemma scan_switch_shift:
  assumes "just_read s ch"
  shows "shifted pre (scan_switch env s lval ch) (scan_switch env (shift pre s) (shift_sym pre u lval) ch)"
  using scan_literal_shift [OF assms, of pre env lval u] scan_operator_shift [OF assms, of pre env lval u]
  by (auto simp: scan_switch_def scanIdent_shift [OF assms] scanNumber_shift [OF assms]
      elim!: option.rel_cases split: option.split)

lemma scan_shift:
  "shifted pre (scan env s lval) (scan env (shift pre s) lval2)"
proof -
  let ?l = "lval\<lparr>sym_id := 0, sym_pos := word_of_nat (spos s), sym_str := ''EOF''\<rparr>"
  let ?u = "sym_union lval2"
  obtain s1 l1 nl ok where w: "skipWhitespace s ?l True = (s1, l1, nl, ok)"
    by (metis prod_cases4)
  obtain s2 ch where n: "scanner_next s1 = (s2, ch)" by (cases "scanner_next s1")
  have l: "lval2\<lparr>sym_id := 0, sym_pos := word_of_nat (spos (shift pre s)), sym_str := ''EOF''\<rparr>
      = shift_sym pre ?u ?l"
    by (simp add: shift_sym_def)
  have e: "(shift_sym pre u l)\<lparr>sym_pos := word_of_nat (spos (shift pre s2))\<rparr>
      = shift_sym pre u (l\<lparr>sym_pos := word_of_nat (spos s2)\<rparr>)" for u l
    by (cases l) (simp add: shift_sym_def)
  have t: "(shift_sym pre u l)\<lparr>sym_id := ch, sym_pos := word_of_nat (spos (shift pre s2) - 1),
         sym_str := slice (inp (shift pre s2)) (spos (shift pre s2) - 1) (spos (shift pre s2))\<rparr>
      = shift_sym pre u (l\<lparr>sym_id := ch, sym_pos := word_of_nat (spos s2 - 1),
         sym_str := slice (inp s2) (spos s2 - 1) (spos s2)\<rparr>)" if "ch \<noteq> eof" for u l
  proof -
    have p: "spos (shift pre s2) - 1 = (spos s2 - 1) + length pre"
      using scanner_next_just_read [OF n that] by (simp add: just_read_def)
    show ?thesis
      unfolding p by (cases l) (simp add: shift_sym_def)
  qed
  show ?thesis
    unfolding scan_def Let_def l w skipWhitespace_shift [OF w] split scanner_next_shift [OF n] n e
    using scan_switch_shift [OF scanner_next_just_read [OF n]]
    by (simp add: t del: One_nat_def shift_sel)
qed

end
