(* ===== verification/Token_Stream.thy ===== *)
theory Token_Stream
  imports Scanner_Shift
begin

text \<open>
  The functions of \<open>parser/scan.go\<close> that run the scanner over a text: \<open>Tokens\<close>,
  \<open>SplitFirstStatement\<close>, \<open>LastLexicalToken\<close> and \<open>EndsInSemicolon\<close>, related to one list of
  tokens through the interface of a token source.
\<close>

subsection \<open>Sources of tokens\<close>

text \<open>
  What the loops of \<open>scan.go\<close> and \<open>parse.go\<close> need of a scanner: a token other than the end
  marker makes what is left to read smaller. A client runs over the finite list of tokens.
\<close>

locale token_source =
  fixes next_token :: "'s \<Rightarrow> 's \<times> 't"
    and is_end :: "'t \<Rightarrow> bool"
    and remaining :: "'s \<Rightarrow> nat"
  assumes consumes: "next_token s = (s', t) \<Longrightarrow> \<not> is_end t \<Longrightarrow> remaining s' < remaining s"
begin

function tokens :: "'s \<Rightarrow> ('t \<times> 's) list" where
  "tokens s = (case next_token s of (s', t) \<Rightarrow> if is_end t then [] else (t, s') # tokens s')"
  by pat_completeness auto
termination
  by (relation "measure remaining") (auto dest: consumes [OF sym])

declare tokens.simps [simp del]

lemma tokens_end: "next_token s = (s', t) \<Longrightarrow> is_end t \<Longrightarrow> tokens s = []"
  by (simp add: tokens.simps [of s])

lemma tokens_Cons: "next_token s = (s', t) \<Longrightarrow> \<not> is_end t \<Longrightarrow> tokens s = (t, s') # tokens s'"
  by (simp add: tokens.simps [of s])

lemma length_tokens: "length (tokens s) \<le> remaining s"
proof (induction s rule: tokens.induct)
  case (1 s)
  show ?case
  proof (cases "next_token s")
    case (Pair s' t)
    then show ?thesis
      using "1.IH" [OF Pair [symmetric]] consumes [OF Pair] by (cases "is_end t") (auto simp: tokens_end tokens_Cons)
  qed
qed

lemma tokens_not_end: "(t, s') \<in> set (tokens s) \<Longrightarrow> \<not> is_end t"
proof (induction s rule: tokens.induct)
  case (1 s)
  show ?case
  proof (cases "next_token s")
    case (Pair s1 t1)
    then show ?thesis
      using "1.IH" [OF Pair [symmetric]] "1.prems" by (cases "is_end t1") (auto simp: tokens_end tokens_Cons)
  qed
qed

text \<open>The tokens after a given one are the tokens from the state it left.\<close>

lemma tokens_append: "tokens s = xs @ (t, s') # ys \<Longrightarrow> ys = tokens s'"
proof (induction xs arbitrary: s)
  case Nil
  then show ?case by (auto simp: tokens.simps [of s] split: prod.splits if_splits)
next
  case (Cons x xs)
  then show ?case by (auto simp: tokens.simps [of s] split: prod.splits if_splits)
qed

text \<open>
  A loop with a state of its own, of which \<open>acc\<close> is what it accumulates from the tokens,
  computes a fold; one that stops at the first token with a property finds that token.
\<close>

lemma loop_fold:
  assumes step: "\<And>x s s' t. next_token s = (s', t) \<Longrightarrow>
      \<exists>x'. acc x' = upd t (acc x) \<and> loop x s = (if is_end t then fin (acc x) else loop x' s')"
  shows "loop x s = fin (fold (upd \<circ> fst) (tokens s) (acc x))"
proof (induction s arbitrary: x rule: tokens.induct)
  case (1 s)
  obtain s' t where n: "next_token s = (s', t)" by (cases "next_token s")
  obtain x' where "acc x' = upd t (acc x)" "loop x s = (if is_end t then fin (acc x) else loop x' s')"
    using step [OF n] by blast
  then show ?case
    using "1.IH" [OF n [symmetric], of x']
    by (cases "is_end t") (auto simp: tokens_end [OF n] tokens_Cons [OF n])
qed

lemma loop_find:
  assumes step: "\<And>x s s' t. next_token s = (s', t) \<Longrightarrow>
      \<exists>x'. loop x s = (if is_end t then none else if P t then found t s' else loop x' s')"
  shows "loop x s = (case List.find (P \<circ> fst) (tokens s) of None \<Rightarrow> none | Some (t, s') \<Rightarrow> found t s')"
proof (induction s arbitrary: x rule: tokens.induct)
  case (1 s)
  obtain s' t where n: "next_token s = (s', t)" by (cases "next_token s")
  obtain x' where "loop x s = (if is_end t then none else if P t then found t s' else loop x' s')"
    using step [OF n] by blast
  then show ?case
    using "1.IH" [OF n [symmetric], of x']
    by (cases "is_end t") (auto simp: tokens_end [OF n] tokens_Cons [OF n])
qed

end


subsection \<open>The loops over the tokens\<close>

lemma scan_decreases:
  "(s', lval') = scan env s lval \<Longrightarrow> sym_id lval' \<noteq> 0 \<Longrightarrow>
   length (inp s') - spos s' < length (inp s) - spos s"
  using scan_consumes [of env s lval s' lval'] scan_moves [of env s lval s' lval']
  by (auto simp: moves_def)

interpretation sql: token_source "\<lambda>s. scan env s zero_sym" "\<lambda>t. sym_id t = 0" "\<lambda>s. length (inp s) - spos s"
  for env
  by unfold_locales (auto dest: scan_decreases [OF sym])

text \<open>The token and the state do not depend on the value that is overwritten, its union apart.\<close>

lemma scan_any_lval:
  assumes "scan env s lval = (s', lval')"
  shows "\<exists>u. scan env s lval2 = (s', lval'\<lparr>sym_union := u\<rparr>)"
proof -
  have eq: "shift [] s1 = s1" "shift_sym [] u l = l\<lparr>sym_union := u\<rparr>" for s1 u l
    by (simp_all add: shift_def shift_sym_def)
  show ?thesis
    using scan_shift [of "[]" env s lval lval2, unfolded shifted_def eq] assms by auto
qed

record TokenString =
  TokenID :: int
  Str :: string

function Tokens_loop :: "lex_env \<Rightarrow> TokenString list \<Rightarrow> scanner \<Rightarrow> TokenString list option" where
  "Tokens_loop env tokens s =
     (let (s', lval) = scan env s zero_sym in
      if sym_id lval = T_ERROR then None
      else if sym_id lval = 0 then Some tokens
      else Tokens_loop env (tokens @ [\<lparr>TokenID = sym_id lval, Str = sym_str lval\<rparr>]) s')"
  by pat_completeness auto
termination
  by (relation "measure (\<lambda>(env, tokens, s). length (inp s) - spos s)") (auto dest: scan_decreases)

declare Tokens_loop.simps [simp del]

definition Tokens :: "lex_env \<Rightarrow> string \<Rightarrow> TokenString list option" where
  "Tokens env sql = Tokens_loop env [] (makeScanner sql)"

function SplitFirstStatement_loop :: "lex_env \<Rightarrow> scanner \<Rightarrow> sqlSymType \<Rightarrow> nat \<times> bool" where
  "SplitFirstStatement_loop env s lval =
     (let (s', lval') = scan env s lval in
      if sym_id lval' = 0 \<or> sym_id lval' = T_ERROR then (0, False)
      else if sym_id lval' = byte_val CHR '';'' then (spos s', True)
      else SplitFirstStatement_loop env s' lval')"
  by pat_completeness auto
termination
  by (relation "measure (\<lambda>(env, s, lval). length (inp s) - spos s)")
    (auto dest: scan_decreases [OF sym] split: prod.splits)

declare SplitFirstStatement_loop.simps [simp del]

definition SplitFirstStatement :: "lex_env \<Rightarrow> string \<Rightarrow> nat \<times> bool" where
  "SplitFirstStatement env sql = SplitFirstStatement_loop env (makeScanner sql) zero_sym"

function LastLexicalToken_loop :: "lex_env \<Rightarrow> scanner \<Rightarrow> sqlSymType \<Rightarrow> int \<times> bool" where
  "LastLexicalToken_loop env s lval =
     (let last = sym_id lval; (s', lval') = scan env s lval in
      if sym_id lval' = 0 then (last, last \<noteq> 0)
      else LastLexicalToken_loop env s' lval')"
  by pat_completeness auto
termination
  by (relation "measure (\<lambda>(env, s, lval). length (inp s) - spos s)")
    (auto dest: scan_decreases [OF sym] split: prod.splits)

declare LastLexicalToken_loop.simps [simp del]

definition LastLexicalToken :: "lex_env \<Rightarrow> string \<Rightarrow> int \<times> bool" where
  "LastLexicalToken env sql = LastLexicalToken_loop env (makeScanner sql) zero_sym"

definition EndsInSemicolon :: "lex_env \<Rightarrow> string \<Rightarrow> bool" where
  "EndsInSemicolon env sql = (let (lastTok, ok) = LastLexicalToken env sql in ok \<and> lastTok = byte_val CHR '';'')"

subsection \<open>The loops and the list of tokens\<close>

abbreviation token_string :: "sqlSymType \<times> scanner \<Rightarrow> TokenString" where
  "token_string t \<equiv> \<lparr>TokenID = sym_id (fst t), Str = sym_str (fst t)\<rparr>"

lemma Tokens_loop_tokens:
  "Tokens_loop env acc s =
     (if \<exists>t \<in> set (sql.tokens env s). sym_id (fst t) = T_ERROR then None
      else Some (acc @ map token_string (sql.tokens env s)))"
proof (induction env acc s rule: Tokens_loop.induct)
  case (1 env acc s)
  obtain s' t where n: "scan env s zero_sym = (s', t)" by (cases "scan env s zero_sym")
  note IH = "1.IH" [OF n [symmetric] refl]
  show ?case
    unfolding Tokens_loop.simps [of env acc s] n Let_def
    using IH by (cases "sym_id t = 0") (simp_all add: sql.tokens_end [OF n] sql.tokens_Cons [OF n])
qed

lemma Tokens_Some_iff:
  "Tokens env sql = Some ts \<longleftrightarrow>
     ts = map token_string (sql.tokens env (makeScanner sql)) \<and> T_ERROR \<notin> TokenID ` set ts"
  by (auto simp: Tokens_def Tokens_loop_tokens image_image) force+

definition stop_token :: "sqlSymType \<Rightarrow> bool" where
  "stop_token t \<longleftrightarrow> sym_id t = T_ERROR \<or> sym_id t = byte_val CHR '';''"

lemma SplitFirstStatement_loop_tokens:
  "SplitFirstStatement_loop env s lval =
     (case List.find (stop_token \<circ> fst) (sql.tokens env s) of
        None \<Rightarrow> (0, False)
      | Some (t, s') \<Rightarrow> if sym_id t = T_ERROR then (0, False) else (spos s', True))"
proof -
  have "\<exists>x'. SplitFirstStatement_loop env s x =
      (if sym_id t = 0 then (0, False)
       else if stop_token t then (if sym_id t = T_ERROR then (0, False) else (spos s', True))
       else SplitFirstStatement_loop env s' x')" if n: "scan env s zero_sym = (s', t)" for x s s' t
    using scan_any_lval [OF n, of x]
    by (auto simp: SplitFirstStatement_loop.simps [of env s x] stop_token_def)
  from sql.loop_find [where loop = "\<lambda>x s. SplitFirstStatement_loop env s x", OF this] show ?thesis by simp
qed

lemma LastLexicalToken_loop_tokens:
  "LastLexicalToken_loop env s lval =
     (let l = fold (\<lambda>t _. sym_id (fst t)) (sql.tokens env s) (sym_id lval) in (l, l \<noteq> 0))"
proof -
  have "\<exists>x'. sym_id x' = sym_id t \<and> LastLexicalToken_loop env s x =
      (if sym_id t = 0 then (sym_id x, sym_id x \<noteq> 0) else LastLexicalToken_loop env s' x')"
    if n: "scan env s zero_sym = (s', t)" for x s s' t
  proof -
    obtain u where "scan env s x = (s', t\<lparr>sym_union := u\<rparr>)" using scan_any_lval [OF n] by blast
    then show ?thesis
      by (intro exI [of _ "t\<lparr>sym_union := u\<rparr>"]) (simp add: LastLexicalToken_loop.simps [of env s x] Let_def)
  qed
  from sql.loop_fold [where loop = "\<lambda>x s. LastLexicalToken_loop env s x" and acc = sym_id
      and upd = "\<lambda>t _. sym_id t" and fin = "\<lambda>l. (l, l \<noteq> 0)", OF this]
  show ?thesis by (simp add: Let_def comp_def)
qed

lemma fold_last: "fold (\<lambda>x _. f x) xs a = (if xs = [] then a else f (last xs))"
  by (induction xs arbitrary: a) auto

lemma LastLexicalToken_tokens:
  "LastLexicalToken env sql =
     (case sql.tokens env (makeScanner sql) of [] \<Rightarrow> (0, False) | ts \<Rightarrow> (sym_id (fst (last ts)), True))"
proof -
  have "sym_id (fst (last ts)) \<noteq> 0" if "sql.tokens env s = ts" "ts \<noteq> []" for s ts
    using sql.tokens_not_end [of "fst (last ts)" "snd (last ts)" env s] last_in_set [OF that(2)] that(1) by simp
  then show ?thesis
    by (auto simp: LastLexicalToken_def LastLexicalToken_loop_tokens fold_last zero_sym_def Let_def
        split: list.split)
qed

lemma tokens_states: "(t, s') \<in> set (sql.tokens env s) \<Longrightarrow> moves s s' \<and> spos s < spos s'"
proof (induction s rule: sql.tokens.induct [where env = env])
  case (1 s)
  obtain s1 t1 where n: "scan env s zero_sym = (s1, t1)" by (cases "scan env s zero_sym")
  have e: "sym_id t1 \<noteq> 0" using "1.prems" sql.tokens_end [OF n] by force
  note IH = "1.IH" [OF n [symmetric] e]
  show ?case
    using "1.prems" IH scan_moves [OF n] scan_consumes(1) [OF n e]
    by (auto simp: sql.tokens_Cons [OF n e] intro: moves_trans)
qed

lemma tokens_semicolon:
  "(t, s') \<in> set (sql.tokens env s) \<Longrightarrow> sym_id t = byte_val CHR '';'' \<Longrightarrow>
   0 < spos s' \<and> spos s' \<le> length (inp s) \<and> inp s ! (spos s' - 1) = CHR '';'' \<and> sym_str t = '';''"
proof (induction s rule: sql.tokens.induct [where env = env])
  case (1 s)
  obtain s1 t1 where n: "scan env s zero_sym = (s1, t1)" by (cases "scan env s zero_sym")
  have e: "sym_id t1 \<noteq> 0" using "1.prems" sql.tokens_end [OF n] by force
  note IH = "1.IH" [OF n [symmetric] e]
  show ?case
    using "1.prems" IH scan_semicolon [OF n] moves_inp [OF scan_moves [OF n]]
    by (auto simp: sql.tokens_Cons [OF n e])
qed

text \<open>The tokens of a text do not depend on what precedes it.\<close>

lemma tokens_shift:
  "map token_string (sql.tokens env (shift pre s)) = map token_string (sql.tokens env s)"
proof (induction s rule: sql.tokens.induct [where env = env])
  case (1 s)
  obtain s1 t1 where n: "scan env s zero_sym = (s1, t1)" by (cases "scan env s zero_sym")
  obtain u where n': "scan env (shift pre s) zero_sym = (shift pre s1, shift_sym pre u t1)"
    using scan_shift [of pre env s zero_sym zero_sym] n by (auto simp: shifted_def)
  show ?case
    using "1.IH" [OF n [symmetric]]
    by (cases "sym_id t1 = 0")
      (simp_all add: sql.tokens_end [OF n] sql.tokens_Cons [OF n] sql.tokens_end [OF n'] sql.tokens_Cons [OF n'])
qed

lemma tokens_drop:
  assumes "inp s = sql" "spos s \<le> length sql"
  shows "map token_string (sql.tokens env s) = map token_string (sql.tokens env (makeScanner (drop (spos s) sql)))"
proof -
  have "s = shift (take (spos s) sql) (makeScanner (drop (spos s) sql))"
    using assms by (simp add: shift_def makeScanner_def)
  then have "sql.tokens env s = sql.tokens env (shift (take (spos s) sql) (makeScanner (drop (spos s) sql)))"
    by (rule arg_cong)
  then show ?thesis by (simp only: tokens_shift)
qed


subsection \<open>Splitting\<close>

lemma find_decomp:
  "List.find P xs = Some x \<Longrightarrow> \<exists>ys zs. xs = ys @ x # zs \<and> P x \<and> (\<forall>y \<in> set ys. \<not> P y)"
proof (induction xs)
  case (Cons a xs)
  show ?case
  proof (cases "P a")
    case True
    then show ?thesis using Cons.prems by (intro exI [of _ "[]"] exI [of _ xs]) auto
  next
    case False
    then obtain ys zs where "xs = ys @ x # zs" "P x" "\<forall>y \<in> set ys. \<not> P y" using Cons by auto
    then show ?thesis using False by (intro exI [of _ "a # ys"] exI [of _ zs]) auto
  qed
qed simp

lemma SplitFirstStatement_found:
  assumes "SplitFirstStatement env sql = (n, True)"
  obtains ys t s' where "sql.tokens env (makeScanner sql) = ys @ (t, s') # sql.tokens env s'" "n = spos s'"
    "sym_id t = byte_val CHR '';''" "\<forall>y \<in> set ys. \<not> stop_token (fst y)"
proof -
  let ?T = "sql.tokens env (makeScanner sql)"
  obtain t s' where f: "List.find (stop_token \<circ> fst) ?T = Some (t, s')" "n = spos s'" "sym_id t \<noteq> T_ERROR"
    using assms by (auto simp: SplitFirstStatement_def SplitFirstStatement_loop_tokens
        split: option.splits if_splits)
  obtain ys zs where d: "?T = ys @ (t, s') # zs" "stop_token t" "\<forall>y \<in> set ys. \<not> stop_token (fst y)"
    using find_decomp [OF f(1)] by auto
  show thesis
    using that [of ys t s'] d f(2,3) sql.tokens_append [OF d(1)] by (simp add: stop_token_def)
qed

subsection \<open>Properties\<close>

lemmas stream_eval = Tokens_def Tokens_loop.simps SplitFirstStatement_def SplitFirstStatement_loop.simps
  LastLexicalToken_def LastLexicalToken_loop.simps EndsInSemicolon_def scan_eval

text \<open>
  C8: splitting a text at its first semicolon loses no token. When the text tokenizes and
  \<open>SplitFirstStatement\<close> finds a position, the tokens are those of the first statement (none
  of them a semicolon), one semicolon, and exactly the tokens of the text that remains.
\<close>

theorem SplitFirstStatement_tokens:
  assumes "Tokens env sql = Some ts" "SplitFirstStatement env sql = (n, True)"
  shows "\<exists>first rest. ts = first @ \<lparr>TokenID = byte_val CHR '';'', Str = '';''\<rparr> # rest \<and>
           byte_val CHR '';'' \<notin> TokenID ` set first \<and> Tokens env (drop n sql) = Some rest"
proof -
  let ?T = "sql.tokens env (makeScanner sql)"
  obtain ys t s' where d: "?T = ys @ (t, s') # sql.tokens env s'" "n = spos s'"
    "sym_id t = byte_val CHR '';''" "\<forall>y \<in> set ys. \<not> stop_token (fst y)"
    using SplitFirstStatement_found [OF assms(2)] .
  have "(t, s') \<in> set ?T" using d(1) by simp
  note t = tokens_semicolon [OF this d(3)] and s' = tokens_states [OF this, THEN conjunct1, THEN moves_inp]
  note T = assms(1) [unfolded Tokens_Some_iff]
  have ts: "ts = map token_string ys @ token_string (t, s') # map token_string (sql.tokens env s')"
    unfolding conjunct1 [OF T] d(1) by simp
  have ok: "T_ERROR \<notin> TokenID ` set ts" using T by (rule conjunct2)
  have rest: "map token_string (sql.tokens env s') = map token_string (sql.tokens env (makeScanner (drop n sql)))"
    using tokens_drop [of s' sql env] s' t d(2) by (simp add: makeScanner_def)
  have "Tokens env (drop n sql) = Some (map token_string (sql.tokens env s'))"
    unfolding Tokens_Some_iff using rest ok ts by auto
  moreover have "byte_val CHR '';'' \<notin> TokenID ` set (map token_string ys)"
    using d(4) by (auto simp: stop_token_def)
  ultimately show ?thesis
    using ts d(3) t by (intro exI [of _ "map token_string ys"] exI [of _ "map token_string (sql.tokens env s')"]) simp
qed

lemma sample_split:
  "Tokens sample_env ''1;2'' = Some [\<lparr>TokenID = T_ICONST, Str = ''1''\<rparr>, \<lparr>TokenID = 59, Str = '';''\<rparr>,
                                     \<lparr>TokenID = T_ICONST, Str = ''2''\<rparr>]"
  "SplitFirstStatement sample_env ''1;2'' = (2, True)"
  by (simp_all add: stream_eval sample_env_def)

theorem SplitFirstStatement_tokens_witness:
  "\<exists>first rest. [\<lparr>TokenID = T_ICONST, Str = ''1''\<rparr>, \<lparr>TokenID = 59, Str = '';''\<rparr>,
                 \<lparr>TokenID = T_ICONST, Str = ''2''\<rparr>]
       = first @ \<lparr>TokenID = byte_val CHR '';'', Str = '';''\<rparr> # rest \<and>
     byte_val CHR '';'' \<notin> TokenID ` set first \<and> Tokens sample_env (drop 2 ''1;2'') = Some rest"
  by (rule SplitFirstStatement_tokens [OF sample_split])

text \<open>
  The position \<open>SplitFirstStatement\<close> returns is in the text and just after a semicolon.
\<close>

theorem SplitFirstStatement_position:
  assumes "SplitFirstStatement env sql = (n, True)"
  shows "0 < n \<and> n \<le> length sql \<and> sql ! (n - 1) = CHR '';''"
proof -
  obtain ys t s' where d: "sql.tokens env (makeScanner sql) = ys @ (t, s') # sql.tokens env s'" "n = spos s'"
    "sym_id t = byte_val CHR '';''"
    using SplitFirstStatement_found [OF assms] .
  then have "(t, s') \<in> set (sql.tokens env (makeScanner sql))" by simp
  from tokens_semicolon [OF this d(3)] show ?thesis using d(2) by (simp add: makeScanner_def)
qed

theorem SplitFirstStatement_position_witness:
  "0 < (2 :: nat) \<and> 2 \<le> length ''1;2'' \<and> ''1;2'' ! (2 - 1) = CHR '';''"
  by (rule SplitFirstStatement_position [OF sample_split(2)])

text \<open>
  C22: \<open>SplitFirstStatement\<close> succeeds exactly when one of the tokens is a semicolon, for every
  text that tokenizes.
\<close>

theorem SplitFirstStatement_iff:
  assumes "Tokens env sql = Some ts"
  shows "snd (SplitFirstStatement env sql) \<longleftrightarrow> byte_val CHR '';'' \<in> TokenID ` set ts"
proof -
  let ?T = "sql.tokens env (makeScanner sql)"
  have ts: "ts = map token_string ?T" and ok: "\<forall>t \<in> set ?T. sym_id (fst t) \<noteq> T_ERROR"
    using assms unfolding Tokens_Some_iff by (auto simp: image_image)
  show ?thesis
  proof (cases "List.find (stop_token \<circ> fst) ?T")
    case None
    then have "\<forall>t \<in> set ?T. \<not> stop_token (fst t)" by (force simp: find_None_iff)
    then show ?thesis
      using None by (auto simp: ts stop_token_def SplitFirstStatement_def SplitFirstStatement_loop_tokens)
  next
    case (Some x)
    then have "x \<in> set ?T" "stop_token (fst x)" by (auto dest: find_decomp)
    moreover have "sym_id (fst x) \<noteq> T_ERROR" using ok \<open>x \<in> set ?T\<close> by blast
    ultimately have "byte_val CHR '';'' \<in> TokenID ` set ts" "sym_id (fst x) \<noteq> T_ERROR"
      by (auto simp: ts image_image stop_token_def image_iff)
    then show ?thesis
      using Some by (auto simp: SplitFirstStatement_def SplitFirstStatement_loop_tokens split: prod.split)
  qed
qed

theorem SplitFirstStatement_iff_witness:
  "snd (SplitFirstStatement sample_env ''1;2'') \<longleftrightarrow>
     byte_val CHR '';'' \<in> TokenID ` set [\<lparr>TokenID = T_ICONST, Str = ''1''\<rparr>,
       \<lparr>TokenID = 59, Str = '';''\<rparr>, \<lparr>TokenID = T_ICONST, Str = ''2''\<rparr>]"
  by (rule SplitFirstStatement_iff [OF sample_split(1)])

text \<open>
  C23: \<open>EndsInSemicolon\<close> agrees with \<open>Tokens\<close>: it holds exactly when there is a last token and
  it is a semicolon.
\<close>

theorem EndsInSemicolon_tokens:
  assumes "Tokens env sql = Some ts"
  shows "EndsInSemicolon env sql \<longleftrightarrow> ts \<noteq> [] \<and> TokenID (last ts) = byte_val CHR '';''"
  using assms unfolding Tokens_Some_iff
  by (auto simp: EndsInSemicolon_def LastLexicalToken_tokens last_map split: list.splits)

theorem EndsInSemicolon_tokens_witness:
  "EndsInSemicolon sample_env ''1;2'' \<longleftrightarrow>
     [\<lparr>TokenID = T_ICONST, Str = ''1''\<rparr>, \<lparr>TokenID = 59, Str = '';''\<rparr>, \<lparr>TokenID = T_ICONST, Str = ''2''\<rparr>] \<noteq> [] \<and>
     TokenID (last [\<lparr>TokenID = T_ICONST, Str = ''1''\<rparr>, \<lparr>TokenID = 59, Str = '';''\<rparr>,
       \<lparr>TokenID = T_ICONST, Str = ''2''\<rparr>]) = byte_val CHR '';''"
  by (rule EndsInSemicolon_tokens [OF sample_split(1)])


end
