(* ===== verification/Pgerror.thy ===== *)
theory Pgerror
  imports Prelude
begin

text \<open>
  Package \<open>pgwire/pgerror\<close>: errors with a Postgres error code, and how the code of a chain of
  errors is chosen (\<open>pgcode.go\<close>, \<open>with_candidate_code.go\<close>, \<open>severity.go\<close>, \<open>flatten.go\<close>,
  \<open>errors.go\<close>), the code table of \<open>pgwire/pgcode\<close>, and \<open>utils/errorutil/unimplemented\<close>.
  Error values of the errors library are kept as the calls that made them, a tree in which
  every wrapper holds its cause.
\<close>

subsection \<open>Codes\<close>

text \<open>The constants of \<open>pgcode/codes.go\<close>, in order: those of the SQL standard classes, and the rest.\<close>

definition pgcodes_standard :: "(string \<times> string) list" where
  "pgcodes_standard =
    [(''SuccessfulCompletion'', ''00000''), (''Warning'', ''01000''),
     (''WarningDynamicResultSetsReturned'', ''0100C''),
     (''WarningImplicitZeroBitPadding'', ''01008''),
     (''WarningNullValueEliminatedInSetFunction'', ''01003''),
     (''WarningPrivilegeNotGranted'', ''01007''), (''WarningPrivilegeNotRevoked'', ''01006''),
     (''WarningStringDataRightTruncation'', ''01004''),
     (''WarningDeprecatedFeature'', ''01P01''), (''NoData'', ''02000''),
     (''NoAdditionalDynamicResultSetsReturned'', ''02001''),
     (''SQLStatementNotYetComplete'', ''03000''), (''ConnectionException'', ''08000''),
     (''ConnectionDoesNotExist'', ''08003''), (''ConnectionFailure'', ''08006''),
     (''SQLclientUnableToEstablishSQLconnection'', ''08001''),
     (''SQLserverRejectedEstablishmentOfSQLconnection'', ''08004''),
     (''TransactionResolutionUnknown'', ''08007''), (''ProtocolViolation'', ''08P01''),
     (''TriggeredActionException'', ''09000''), (''FeatureNotSupported'', ''0A000''),
     (''InvalidTransactionInitiation'', ''0B000''), (''LocatorException'', ''0F000''),
     (''InvalidLocatorSpecification'', ''0F001''), (''InvalidGrantor'', ''0L000''),
     (''InvalidGrantOperation'', ''0LP01''), (''InvalidRoleSpecification'', ''0P000''),
     (''DiagnosticsException'', ''0Z000''),
     (''StackedDiagnosticsAccessedWithoutActiveHandler'', ''0Z002''),
     (''CaseNotFound'', ''20000''), (''CardinalityViolation'', ''21000''),
     (''DataException'', ''22000''), (''ArraySubscript'', ''2202E''),
     (''CharacterNotInRepertoire'', ''22021''), (''DatetimeFieldOverflow'', ''22008''),
     (''DivisionByZero'', ''22012''), (''InvalidWindowFrameOffset'', ''22013''),
     (''ErrorInAssignment'', ''22005''), (''EscapeCharacterConflict'', ''2200B''),
     (''IndicatorOverflow'', ''22022''), (''IntervalFieldOverflow'', ''22015''),
     (''InvalidArgumentForLogarithm'', ''2201E''),
     (''InvalidArgumentForNtileFunction'', ''22014''),
     (''InvalidArgumentForNthValueFunction'', ''22016''),
     (''InvalidArgumentForPowerFunction'', ''2201F''),
     (''InvalidArgumentForWidthBucketFunction'', ''2201G''),
     (''InvalidCharacterValueForCast'', ''22018''), (''InvalidDatetimeFormat'', ''22007''),
     (''InvalidEscapeCharacter'', ''22019''), (''InvalidEscapeOctet'', ''2200D''),
     (''InvalidEscapeSequence'', ''22025''), (''NonstandardUseOfEscapeCharacter'', ''22P06''),
     (''InvalidIndicatorParameterValue'', ''22010''), (''InvalidParameterValue'', ''22023''),
     (''InvalidRegularExpression'', ''2201B''), (''InvalidRowCountInLimitClause'', ''2201W''),
     (''InvalidRowCountInResultOffsetClause'', ''2201X''),
     (''InvalidTimeZoneDisplacementValue'', ''22009''),
     (''InvalidUseOfEscapeCharacter'', ''2200C''), (''MostSpecificTypeMismatch'', ''2200G''),
     (''NullValueNotAllowed'', ''22004''), (''NullValueNoIndicatorParameter'', ''22002''),
     (''NumericValueOutOfRange'', ''22003''), (''SequenceGeneratorLimitExceeded'', ''2200H''),
     (''StringDataLengthMismatch'', ''22026''), (''StringDataRightTruncation'', ''22001''),
     (''Substring'', ''22011''), (''Trim'', ''22027''), (''UnterminatedCString'', ''22024''),
     (''ZeroLengthCharacterString'', ''2200F''), (''FloatingPointException'', ''22P01''),
     (''InvalidTextRepresentation'', ''22P02''), (''InvalidBinaryRepresentation'', ''22P03''),
     (''BadCopyFileFormat'', ''22P04''), (''UntranslatableCharacter'', ''22P05''),
     (''NotAnXMLDocument'', ''2200L''), (''InvalidXMLDocument'', ''2200M''),
     (''InvalidXMLContent'', ''2200N''), (''InvalidXMLComment'', ''2200S''),
     (''InvalidXMLProcessingInstruction'', ''2200T''),
     (''IntegrityConstraintViolation'', ''23000''), (''RestrictViolation'', ''23001''),
     (''NotNullViolation'', ''23502''), (''ForeignKeyViolation'', ''23503''),
     (''UniqueViolation'', ''23505''), (''CheckViolation'', ''23514''),
     (''ExclusionViolation'', ''23P01''), (''InvalidCursorState'', ''24000''),
     (''InvalidTransactionState'', ''25000''), (''ActiveSQLTransaction'', ''25001''),
     (''BranchTransactionAlreadyActive'', ''25002''),
     (''HeldCursorRequiresSameIsolationLevel'', ''25008''),
     (''InappropriateAccessModeForBranchTransaction'', ''25003''),
     (''InappropriateIsolationLevelForBranchTransaction'', ''25004''),
     (''NoActiveSQLTransactionForBranchTransaction'', ''25005''),
     (''ReadOnlySQLTransaction'', ''25006''),
     (''SchemaAndDataStatementMixingNotSupported'', ''25007''),
     (''NoActiveSQLTransaction'', ''25P01''), (''InFailedSQLTransaction'', ''25P02''),
     (''InvalidSQLStatementName'', ''26000''), (''TriggeredDataChangeViolation'', ''27000''),
     (''InvalidAuthorizationSpecification'', ''28000''), (''InvalidPassword'', ''28P01''),
     (''DependentPrivilegeDescriptorsStillExist'', ''2B000''),
     (''DependentObjectsStillExist'', ''2BP01''), (''InvalidTransactionTermination'', ''2D000''),
     (''RoutineExceptionFunctionExecutedNoReturnStatement'', ''2F005''),
     (''RoutineExceptionModifyingSQLDataNotPermitted'', ''2F002''),
     (''RoutineExceptionProhibitedSQLStatementAttempted'', ''2F003''),
     (''RoutineExceptionReadingSQLDataNotPermitted'', ''2F004''),
     (''InvalidCursorName'', ''34000''), (''ExternalRoutineException'', ''38000''),
     (''ExternalRoutineContainingSQLNotPermitted'', ''38001''),
     (''ExternalRoutineModifyingSQLDataNotPermitted'', ''38002''),
     (''ExternalRoutineProhibitedSQLStatementAttempted'', ''38003''),
     (''ExternalRoutineReadingSQLDataNotPermitted'', ''38004''),
     (''ExternalRoutineInvocationException'', ''39000''),
     (''ExternalRoutineInvalidSQLstateReturned'', ''39001''),
     (''ExternalRoutineNullValueNotAllowed'', ''39004''),
     (''ExternalRoutineTriggerProtocolViolated'', ''39P01''),
     (''ExternalRoutineSrfProtocolViolated'', ''39P02''), (''SavepointException'', ''3B000''),
     (''InvalidSavepointSpecification'', ''3B001''), (''InvalidCatalogName'', ''3D000''),
     (''InvalidSchemaName'', ''3F000'')]"

definition pgcodes_other :: "(string \<times> string) list" where
  "pgcodes_other =
    [(''TransactionRollback'', ''40000''),
     (''TransactionIntegrityConstraintViolation'', ''40002''),
     (''SerializationFailure'', ''40001''), (''StatementCompletionUnknown'', ''40003''),
     (''DeadlockDetected'', ''40P01''), (''SyntaxErrorOrAccessRuleViolation'', ''42000''),
     (''Syntax'', ''42601''), (''InsufficientPrivilege'', ''42501''),
     (''CannotCoerce'', ''42846''), (''Grouping'', ''42803''), (''Windowing'', ''42P20''),
     (''InvalidRecursion'', ''42P19''), (''InvalidForeignKey'', ''42830''),
     (''InvalidName'', ''42602''), (''NameTooLong'', ''42622''), (''ReservedName'', ''42939''),
     (''DatatypeMismatch'', ''42804''), (''IndeterminateDatatype'', ''42P18''),
     (''CollationMismatch'', ''42P21''), (''IndeterminateCollation'', ''42P22''),
     (''WrongObjectType'', ''42809''), (''UndefinedColumn'', ''42703''),
     (''UndefinedCursor'', ''34000''), (''UndefinedDatabase'', ''3D000''),
     (''UndefinedFunction'', ''42883''), (''UndefinedPreparedStatement'', ''26000''),
     (''UndefinedSchema'', ''3F000''), (''UndefinedTable'', ''42P01''),
     (''UndefinedParameter'', ''42P02''), (''UndefinedObject'', ''42704''),
     (''DuplicateColumn'', ''42701''), (''DuplicateCursor'', ''42P03''),
     (''DuplicateDatabase'', ''42P04''), (''DuplicateFunction'', ''42723''),
     (''DuplicatePreparedStatement'', ''42P05''), (''DuplicateSchema'', ''42P06''),
     (''DuplicateRelation'', ''42P07''), (''DuplicateAlias'', ''42712''),
     (''DuplicateObject'', ''42710''), (''AmbiguousColumn'', ''42702''),
     (''AmbiguousFunction'', ''42725''), (''AmbiguousParameter'', ''42P08''),
     (''AmbiguousAlias'', ''42P09''), (''InvalidColumnReference'', ''42P10''),
     (''InvalidColumnDefinition'', ''42611''), (''InvalidCursorDefinition'', ''42P11''),
     (''InvalidDatabaseDefinition'', ''42P12''), (''InvalidFunctionDefinition'', ''42P13''),
     (''InvalidPreparedStatementDefinition'', ''42P14''),
     (''InvalidSchemaDefinition'', ''42P15''), (''InvalidTableDefinition'', ''42P16''),
     (''InvalidObjectDefinition'', ''42P17''), (''FileAlreadyExists'', ''42C01''),
     (''WithCheckOptionViolation'', ''44000''), (''InsufficientResources'', ''53000''),
     (''DiskFull'', ''53100''), (''OutOfMemory'', ''53200''),
     (''TooManyConnections'', ''53300''), (''ConfigurationLimitExceeded'', ''53400''),
     (''ProgramLimitExceeded'', ''54000''), (''StatementTooComplex'', ''54001''),
     (''TooManyColumns'', ''54011''), (''TooManyArguments'', ''54023''),
     (''ObjectNotInPrerequisiteState'', ''55000''), (''ObjectInUse'', ''55006''),
     (''CantChangeRuntimeParam'', ''55P02''), (''LockNotAvailable'', ''55P03''),
     (''OperatorIntervention'', ''57000''), (''QueryCanceled'', ''57014''),
     (''AdminShutdown'', ''57P01''), (''CrashShutdown'', ''57P02''),
     (''CannotConnectNow'', ''57P03''), (''DatabaseDropped'', ''57P04''),
     (''System'', ''58000''), (''Io'', ''58030''), (''UndefinedFile'', ''58P01''),
     (''DuplicateFile'', ''58P02''), (''ConfigFile'', ''F0000''),
     (''LockFileExists'', ''F0001''), (''FdwError'', ''HV000''),
     (''FdwColumnNameNotFound'', ''HV005''), (''FdwDynamicParameterValueNeeded'', ''HV002''),
     (''FdwFunctionSequenceError'', ''HV010''),
     (''FdwInconsistentDescriptorInformation'', ''HV021''),
     (''FdwInvalidAttributeValue'', ''HV024''), (''FdwInvalidColumnName'', ''HV007''),
     (''FdwInvalidColumnNumber'', ''HV008''), (''FdwInvalidDataType'', ''HV004''),
     (''FdwInvalidDataTypeDescriptors'', ''HV006''),
     (''FdwInvalidDescriptorFieldIdentifier'', ''HV091''), (''FdwInvalidHandle'', ''HV00B''),
     (''FdwInvalidOptionIndex'', ''HV00C''), (''FdwInvalidOptionName'', ''HV00D''),
     (''FdwInvalidStringLengthOrBufferLength'', ''HV090''),
     (''FdwInvalidStringFormat'', ''HV00A''), (''FdwInvalidUseOfNullPointer'', ''HV009''),
     (''FdwTooManyHandles'', ''HV014''), (''FdwOutOfMemory'', ''HV001''),
     (''FdwNoSchemas'', ''HV00P''), (''FdwOptionNameNotFound'', ''HV00J''),
     (''FdwReplyHandle'', ''HV00K''), (''FdwSchemaNotFound'', ''HV00Q''),
     (''FdwTableNotFound'', ''HV00R''), (''FdwUnableToCreateExecution'', ''HV00L''),
     (''FdwUnableToCreateReply'', ''HV00M''), (''FdwUnableToEstablishConnection'', ''HV00N''),
     (''PLpgSQL'', ''P0000''), (''RaiseException'', ''P0001''), (''NoDataFound'', ''P0002''),
     (''TooManyRows'', ''P0003''), (''AssertFailure'', ''P0004''), (''Internal'', ''XX000''),
     (''DataCorrupted'', ''XX001''), (''IndexCorrupted'', ''XX002''),
     (''Uncategorized'', ''XXUUU''), (''CCLRequired'', ''XXC01''),
     (''CCLValidLicenseRequired'', ''XXC02''),
     (''TransactionCommittedWithSchemaChangeFailure'', ''XXA00''),
     (''ScalarOperationCannotRunWithoutFullSessionContext'', ''22C01''),
     (''SchemaChangeOccurred'', ''55C01''), (''NoPrimaryKey'', ''55C02''),
     (''RangeUnavailable'', ''58C00''), (''DeprecatedRangeUnavailable'', ''XXC00''),
     (''InternalConnectionFailure'', ''58C01'')]"

definition pgcodes :: "(string \<times> string) list" where
  "pgcodes = pgcodes_standard @ pgcodes_other"

abbreviation code_Syntax :: string where "code_Syntax \<equiv> ''42601''"
abbreviation code_Internal :: string where "code_Internal \<equiv> ''XX000''"
abbreviation code_Uncategorized :: string where "code_Uncategorized \<equiv> ''XXUUU''"
abbreviation code_FeatureNotSupported :: string where "code_FeatureNotSupported \<equiv> ''0A000''"
abbreviation code_SerializationFailure :: string where "code_SerializationFailure \<equiv> ''40001''"
abbreviation code_StatementCompletionUnknown :: string where "code_StatementCompletionUnknown \<equiv> ''40003''"
abbreviation code_InvalidParameterValue :: string where "code_InvalidParameterValue \<equiv> ''22023''"
abbreviation code_Warning :: string where "code_Warning \<equiv> ''01000''"

subsection \<open>Errors\<close>

text \<open>
  The leaves: a message, an unimplemented feature with its link, a \<open>pgerror.Error\<close> with code
  and message, and the two errors other packages mark as retryable or ambiguous. The
  wrappers: an assertion failure, a message prefix, a candidate code, a severity, a secondary
  error, a detail, a hint, telemetry keys.
\<close>

datatype sql_error =
    New string
  | Unimplemented string string string
  | PgError string string
  | RetryError string
  | AmbiguousError string
  | Assertion sql_error
  | Wrapped sql_error string
  | withCandidateCode sql_error string
  | withSeverity sql_error string
  | WithSecondary sql_error sql_error
  | WithDetail sql_error string
  | WithHint sql_error string
  | WithTelemetry sql_error "string list"

text \<open>\<open>errors.UnwrapOnce\<close>: the cause of a wrapper.\<close>

fun UnwrapOnce :: "sql_error \<Rightarrow> sql_error option" where
  "UnwrapOnce (Assertion e) = Some e"
| "UnwrapOnce (Wrapped e m) = Some e"
| "UnwrapOnce (withCandidateCode e c) = Some e"
| "UnwrapOnce (withSeverity e s) = Some e"
| "UnwrapOnce (WithSecondary e x) = Some e"
| "UnwrapOnce (WithDetail e d) = Some e"
| "UnwrapOnce (WithHint e h) = Some e"
| "UnwrapOnce (WithTelemetry e k) = Some e"
| "UnwrapOnce e = None"

text \<open>Errors may be nil: the decorators keep nil.\<close>

definition WithCandidateCode :: "sql_error option \<Rightarrow> string \<Rightarrow> sql_error option" where
  "WithCandidateCode err code = map_option (\<lambda>e. withCandidateCode e code) err"

definition WithSeverity :: "sql_error option \<Rightarrow> string \<Rightarrow> sql_error option" where
  "WithSeverity err sev = map_option (\<lambda>e. withSeverity e sev) err"

lemma UnwrapOnce_size: "UnwrapOnce e = Some c \<Longrightarrow> size c < size e"
  by (cases e) auto

definition DefaultSeverity :: string where "DefaultSeverity = ''ERROR''"

text \<open>\<open>errors.As\<close> walks the chain of causes to the first severity.\<close>

function GetSeverity :: "sql_error \<Rightarrow> string" where
  "GetSeverity err =
     (case err of
        withSeverity c s \<Rightarrow> s
      | _ \<Rightarrow> (case UnwrapOnce err of None \<Rightarrow> DefaultSeverity | Some c \<Rightarrow> GetSeverity c))"
  by pat_completeness auto
termination by (relation "measure size") (auto dest: UnwrapOnce_size)

declare GetSeverity.simps [simp del]

definition HasCandidateCode_here :: "sql_error \<Rightarrow> bool" where
  "HasCandidateCode_here err = (case err of withCandidateCode c s \<Rightarrow> True | _ \<Rightarrow> False)"

function HasCandidateCode :: "sql_error \<Rightarrow> bool" where
  "HasCandidateCode err =
     (HasCandidateCode_here err \<or>
      (case UnwrapOnce err of None \<Rightarrow> False | Some c \<Rightarrow> HasCandidateCode c))"
  by pat_completeness auto
termination by (relation "measure size") (auto dest: UnwrapOnce_size)

declare HasCandidateCode.simps [simp del]

subsection \<open>The code of an error\<close>

definition combineCodes :: "string \<Rightarrow> string \<Rightarrow> string" where
  "combineCodes innerCode outerCode =
     (if outerCode = code_Uncategorized then innerCode
      else if take 2 outerCode = ''XX'' then outerCode
      else if innerCode \<noteq> code_Uncategorized then innerCode
      else outerCode)"

definition ComputeDefaultCode :: "sql_error \<Rightarrow> string" where
  "ComputeDefaultCode err =
     (case err of
        PgError code m \<Rightarrow> code
      | RetryError m \<Rightarrow> code_SerializationFailure
      | AmbiguousError m \<Rightarrow> code_StatementCompletionUnknown
      | Assertion e \<Rightarrow> code_Internal
      | Unimplemented u d m \<Rightarrow> code_FeatureNotSupported
      | _ \<Rightarrow> [])"

function GetPGCodeInternal :: "sql_error \<Rightarrow> (sql_error \<Rightarrow> string) \<Rightarrow> string" where
  "GetPGCodeInternal err computeDefaultCode =
     (let code = (case err of
                    withCandidateCode c s \<Rightarrow> s
                  | _ \<Rightarrow> (let newCode = computeDefaultCode err in
                          if newCode \<noteq> [] then newCode else code_Uncategorized))
      in case UnwrapOnce err of
           None \<Rightarrow> code
         | Some c \<Rightarrow> combineCodes (GetPGCodeInternal c computeDefaultCode) code)"
  by pat_completeness auto
termination by (relation "measure (\<lambda>(e, f). size e)") (auto dest: UnwrapOnce_size)

declare GetPGCodeInternal.simps [simp del]

definition GetPGCode :: "sql_error \<Rightarrow> string" where
  "GetPGCode err = GetPGCodeInternal err ComputeDefaultCode"

subsection \<open>Making errors\<close>

definition pgerror_New :: "string \<Rightarrow> string \<Rightarrow> sql_error" where
  "pgerror_New code msg = withCandidateCode (New msg) code"

definition pgerror_Wrap :: "sql_error \<Rightarrow> string \<Rightarrow> string \<Rightarrow> sql_error" where
  "pgerror_Wrap err code msg =
     (if msg = [] then withCandidateCode err code else withCandidateCode (Wrapped err msg) code)"

definition MakeURL :: "nat \<Rightarrow> string" where
  "MakeURL issue = ''https://go.crdb.dev/issue/'' @ show_nat issue"

definition unimplementedInternal :: "nat \<Rightarrow> string \<Rightarrow> string \<Rightarrow> sql_error" where
  "unimplementedInternal issue detail msg =
     (let url = (if issue > 0 then MakeURL issue else []);
          err = Unimplemented url detail (''unimplemented: '' @ msg)
      in if issue > 0 then
           WithTelemetry err [if detail = [] then ''#'' @ show_nat issue
                              else ''#'' @ show_nat issue @ ''.'' @ detail]
         else if detail \<noteq> [] then WithTelemetry err [detail]
         else err)"

definition formatMsgHintDetail :: "string \<Rightarrow> string \<Rightarrow> string \<Rightarrow> string \<Rightarrow> string" where
  "formatMsgHintDetail prefix msg hint detail =
     prefix @ '': '' @ msg @
     (if hint \<noteq> [] then [CHR 0x0A] @ ''HINT: '' @ hint else []) @
     (if detail \<noteq> [] then [CHR 0x0A] @ ''DETAIL: '' @ detail else [])"

subsection \<open>Flattening\<close>

text \<open>
  What \<open>Flatten\<close> reads off an error with the errors library: its message, the joined hints
  and details, and the printed stack trace of one level if it has one.
\<close>

record error_reader =
  err_Error :: "sql_error \<Rightarrow> string"
  FlattenHints :: "sql_error \<Rightarrow> string"
  FlattenDetails :: "sql_error \<Rightarrow> string"
  stack_trace :: "sql_error \<Rightarrow> string option"

record pg_error =
  Code :: string
  Message :: string
  SeverityOf :: string
  Hint :: string
  Detail :: string

function getInnerMostStackTraceAsDetail :: "error_reader \<Rightarrow> sql_error \<Rightarrow> string" where
  "getInnerMostStackTraceAsDetail rd err =
     (let s = (case UnwrapOnce err of None \<Rightarrow> [] | Some c \<Rightarrow> getInnerMostStackTraceAsDetail rd c) in
      if s \<noteq> [] then s else (case stack_trace rd err of None \<Rightarrow> [] | Some t \<Rightarrow> t))"
  by pat_completeness auto
termination by (relation "measure (\<lambda>(r, e). size e)") (auto dest: UnwrapOnce_size)

declare getInnerMostStackTraceAsDetail.simps [simp del]

definition InternalErrorPrefix :: string where "InternalErrorPrefix = ''internal error''"
definition TxnRetryMsgPrefix :: string where "TxnRetryMsgPrefix = ''restart transaction''"

definition add_prefix :: "string \<Rightarrow> string \<Rightarrow> string" where
  "add_prefix p m = (if take (length p) m = p then m else p @ '': '' @ m)"

definition Flatten :: "error_reader \<Rightarrow> sql_error option \<Rightarrow> pg_error option" where
  "Flatten rd err_opt =
     (case err_opt of
        None \<Rightarrow> None
      | Some err \<Rightarrow>
          (let code = GetPGCode err;
               res = \<lparr>Code = code, Message = err_Error rd err, SeverityOf = GetSeverity err,
                      Hint = FlattenHints rd err, Detail = FlattenDetails rd err\<rparr>
           in Some (if code = code_Internal then
                      res\<lparr>Message := add_prefix InternalErrorPrefix (Message res),
                          Detail := Detail res @ getInnerMostStackTraceAsDetail rd err\<rparr>
                    else if code = code_SerializationFailure then
                      res\<lparr>Message := add_prefix TxnRetryMsgPrefix (Message res)\<rparr>
                    else res)))"

subsection \<open>Properties\<close>

definition is_code_char :: "char \<Rightarrow> bool" where
  "is_code_char c \<longleftrightarrow> (let n = byte_val c in (48 \<le> n \<and> n \<le> 57) \<or> (65 \<le> n \<and> n \<le> 90))"


text \<open>The code each level of a chain contributes, outermost first.\<close>

definition level_code :: "(sql_error \<Rightarrow> string) \<Rightarrow> sql_error \<Rightarrow> string" where
  "level_code f err =
     (case err of
        withCandidateCode c s \<Rightarrow> s
      | _ \<Rightarrow> if f err \<noteq> [] then f err else code_Uncategorized)"

function chain_codes :: "(sql_error \<Rightarrow> string) \<Rightarrow> sql_error \<Rightarrow> string list" where
  "chain_codes f err = level_code f err # (case UnwrapOnce err of None \<Rightarrow> [] | Some c \<Rightarrow> chain_codes f c)"
  by pat_completeness auto
termination by (relation "measure (\<lambda>(f, e). size e)") (auto dest: UnwrapOnce_size)

declare chain_codes.simps [simp del]

definition is_internal :: "string \<Rightarrow> bool" where
  "is_internal code \<longleftrightarrow> code \<noteq> code_Uncategorized \<and> take 2 code = ''XX''"

definition chosen_code :: "string list \<Rightarrow> string" where
  "chosen_code cs =
     (case filter is_internal cs of
        c # _ \<Rightarrow> c
      | [] \<Rightarrow> (case filter (\<lambda>c. c \<noteq> code_Uncategorized) (rev cs) of c # _ \<Rightarrow> c | [] \<Rightarrow> code_Uncategorized))"

lemma chosen_code_single: "chosen_code [c] = c"
  by (simp add: chosen_code_def)

lemma filter_rev_last:
  "filter P (rev (c # cs)) = (case filter P (rev cs) of [] \<Rightarrow> (if P c then [c] else []) | d # ds \<Rightarrow> d # ds @ (if P c then [c] else []))"
  by (auto split: list.splits)

lemma filter_head: "filter P xs = x # ys \<Longrightarrow> P x"
  by (auto dest!: Cons_eq_filterD [OF sym])

lemma chosen_code_combine: "cs \<noteq> [] \<Longrightarrow> chosen_code (c # cs) = combineCodes (chosen_code cs) c"
  unfolding chosen_code_def filter_rev_last [of _ c]
  by (auto simp: combineCodes_def is_internal_def filter_empty_conv dest: filter_head split: list.splits)

text \<open>
  C10: the code of a chain of errors. The outermost code of the internal class (prefix XX,
  the code for uncategorized errors apart) wins; without one, the innermost categorized
  code wins; without any, the error is uncategorized.
\<close>

theorem GetPGCodeInternal_chosen: "GetPGCodeInternal err f = chosen_code (chain_codes f err)"
proof (induction err f rule: GetPGCodeInternal.induct)
  case (1 err f)
  have lc: "(case err of withCandidateCode c s \<Rightarrow> s
      | _ \<Rightarrow> (let newCode = f err in if newCode \<noteq> [] then newCode else code_Uncategorized)) = level_code f err"
    by (cases err) (simp_all add: level_code_def Let_def)
  show ?case
  proof (cases "UnwrapOnce err")
    case None
    then show ?thesis
      unfolding GetPGCodeInternal.simps [of err f] chain_codes.simps [of f err] lc
      by (simp add: chosen_code_single Let_def)
  next
    case (Some c)
    have "chain_codes f c \<noteq> []" by (simp add: chain_codes.simps [of f c])
    then show ?thesis
      using "1.IH" [OF refl Some] Some
      unfolding GetPGCodeInternal.simps [of err f] chain_codes.simps [of f err] lc
      by (simp add: chosen_code_combine Let_def)
  qed
qed


lemma GetPGCode_wrappers [simp]:
  "GetPGCode (Wrapped e m) = GetPGCode e" "GetPGCode (WithDetail e d) = GetPGCode e"
  "GetPGCode (WithHint e d) = GetPGCode e" "GetPGCode (WithTelemetry e k) = GetPGCode e"
  "GetPGCode (WithSecondary e x) = GetPGCode e" "GetPGCode (withSeverity e d) = GetPGCode e"
  "GetPGCode (withCandidateCode e c) = combineCodes (GetPGCode e) c"
  by (simp_all add: GetPGCode_def GetPGCodeInternal.simps [of "Wrapped e m"]
      GetPGCodeInternal.simps [of "WithDetail e d"] GetPGCodeInternal.simps [of "WithHint e d"]
      GetPGCodeInternal.simps [of "WithTelemetry e k"] GetPGCodeInternal.simps [of "WithSecondary e x"]
      GetPGCodeInternal.simps [of "withSeverity e d"] GetPGCodeInternal.simps [of "withCandidateCode e c"]
      ComputeDefaultCode_def combineCodes_def Let_def)

lemma GetPGCode_leaves [simp]:
  "GetPGCode (New m) = code_Uncategorized" "GetPGCode (Unimplemented u d m) = code_FeatureNotSupported"
  by (simp_all add: GetPGCode_def GetPGCodeInternal.simps [of "New m"]
      GetPGCodeInternal.simps [of "Unimplemented u d m"] ComputeDefaultCode_def Let_def)

text \<open>The decorations that carry no code.\<close>

fun decorated :: "sql_error \<Rightarrow> sql_error \<Rightarrow> bool" where
  "decorated base (Wrapped e m) = (Wrapped e m = base \<or> decorated base e)"
| "decorated base (WithDetail e d) = (WithDetail e d = base \<or> decorated base e)"
| "decorated base (WithHint e h) = (WithHint e h = base \<or> decorated base e)"
| "decorated base (WithTelemetry e k) = (WithTelemetry e k = base \<or> decorated base e)"
| "decorated base (WithSecondary e x) = (WithSecondary e x = base \<or> decorated base e)"
| "decorated base e = (e = base)"



text \<open>Flattening gives the code of the chain and marks internal and retryable errors in the message.\<close>

lemma Flatten_spec:
  assumes "Flatten rd (Some err) = Some pg"
  shows "Code pg = GetPGCode err \<and>
    (GetPGCode err = code_Internal \<longrightarrow> take (length InternalErrorPrefix) (Message pg) = InternalErrorPrefix) \<and>
    (GetPGCode err = code_SerializationFailure \<longrightarrow>
       take (length TxnRetryMsgPrefix) (Message pg) = TxnRetryMsgPrefix)"
  using assms by (auto simp: Flatten_def Let_def add_prefix_def InternalErrorPrefix_def TxnRetryMsgPrefix_def)

end
