(* ===== verification/Lexer.thy ===== *)
theory Lexer
  imports Token_Stream Pgerror
begin

text \<open>
  The lexer of \<open>parser/lexer.go\<close>: it hands the tokens of one statement to the grammar, with
  one token of lookahead folded in, and collects what the grammar's actions record
  (statement, placeholders, annotations, errors). Its methods are the only way the
  generated parser acts on it; a run of the parser is a sequence of calls.
\<close>

subsection \<open>State\<close>

text \<open>The type of statements and the type of types are parameters of the record.\<close>

record ('stmt, 'typ) lexer =
  lex_in :: string
  lex_tokens :: "sqlSymType list"
  nakedIntType :: 'typ
  lastPos :: int
  stmt :: "'stmt option"
  numPlaceholders :: int
  numAnnotations :: "32 word"
  lastError :: "sql_error option"

definition lexer_init :: "string \<Rightarrow> sqlSymType list \<Rightarrow> 'typ \<Rightarrow> ('stmt, 'typ) lexer" where
  "lexer_init sql tokens typ =
     \<lparr>lex_in = sql, lex_tokens = tokens, nakedIntType = typ, lastPos = -1, stmt = None,
      numPlaceholders = 0, numAnnotations = 0, lastError = None\<rparr>"

definition lexer_cleanup :: "('stmt, 'typ) lexer \<Rightarrow> ('stmt, 'typ) lexer" where
  "lexer_cleanup l = l\<lparr>lex_tokens := [], stmt := None, lastError := None\<rparr>"

subsection \<open>Tokens\<close>

text \<open>The id a token gets from the id of the token after it (0 at the end).\<close>

definition lookahead_id :: "int \<Rightarrow> int \<Rightarrow> int" where
  "lookahead_id tok nextID =
     (if tok = T_AS then (if nextID = T_OF then T_AS_LA else tok)
      else if tok = T_NOT then
        (if nextID \<in> {T_BETWEEN, T_IN, T_LIKE, T_ILIKE, T_SIMILAR} then T_NOT_LA else tok)
      else if tok = T_GENERATED then (if nextID = T_ALWAYS then T_GENERATED_ALWAYS else tok)
      else if tok = T_WITH then (if nextID \<in> {T_TIME, T_ORDINALITY} then T_WITH_LA else tok)
      else tok)"

definition Lex :: "('stmt, 'typ) lexer \<Rightarrow> sqlSymType \<Rightarrow> ('stmt, 'typ) lexer \<times> sqlSymType \<times> int" where
  "Lex l lval =
     (let pos = lastPos l + 1; l' = l\<lparr>lastPos := pos\<rparr> in
      if pos \<ge> int (length (lex_tokens l)) then
        (l', lval\<lparr>sym_id := 0, sym_pos := word_of_nat (length (lex_in l)), sym_str := ''EOF''\<rparr>, 0)
      else
        (let t = lex_tokens l ! nat pos;
             nextID = (if pos + 1 < int (length (lex_tokens l)) then sym_id (lex_tokens l ! nat (pos + 1)) else 0);
             id = (if sym_id t \<in> {T_NOT, T_WITH, T_AS, T_GENERATED} then lookahead_id (sym_id t) nextID
                   else sym_id t)
         in (l', t\<lparr>sym_id := id\<rparr>, id)))"

definition lastToken :: "('stmt, 'typ) lexer \<Rightarrow> sqlSymType" where
  "lastToken l =
     (if lastPos l < 0 then zero_sym
      else if lastPos l \<ge> int (length (lex_tokens l)) then
        zero_sym\<lparr>sym_id := 0, sym_pos := word_of_nat (length (lex_in l)), sym_str := ''EOF''\<rparr>
      else lex_tokens l ! nat (lastPos l))"

subsection \<open>What the actions record\<close>

definition NewAnnotation :: "('stmt, 'typ) lexer \<Rightarrow> ('stmt, 'typ) lexer \<times> 32 word" where
  "NewAnnotation l = (l\<lparr>numAnnotations := numAnnotations l + 1\<rparr>, numAnnotations l + 1)"

definition SetStmt :: "'stmt \<Rightarrow> ('stmt, 'typ) lexer \<Rightarrow> ('stmt, 'typ) lexer" where
  "SetStmt st l = l\<lparr>stmt := Some st\<rparr>"

text \<open>The index of a placeholder is a \<open>uint16\<close>.\<close>

definition UpdateNumPlaceholders :: "16 word \<Rightarrow> ('stmt, 'typ) lexer \<Rightarrow> ('stmt, 'typ) lexer" where
  "UpdateNumPlaceholders idx l =
     (let n = uint idx + 1 in if numPlaceholders l < n then l\<lparr>numPlaceholders := n\<rparr> else l)"

subsection \<open>Errors\<close>

definition IndexByte :: "string \<Rightarrow> char \<Rightarrow> int" where
  "IndexByte s c = (if c \<in> set s then int (length (takeWhile (\<lambda>x. x \<noteq> c) s)) else - 1)"

definition LastIndexByte :: "string \<Rightarrow> char \<Rightarrow> int" where
  "LastIndexByte s c =
     (if c \<in> set s then int (length s) - 1 - int (length (takeWhile (\<lambda>x. x \<noteq> c) (rev s))) else - 1)"

fun contains :: "string \<Rightarrow> string \<Rightarrow> bool" where
  "contains [] sub = (sub = [])"
| "contains (c # s) sub = (take (length sub) (c # s) = sub \<or> contains s sub)"

definition TrimPrefix :: "string \<Rightarrow> string \<Rightarrow> string" where
  "TrimPrefix s p = (if take (length p) s = p then drop (length p) s else s)"

text \<open>
  The detail of a syntax error: the text up to the end of the line of the last token, and a
  caret under the token. \<open>None\<close> is the panic of a slice whose bounds are out of range.
\<close>

definition error_detail :: "string \<Rightarrow> int \<Rightarrow> string option" where
  "error_detail text pos =
     (if pos < 0 \<or> int (length text) < pos then None
      else
        (let p = nat pos;
             i0 = IndexByte (drop p text) CHR 0x0A;
             i = (if i0 = - 1 then int (length text) else i0 + pos);
             j = LastIndexByte (take p text) CHR 0x0A + 1
         in if pos - j < 0 then None
            else Some (''source SQL:'' @ [CHR 0x0A] @ take (nat i) text @ [CHR 0x0A] @
                       replicate (nat (pos - j)) CHR '' '' @ ''^'')))"

text \<open>
  \<open>populateErrorDetails\<close>; \<open>text_of\<close> is the \<open>Error()\<close> method of the errors library. The last
  error is set by every caller.
\<close>

definition populateErrorDetails ::
  "(sql_error \<Rightarrow> string) \<Rightarrow> sql_error \<Rightarrow> ('stmt, 'typ) lexer \<Rightarrow> ('stmt, 'typ) lexer option" where
  "populateErrorDetails text_of err l =
     (let lastTok = lastToken l;
          err1 = (if sym_id lastTok = T_ERROR then
                    WithSecondary (withCandidateCode (New (''lexical error: '' @ sym_str lastTok)) code_Syntax) err
                  else
                    (let e = (if \<not> contains (text_of err) ''syntax error'' then Wrapped err ''syntax error'' else err)
                     in Wrapped e (''at or near '' @ [CHR 0x22] @ sym_str lastTok @ [CHR 0x22])))
      in map_option (\<lambda>d. l\<lparr>lastError := Some (WithDetail err1 d)\<rparr>)
           (error_detail (lex_in l) (sint (sym_pos lastTok))))"

definition setErr ::
  "(sql_error \<Rightarrow> string) \<Rightarrow> sql_error \<Rightarrow> ('stmt, 'typ) lexer \<Rightarrow> ('stmt, 'typ) lexer option" where
  "setErr text_of err l = populateErrorDetails text_of (withCandidateCode err code_Syntax) l"

definition lexer_Error ::
  "(sql_error \<Rightarrow> string) \<Rightarrow> string \<Rightarrow> ('stmt, 'typ) lexer \<Rightarrow> ('stmt, 'typ) lexer option" where
  "lexer_Error text_of e l =
     populateErrorDetails text_of (withCandidateCode (New (TrimPrefix e ''syntax error: '')) code_Syntax) l"

text \<open>\<open>Unimplemented\<close>, \<open>UnimplementedWithIssue\<close> and \<open>UnimplementedWithIssueDetail\<close>.\<close>

definition lexer_Unimplemented ::
  "(sql_error \<Rightarrow> string) \<Rightarrow> nat \<Rightarrow> string \<Rightarrow> ('stmt, 'typ) lexer \<Rightarrow> ('stmt, 'typ) lexer option" where
  "lexer_Unimplemented text_of issue detail l =
     populateErrorDetails text_of (unimplementedInternal issue detail ''this syntax'') l"

definition PurposelyUnimplemented ::
  "(sql_error \<Rightarrow> string) \<Rightarrow> string \<Rightarrow> string \<Rightarrow> ('stmt, 'typ) lexer \<Rightarrow> ('stmt, 'typ) lexer option" where
  "PurposelyUnimplemented text_of feature reason l =
     populateErrorDetails text_of
       (WithHint (WithTelemetry (pgerror_New code_Syntax ''unimplemented: this syntax'')
          [''sql.purposely_unimplemented.'' @ feature]) reason) l"

subsection \<open>Help texts\<close>

text \<open>\<open>unicode.IsSpace\<close>, \<open>utf8.DecodeLastRuneInString\<close> and \<open>strings.TrimSpace\<close>.\<close>

definition unicode_IsSpace :: "nat \<Rightarrow> bool" where
  "unicode_IsSpace r \<longleftrightarrow>
     r \<in> {9, 10, 11, 12, 13, 32, 0x85, 0xA0, 0x1680, 0x2028, 0x2029, 0x202F, 0x205F, 0x3000} \<or>
     (0x2000 \<le> r \<and> r \<le> 0x200A)"

text \<open>The search back over at most three bytes for the start of the last rune.\<close>

fun last_rune_start :: "string \<Rightarrow> nat \<Rightarrow> nat \<Rightarrow> nat" where
  "last_rune_start s 0 start = start"
| "last_rune_start s (Suc n) start =
     (if start = 0 then 0
      else if is_cont (s ! (start - 1)) then last_rune_start s n (start - 1)
      else start - 1)"

definition DecodeLastRune :: "string \<Rightarrow> nat \<times> nat" where
  "DecodeLastRune s =
     (if s = [] then (RuneError, 0)
      else if byte_val (last s) < RuneSelf then (of_char (last s), 1)
      else
        (let start = last_rune_start s 3 (length s - 1);
             (r, n) = DecodeRune (drop start s)
         in if start + n \<noteq> length s then (RuneError, 1) else (r, n)))"

function TrimLeftSpace :: "string \<Rightarrow> string" where
  "TrimLeftSpace s =
     (if s = [] then []
      else (let (r, n) = DecodeRune s in
            if unicode_IsSpace r then TrimLeftSpace (drop n s) else s))"
  by pat_completeness auto
termination
proof (relation "measure length", goal_cases)
  case (2 s x r n)
  then show ?case using DecodeRune_width(1) [of s] by (cases "DecodeRune s") auto
qed simp

declare TrimLeftSpace.simps [simp del]

lemma last_rune_start_le: "last_rune_start s n start \<le> start"
  by (induction s n start rule: last_rune_start.induct) auto

lemma DecodeLastRune_width: "s \<noteq> [] \<Longrightarrow> 1 \<le> snd (DecodeLastRune s)"
  using last_rune_start_le [of s 3 "length s - 1"]
    DecodeRune_width(1) [of "drop (last_rune_start s 3 (length s - 1)) s"]
  by (cases s) (auto simp: DecodeLastRune_def Let_def simp del: last.simps split: prod.splits)

function TrimRightSpace :: "string \<Rightarrow> string" where
  "TrimRightSpace s =
     (if s = [] then []
      else (let (r, n) = DecodeLastRune s in
            if unicode_IsSpace r then TrimRightSpace (take (length s - n) s) else s))"
  by pat_completeness auto
termination
proof (relation "measure length", goal_cases)
  case (2 s x r n)
  then show ?case using DecodeLastRune_width [of s] by (cases "DecodeLastRune s") auto
qed simp

declare TrimRightSpace.simps [simp del]

definition TrimSpace :: "string \<Rightarrow> string" where
  "TrimSpace s = TrimRightSpace (TrimLeftSpace s)"

record HelpMessage =
  Command :: string
  Function :: string
  Category :: string
  ShortDescription :: string
  Text :: string
  SeeAlso :: string

abbreviation nl :: string where "nl \<equiv> [CHR 0x0A]"

definition help_Format :: "HelpMessage \<Rightarrow> string" where
  "help_Format h =
     (if Command h \<noteq> [] then ''Command:     '' @ Command h @ nl else []) @
     (if Function h \<noteq> [] then ''Function:    '' @ Function h @ nl else []) @
     (if ShortDescription h \<noteq> [] then ''Description: '' @ ShortDescription h @ nl else []) @
     (if Category h \<noteq> [] then ''Category:    '' @ Category h @ nl else []) @
     (if Command h \<noteq> [] then ''Syntax:'' @ nl else []) @
     TrimSpace (Text h) @ nl @
     (if SeeAlso h \<noteq> [] then nl @ ''See also:'' @ nl @ ''  '' @ SeeAlso h @ nl else [])"

definition help_String :: "HelpMessage \<Rightarrow> string" where
  "help_String h = ''help:'' @ nl @ help_Format h"

definition populateHelpMsg :: "string \<Rightarrow> sql_error \<Rightarrow> sql_error" where
  "populateHelpMsg msg err = WithHint (Wrapped err ''help token in input'') msg"

definition SetHelp :: "HelpMessage \<Rightarrow> ('stmt, 'typ) lexer \<Rightarrow> ('stmt, 'typ) lexer" where
  "SetHelp msg l =
     (let err = (case lastError l of
                   None \<Rightarrow> withCandidateCode (New ''help request'') code_Syntax
                 | Some e \<Rightarrow> e)
      in if sym_id (lastToken l) = T_HELPTOKEN then
           l\<lparr>lastError := Some (populateHelpMsg (help_String msg) err)\<rparr>
         else if Command msg \<noteq> [] then
           l\<lparr>lastError := Some (WithHint err (''try '' @ [CHR 0x5C] @ ''h '' @ Command msg))\<rparr>
         else l\<lparr>lastError := Some (WithHint err (''try '' @ [CHR 0x5C] @ ''hf '' @ Function msg))\<rparr>)"

text \<open>
  \<open>helpWith\<close>, with the table of messages and the overview as parameters (both come from the
  generated \<open>help_messages.go\<close>). A missing key gives the zero body.
\<close>

definition helpWith ::
  "(string \<Rightarrow> HelpMessage option) \<Rightarrow> string \<Rightarrow> string \<Rightarrow> ('stmt, 'typ) lexer \<Rightarrow> ('stmt, 'typ) lexer" where
  "helpWith table AllHelp helpText l =
     (if helpText = [] then
        l\<lparr>lastError := Some (populateHelpMsg (''help:'' @ nl @ AllHelp)
             (withCandidateCode (New ''help upon syntax error'') code_Syntax))\<rparr>
      else
        (let body = (case table helpText of
                       Some b \<Rightarrow> b
                     | None \<Rightarrow> \<lparr>Command = [], Function = [], Category = [], ShortDescription = [],
                                Text = [], SeeAlso = []\<rparr>)
         in SetHelp (body\<lparr>Command := helpText, Function := []\<rparr>) l))"

subsection \<open>Runs of the parser\<close>

text \<open>
  The calls the grammar's actions and the parser's driver make on the lexer; \<open>lval\<close> of \<open>Lex\<close>
  is the parser's own. \<open>None\<close> is a panic.
\<close>

datatype 'stmt lexer_call =
    CallLex
  | CallNewAnnotation
  | CallSetStmt 'stmt
  | CallUpdateNumPlaceholders "16 word"
  | CallSetErr sql_error
  | CallError string
  | CallUnimplemented nat string
  | CallPurposelyUnimplemented string string
  | CallSetHelp HelpMessage
  | CallHelpAll string

fun lexer_step ::
  "(sql_error \<Rightarrow> string) \<Rightarrow> 'stmt lexer_call \<Rightarrow> ('stmt, 'typ) lexer \<Rightarrow> ('stmt, 'typ) lexer option" where
  "lexer_step text_of CallLex l = Some (fst (Lex l zero_sym))"
| "lexer_step text_of CallNewAnnotation l = Some (fst (NewAnnotation l))"
| "lexer_step text_of (CallSetStmt st) l = Some (SetStmt st l)"
| "lexer_step text_of (CallUpdateNumPlaceholders idx) l = Some (UpdateNumPlaceholders idx l)"
| "lexer_step text_of (CallSetErr e) l = setErr text_of e l"
| "lexer_step text_of (CallError m) l = lexer_Error text_of m l"
| "lexer_step text_of (CallUnimplemented issue d) l = lexer_Unimplemented text_of issue d l"
| "lexer_step text_of (CallPurposelyUnimplemented f r) l = PurposelyUnimplemented text_of f r l"
| "lexer_step text_of (CallSetHelp m) l = Some (SetHelp m l)"
| "lexer_step text_of (CallHelpAll h) l = Some (helpWith (\<lambda>_. None) h [] l)"

fun lexer_run ::
  "(sql_error \<Rightarrow> string) \<Rightarrow> 'stmt lexer_call list \<Rightarrow> ('stmt, 'typ) lexer \<Rightarrow> ('stmt, 'typ) lexer option" where
  "lexer_run text_of [] l = Some l"
| "lexer_run text_of (c # cs) l = Option.bind (lexer_step text_of c l) (lexer_run text_of cs)"

subsection \<open>The calls keep the statement in place and do not panic\<close>

text \<open>All token positions lie in the text, which is shorter than \<open>2\<^sup>3\<^sup>1\<close> bytes.\<close>

definition positions_ok :: "string \<Rightarrow> sqlSymType list \<Rightarrow> bool" where
  "positions_ok text tokens \<longleftrightarrow>
     length text < 2 ^ 31 \<and>
     (\<forall>t \<in> set tokens. 0 \<le> sint (sym_pos t) \<and> sint (sym_pos t) \<le> int (length text))"

lemma lastToken_position:
  assumes "positions_ok (lex_in l) (lex_tokens l)"
  shows "0 \<le> sint (sym_pos (lastToken l)) \<and> sint (sym_pos (lastToken l)) \<le> int (length (lex_in l))"
proof -
  have "sint (word_of_nat (length (lex_in l)) :: 32 word) = int (length (lex_in l))"
    using assms by (simp add: positions_ok_def signed_of_nat signed_take_bit_int_eq_self)
  then show ?thesis
    using assms by (auto simp: lastToken_def zero_sym_def positions_ok_def)
qed

lemma takeWhile_neq_length: "x \<in> set xs \<Longrightarrow> length (takeWhile (\<lambda>y. y \<noteq> x) xs) < length xs"
  by (induction xs) auto

lemma takeWhile_neq_all: "x \<notin> set xs \<Longrightarrow> takeWhile (\<lambda>y. y \<noteq> x) xs = xs"
  by (induction xs) auto

lemma LastIndexByte_column:
  "int (length s) - (LastIndexByte s c + 1) = int (length (takeWhile (\<lambda>x. x \<noteq> c) (rev s)))"
  by (auto simp: LastIndexByte_def takeWhile_neq_all)

lemma IndexByte_take:
  "take (nat (if IndexByte s c = - 1 then int (length s) else IndexByte s c)) s = takeWhile (\<lambda>x. x \<noteq> c) s"
  by (auto simp: IndexByte_def takeWhile_eq_take [symmetric] takeWhile_neq_all split: if_splits)

lemma error_detail_lines:
  assumes "p \<le> length text"
  shows "error_detail text (int p) =
    Some (''source SQL:'' @ nl @ take p text @ takeWhile (\<lambda>c. c \<noteq> CHR 0x0A) (drop p text) @ nl @
          replicate (length (takeWhile (\<lambda>c. c \<noteq> CHR 0x0A) (rev (take p text)))) CHR '' '' @ ''^'')"
proof -
  let ?ix = "IndexByte (drop p text) CHR 0x0A"
  let ?i = "if ?ix = - 1 then int (length text) else ?ix + int p"
  have col: "int p - (LastIndexByte (take p text) CHR 0x0A + 1)
      = int (length (takeWhile (\<lambda>x. x \<noteq> CHR 0x0A) (rev (take p text))))"
    using LastIndexByte_column [of "take p text" "CHR 0x0A"] assms by simp
  have i0: "?ix = - 1 \<or> 0 \<le> ?ix" by (simp add: IndexByte_def)
  have "nat ?i = p + nat (if ?ix = - 1 then int (length (drop p text)) else ?ix)"
    using assms i0 by (cases "?ix = - 1") (simp_all add: nat_add_distrib)
  then have "take (nat ?i) text = take p text @ takeWhile (\<lambda>x. x \<noteq> CHR 0x0A) (drop p text)"
    by (simp only: take_add IndexByte_take)
  with col assms show ?thesis
    unfolding error_detail_def by (simp add: Let_def)
qed

text \<open>What every call keeps, and that none panics.\<close>

lemma populateErrorDetails_total:
  assumes "positions_ok (lex_in l) (lex_tokens l)"
  shows "\<exists>e. populateErrorDetails text_of err l = Some (l\<lparr>lastError := Some e\<rparr>)"
proof -
  let ?p = "sint (sym_pos (lastToken l))"
  obtain d where "error_detail (lex_in l) ?p = Some d"
    using error_detail_lines [of "nat ?p" "lex_in l"] lastToken_position [OF assms] by auto
  then show ?thesis unfolding populateErrorDetails_def Let_def by auto
qed

definition same_statement :: "('stmt, 'typ) lexer \<Rightarrow> ('stmt, 'typ) lexer \<Rightarrow> bool" where
  "same_statement l l' \<longleftrightarrow> lex_in l' = lex_in l \<and> lex_tokens l' = lex_tokens l \<and> nakedIntType l' = nakedIntType l"

lemma lexer_step_total:
  assumes "positions_ok (lex_in l) (lex_tokens l)"
  shows "\<exists>l'. lexer_step text_of c l = Some l' \<and> same_statement l l'"
proof -
  have pe: "\<exists>l'. populateErrorDetails text_of err l = Some l' \<and> same_statement l l'" for err
    using populateErrorDetails_total [OF assms, of text_of err] by (auto simp: same_statement_def)
  show ?thesis
    by (cases c)
      (simp_all add: pe setErr_def lexer_Error_def lexer_Unimplemented_def PurposelyUnimplemented_def,
       auto simp: same_statement_def Lex_def NewAnnotation_def SetStmt_def UpdateNumPlaceholders_def
         SetHelp_def helpWith_def Let_def)
qed

lemma lexer_run_total:
  assumes "positions_ok (lex_in l) (lex_tokens l)"
  shows "\<exists>l'. lexer_run text_of cs l = Some l' \<and> same_statement l l'"
  using assms
proof (induction cs arbitrary: l)
  case (Cons c cs)
  obtain l1 where "lexer_step text_of c l = Some l1" "same_statement l l1"
    using lexer_step_total [OF Cons.prems] by blast
  moreover from this(2) Cons.prems have "positions_ok (lex_in l1) (lex_tokens l1)"
    by (simp add: same_statement_def)
  ultimately show ?case using Cons.IH [of l1] by (auto simp: same_statement_def)
qed (simp add: same_statement_def)

subsection \<open>Effects of a run\<close>

fun placeholder_counts :: "'stmt lexer_call \<Rightarrow> int set" where
  "placeholder_counts (CallUpdateNumPlaceholders idx) = {uint idx + 1}"
| "placeholder_counts c = {}"

lemma populateErrorDetails_fields:
  assumes "populateErrorDetails text_of err l = Some l'"
  shows "\<exists>e. l' = l\<lparr>lastError := Some e\<rparr>"
  using assms unfolding populateErrorDetails_def Let_def by auto

lemma lexer_step_effects:
  assumes "lexer_step text_of c l = Some l'"
  shows "numPlaceholders l' = Max (insert (numPlaceholders l) (placeholder_counts c)) \<and>
    numAnnotations l' = numAnnotations l + (if c = CallNewAnnotation then 1 else 0) \<and>
    lastPos l' = lastPos l + (if c = CallLex then 1 else 0)"
  using assms
  by (cases c) (auto simp: Lex_def NewAnnotation_def SetStmt_def UpdateNumPlaceholders_def SetHelp_def helpWith_def
      Let_def setErr_def lexer_Error_def lexer_Unimplemented_def PurposelyUnimplemented_def
      dest!: populateErrorDetails_fields split: if_splits)

lemma Max_insert_Max:
  fixes a :: int
  assumes "finite A" "finite B"
  shows "Max (insert (Max (insert a A)) B) = Max (insert a (A \<union> B))"
proof (cases "B = {}")
  case False
  have "Max (insert a A \<union> B) = max (Max (insert a A)) (Max B)"
    by (rule Max_Un) (use assms False in auto)
  moreover have "Max (insert (Max (insert a A)) B) = max (Max (insert a A)) (Max B)"
    by (rule Max_insert) (use assms False in auto)
  ultimately show ?thesis by simp
qed simp

lemma lexer_run_effects:
  assumes "lexer_run text_of cs l = Some l'"
  shows "numPlaceholders l' = Max (insert (numPlaceholders l) (\<Union>c \<in> set cs. placeholder_counts c))"
    and "numAnnotations l' = numAnnotations l + of_nat (count_list cs CallNewAnnotation)"
    and "lastPos l' = lastPos l + int (count_list cs CallLex)"
proof -
  have fin: "finite (placeholder_counts c)" for c :: "'a lexer_call" by (cases c) auto
  have "numPlaceholders l' = Max (insert (numPlaceholders l) (\<Union>c \<in> set cs. placeholder_counts c)) \<and>
    numAnnotations l' = numAnnotations l + of_nat (count_list cs CallNewAnnotation) \<and>
    lastPos l' = lastPos l + int (count_list cs CallLex)"
    using assms
  proof (induction cs arbitrary: l)
    case (Cons c cs)
    obtain l1 where st: "lexer_step text_of c l = Some l1" and r: "lexer_run text_of cs l1 = Some l'"
      using Cons.prems by (cases "lexer_step text_of c l") auto
    have "finite (\<Union>c \<in> set cs. placeholder_counts c)" using fin by blast
    note mx = Max_insert_Max [OF fin this]
    show ?case
      using Cons.IH [OF r] lexer_step_effects [OF st] by (auto simp: mx)
  qed auto
  then show "numPlaceholders l' = Max (insert (numPlaceholders l) (\<Union>c \<in> set cs. placeholder_counts c))"
    "numAnnotations l' = numAnnotations l + of_nat (count_list cs CallNewAnnotation)"
    "lastPos l' = lastPos l + int (count_list cs CallLex)" by auto
qed

text \<open>The ids the parser receives from successive calls of \<open>Lex\<close>.\<close>

fun lex_ids :: "nat \<Rightarrow> ('stmt, 'typ) lexer \<Rightarrow> int list" where
  "lex_ids 0 l = []"
| "lex_ids (Suc n) l = (case Lex l zero_sym of (l', lval, r) \<Rightarrow> r # lex_ids n l')"

fun lookahead_ids :: "int list \<Rightarrow> int list" where
  "lookahead_ids [] = []"
| "lookahead_ids [t] = [lookahead_id t 0]"
| "lookahead_ids (t # u # ts) = lookahead_id t u # lookahead_ids (u # ts)"

lemma Lex_result:
  "lastPos l = int i - 1 \<Longrightarrow> Lex l lval = (l\<lparr>lastPos := int i\<rparr>, snd (Lex l lval))"
  "lastPos l = int i - 1 \<Longrightarrow> length (lex_tokens l) \<le> i \<Longrightarrow> snd (snd (Lex l lval)) = 0"
  "lastPos l = int i - 1 \<Longrightarrow> map sym_id (drop i (lex_tokens l)) = [t] \<Longrightarrow>
     snd (snd (Lex l lval)) = lookahead_id t 0"
  "lastPos l = int i - 1 \<Longrightarrow> map sym_id (drop i (lex_tokens l)) = t # u # ts \<Longrightarrow>
     snd (snd (Lex l lval)) = lookahead_id t u"
proof -
  assume p: "lastPos l = int i - 1"
  then show "Lex l lval = (l\<lparr>lastPos := int i\<rparr>, snd (Lex l lval))"
    by (simp add: Lex_def Let_def)
  show "length (lex_tokens l) \<le> i \<Longrightarrow> snd (snd (Lex l lval)) = 0"
    using p by (simp add: Lex_def Let_def)
  have len: "length (lex_tokens l) = i + length xs" "i < length (lex_tokens l)"
    if "map sym_id (drop i (lex_tokens l)) = xs" "xs \<noteq> []" for xs
    using arg_cong [OF that(1), of length] that(2) by (cases xs; simp)+
  have at: "sym_id (lex_tokens l ! (i + k)) = xs ! k"
    if "map sym_id (drop i (lex_tokens l)) = xs" "k < length xs" for xs k
    using that by auto
  show "snd (snd (Lex l lval)) = lookahead_id t 0" if "map sym_id (drop i (lex_tokens l)) = [t]"
    using len [OF that] at [OF that, of 0] p
    by (auto simp: Lex_def Let_def lookahead_id_def)
  show "snd (snd (Lex l lval)) = lookahead_id t u" if "map sym_id (drop i (lex_tokens l)) = t # u # ts"
    using len [OF that] at [OF that, of 0] at [OF that, of 1] p
    by (auto simp: Lex_def Let_def lookahead_id_def nat_add_distrib)
qed

lemma lex_ids_Suc:
  assumes "lastPos l = int i - 1"
  shows "lex_ids (Suc n) l = snd (snd (Lex l zero_sym)) # lex_ids n (l\<lparr>lastPos := int (Suc i) - 1\<rparr>)"
  using Lex_result(1) [OF assms, of zero_sym] by (cases "Lex l zero_sym") auto

lemma lex_ids_exhausted:
  "lastPos l = int i - 1 \<Longrightarrow> length (lex_tokens l) \<le> i \<Longrightarrow> lex_ids n l = replicate n 0"
proof (induction n arbitrary: l i)
  case (Suc n)
  then show ?case
    using Suc.IH [of "l\<lparr>lastPos := int (Suc i) - 1\<rparr>" "Suc i"]
    by (simp add: lex_ids_Suc [OF Suc.prems(1)] Lex_result(2) del: lex_ids.simps)
qed simp

lemma lex_ids_from:
  assumes "lastPos l = int i - 1" "map sym_id (drop i (lex_tokens l)) = ids"
  shows "lex_ids (length ids + n) l = lookahead_ids ids @ replicate n 0"
  using assms
proof (induction ids arbitrary: l i rule: lookahead_ids.induct)
  case 1
  then show ?case by (simp add: lex_ids_exhausted)
next
  case (2 t)
  have "length (lex_tokens l) \<le> Suc i" using arg_cong [OF "2.prems"(2), of length] by simp
  then show ?case
    using lex_ids_exhausted [of "l\<lparr>lastPos := int (Suc i) - 1\<rparr>" "Suc i" n]
    by (simp add: lex_ids_Suc [OF "2.prems"(1)] Lex_result(3) [OF "2.prems"] del: lex_ids.simps)
next
  case (3 t u ts)
  have "map sym_id (drop (Suc i) (lex_tokens l)) = u # ts"
    using arg_cong [OF "3.prems"(2), of tl] by (simp add: drop_Suc drop_tl flip: map_tl tl_drop)
  then show ?case
    using "3.IH" [of "l\<lparr>lastPos := int (Suc i) - 1\<rparr>" "Suc i"]
    by (simp add: lex_ids_Suc [OF "3.prems"(1)] Lex_result(4) [OF "3.prems"] del: lex_ids.simps)
qed

subsection \<open>Properties\<close>


text \<open>
  C20: after any run of the parser the lexer's \<open>numPlaceholders\<close> is the highest placeholder
  number recorded (0 if there is none), and \<open>numAnnotations\<close> the number of annotations given
  out (modulo \<open>2\<^sup>3\<^sup>2\<close>).
\<close>

theorem lexer_run_counts:
  assumes "lexer_run text_of cs (lexer_init sql tokens typ) = Some l"
  shows "numPlaceholders l = Max (insert 0 (\<Union>c \<in> set cs. placeholder_counts c)) \<and>
    numAnnotations l = of_nat (count_list cs CallNewAnnotation)"
  using lexer_run_effects(1,2) [OF assms] by (simp add: lexer_init_def)

theorem lexer_run_counts_witness:
  "\<exists>l. lexer_run (\<lambda>_. []) [CallUpdateNumPlaceholders 4, CallNewAnnotation, CallUpdateNumPlaceholders 1]
         (lexer_init ''x'' [] ()) = Some (l :: (unit, unit) lexer) \<and>
       numPlaceholders l = Max (insert 0 (\<Union>c \<in> set [CallUpdateNumPlaceholders 4, CallNewAnnotation,
          CallUpdateNumPlaceholders 1 :: unit lexer_call]. placeholder_counts c)) \<and>
       numAnnotations l = of_nat (count_list [CallUpdateNumPlaceholders 4, CallNewAnnotation,
          CallUpdateNumPlaceholders 1 :: unit lexer_call] CallNewAnnotation)"
proof -
  obtain l :: "(unit, unit) lexer" where
    "lexer_run (\<lambda>_. []) [CallUpdateNumPlaceholders 4, CallNewAnnotation, CallUpdateNumPlaceholders 1]
       (lexer_init ''x'' [] ()) = Some l"
    by simp
  from this lexer_run_counts [OF this] show ?thesis by blast
qed

text \<open>
  C24: the detail of a syntax error shows the text to the end of the line of the offending
  position, and a caret in the column of that position.
\<close>

theorem error_detail_caret:
  assumes "p \<le> length text"
  shows "error_detail text (int p) =
    Some (''source SQL:'' @ nl @ take p text @ takeWhile (\<lambda>c. c \<noteq> CHR 0x0A) (drop p text) @ nl @
          replicate (length (takeWhile (\<lambda>c. c \<noteq> CHR 0x0A) (rev (take p text)))) CHR '' '' @ ''^'')"
  using assms by (rule error_detail_lines)

theorem error_detail_caret_witness:
  "error_detail (''a'' @ nl @ ''bcd'' @ nl @ ''e'') (int 3) =
     Some (''source SQL:'' @ nl @ ''a'' @ nl @ ''bcd'' @ nl @ '' ^'')"
  using error_detail_caret [of 3 "''a'' @ nl @ ''bcd'' @ nl @ ''e''"] by simp


end
