(* ===== verification/Parse.thy ===== *)
theory Parse
  imports Lexer
begin

text \<open>
  The parser's driver, \<open>parser/parse.go\<close>: it cuts the input into statements at the semicolon
  tokens, runs the generated parser on the tokens of each, and collects the statements. The
  generated parser is a parameter: what calls it makes on the lexer and what it returns, as a
  function of the lexer it is given.
\<close>

subsection \<open>Cutting out one statement\<close>

text \<open>A slice expression \<open>s[i:j]\<close> with the bounds check of the language; \<open>None\<close> is the panic.\<close>

definition go_slice :: "string \<Rightarrow> int \<Rightarrow> int \<Rightarrow> string option" where
  "go_slice s i j = (if 0 \<le> i \<and> i \<le> j \<and> j \<le> int (length s) then Some (slice s (nat i) (nat j)) else None)"

function scanOneStmt_first :: "lex_env \<Rightarrow> scanner \<Rightarrow> sqlSymType \<Rightarrow> scanner \<times> sqlSymType" where
  "scanOneStmt_first env s lval =
     (let (s', lval') = scan env s lval in
      if sym_id lval' = 0 then (s', lval')
      else if sym_id lval' \<noteq> byte_val CHR '';'' then (s', lval')
      else scanOneStmt_first env s' lval')"
  by pat_completeness auto
termination
  by (relation "measure (\<lambda>(env, s, lval). length (inp s) - spos s)")
    (auto intro: scan_decreases [OF sym] split: prod.splits)

declare scanOneStmt_first.simps [simp del]

text \<open>The loop over the rest of the statement: the text, its tokens, and whether the input is done.\<close>

function scanOneStmt_rest ::
  "lex_env \<Rightarrow> 32 word \<Rightarrow> sqlSymType list \<Rightarrow> scanner \<Rightarrow> sqlSymType
   \<Rightarrow> (scanner \<times> string \<times> sqlSymType list \<times> bool) option" where
  "scanOneStmt_rest env startPos tokens s lval =
     (if sym_id lval = T_ERROR then
        map_option (\<lambda>sql. (s, sql, tokens, True)) (go_slice (inp s) (sint startPos) (int (length (inp s))))
      else
        (let posBeforeScan = spos s; (s', lval') = scan env s lval in
         if sym_id lval' = 0 \<or> sym_id lval' = byte_val CHR '';'' then
           map_option (\<lambda>sql. (s', sql, tokens, sym_id lval' = 0))
             (go_slice (inp s') (sint startPos) (int posBeforeScan))
         else
           (let lval2 = lval'\<lparr>sym_pos := sym_pos lval' - startPos\<rparr> in
            scanOneStmt_rest env startPos (tokens @ [lval2]) s' lval2)))"
  by pat_completeness auto
termination
  by (relation "measure (\<lambda>(env, p, t, s, lval). length (inp s) - spos s)")
    (auto dest: scan_decreases)

declare scanOneStmt_rest.simps [simp del]

definition scanOneStmt ::
  "lex_env \<Rightarrow> scanner \<Rightarrow> (scanner \<times> string \<times> sqlSymType list \<times> bool) option" where
  "scanOneStmt env s =
     (let (s1, lval) = scanOneStmt_first env s zero_sym in
      if sym_id lval = 0 then Some (s1, [], [], True)
      else
        (let startPos = sym_pos lval; lval0 = lval\<lparr>sym_pos := 0\<rparr> in
         scanOneStmt_rest env startPos [lval0] s1 lval0))"

subsection \<open>Progress\<close>

lemma scanOneStmt_first_result:
  "scanOneStmt_first env s lval = (s', lval') \<Longrightarrow>
   \<exists>s0 l0. moves s s0 \<and> scan env s0 l0 = (s', lval') \<and> sym_id lval' \<noteq> byte_val CHR '';''"
proof (induction env s lval rule: scanOneStmt_first.induct)
  case (1 env s lval)
  obtain s1 l1 where n: "scan env s lval = (s1, l1)" by (cases "scan env s lval")
  note pr = "1.prems" [unfolded scanOneStmt_first.simps [of env s lval] n Let_def split]
  show ?case
  proof (cases "sym_id l1 = byte_val CHR '';''")
    case True
    then obtain s0 l0 where "moves s1 s0" "scan env s0 l0 = (s', lval')" "sym_id lval' \<noteq> byte_val CHR '';''"
      using pr "1.IH" [OF n [symmetric] refl] by (auto split: if_splits)
    then show ?thesis using scan_moves [OF n] by (blast intro: moves_trans)
  next
    case False
    then show ?thesis using pr n by (auto split: if_splits)
  qed
qed

lemma scanOneStmt_rest_moves:
  "scanOneStmt_rest env p ts s lval = Some (s', sql, ts', done) \<Longrightarrow> moves s s'"
proof (induction env p ts s lval rule: scanOneStmt_rest.induct)
  case (1 env p ts s lval)
  obtain s1 l1 where n: "scan env s lval = (s1, l1)" by (cases "scan env s lval")
  note pr = "1.prems" [unfolded scanOneStmt_rest.simps [of env p ts s lval] n Let_def split]
  show ?case
    using pr "1.IH" [OF _ refl n [symmetric] refl _ refl] scan_moves [OF n]
    by (auto split: if_splits intro: moves_trans)
qed

lemma scanOneStmt_decreases:
  assumes "scanOneStmt env s = Some (s', sql, ts, False)"
  shows "length (inp s') - spos s' < length (inp s) - spos s"
proof -
  obtain s1 lval where f: "scanOneStmt_first env s zero_sym = (s1, lval)"
    by (cases "scanOneStmt_first env s zero_sym")
  obtain s0 l0 where f0: "moves s s0" "scan env s0 l0 = (s1, lval)"
    using scanOneStmt_first_result [OF f] by blast
  have id: "sym_id lval \<noteq> 0" using assms by (auto simp: scanOneStmt_def f Let_def split: if_splits)
  have "moves s1 s'"
    using assms id by (auto simp: scanOneStmt_def f Let_def intro: scanOneStmt_rest_moves)
  then show ?thesis
    using f0(1) scan_moves [OF f0(2)] scan_consumes(1,2) [OF f0(2) id] by (auto simp: moves_def)
qed

subsection \<open>Parsing\<close>

record 'stmt Statement =
  AST :: "'stmt option"
  SQL :: string
  NumPlaceholders :: int
  NumAnnotations :: "32 word"

text \<open>
  What the driver takes from outside the repository's hand-written code: the generated parser
  (its calls and its result), the \<open>Error\<close> method and the telemetry keys of the errors library.
\<close>

record ('stmt, 'typ) parser_env =
  yacc :: "('stmt, 'typ) lexer \<Rightarrow> 'stmt lexer_call list \<times> int"
  error_text :: "sql_error \<Rightarrow> string"
  GetTelemetryKeys :: "sql_error \<Rightarrow> string list"

text \<open>\<open>None\<close> is a panic, \<open>Inl\<close> an error.\<close>

definition parse ::
  "('stmt, 'typ) parser_env \<Rightarrow> string \<Rightarrow> sqlSymType list \<Rightarrow> 'typ \<Rightarrow> (sql_error + 'stmt Statement) option" where
  "parse penv sql tokens typ =
     (let l0 = lexer_init sql tokens typ; (calls, rc) = yacc penv l0 in
      case lexer_run (error_text penv) calls l0 of
        None \<Rightarrow> None
      | Some l \<Rightarrow>
          if rc \<noteq> 0 then
            (case (if lastError l = None then lexer_Error (error_text penv) ''syntax error'' l else Some l) of
               None \<Rightarrow> None
             | Some l1 \<Rightarrow>
                 (case lastError l1 of
                    None \<Rightarrow> None
                  | Some err \<Rightarrow>
                      (let tkeys = GetTelemetryKeys penv err in
                       Some (Inl (if tkeys \<noteq> [] then WithTelemetry err (map ((@) ''syntax.'') tkeys) else err)))))
          else
            Some (Inr \<lparr>AST = stmt l, SQL = sql, NumPlaceholders = numPlaceholders l,
                       NumAnnotations = numAnnotations l\<rparr>))"

function parseWithDepth_loop ::
  "lex_env \<Rightarrow> ('stmt, 'typ) parser_env \<Rightarrow> 'typ \<Rightarrow> 'stmt Statement list \<Rightarrow> scanner
   \<Rightarrow> (sql_error + 'stmt Statement list) option" where
  "parseWithDepth_loop env penv typ stmts s =
     (case scanOneStmt env s of
        None \<Rightarrow> None
      | Some (s', sql, tokens, done) \<Rightarrow>
          (case parse penv sql tokens typ of
             None \<Rightarrow> None
           | Some (Inl err) \<Rightarrow> Some (Inl err)
           | Some (Inr st) \<Rightarrow>
               (let stmts' = (if AST st \<noteq> None then stmts @ [st] else stmts) in
                if done then Some (Inr stmts') else parseWithDepth_loop env penv typ stmts' s')))"
  by pat_completeness auto
termination
  by (relation "measure (\<lambda>(env, penv, typ, stmts, s). length (inp s) - spos s)")
    (auto dest: scanOneStmt_decreases)

declare parseWithDepth_loop.simps [simp del]

definition parseWithDepth ::
  "lex_env \<Rightarrow> ('stmt, 'typ) parser_env \<Rightarrow> string \<Rightarrow> 'typ \<Rightarrow> (sql_error + 'stmt Statement list) option" where
  "parseWithDepth env penv sql typ = parseWithDepth_loop env penv typ [] (makeScanner sql)"

text \<open>\<open>ParseOne\<close>: exactly one statement.\<close>

definition parseOneWithDepth ::
  "lex_env \<Rightarrow> ('stmt, 'typ) parser_env \<Rightarrow> string \<Rightarrow> 'typ \<Rightarrow> (sql_error + 'stmt Statement) option" where
  "parseOneWithDepth env penv sql typ =
     map_option
       (\<lambda>r. case r of
              Inl err \<Rightarrow> Inl err
            | Inr stmts \<Rightarrow>
                if length stmts \<noteq> 1 then
                  Inl (Assertion (New (''expected 1 statement, but found '' @ show_nat (length stmts))))
                else Inr (stmts ! 0))
       (parseWithDepth env penv sql typ)"

subsection \<open>Positions\<close>

lemma go_slice_nat:
  "i \<le> j \<Longrightarrow> j \<le> length s \<Longrightarrow> go_slice s (int i) (int j) = Some (slice s i j)"
  by (simp add: go_slice_def)

lemma sint_word_of_nat: "n < 2 ^ 31 \<Longrightarrow> sint (word_of_nat n :: 32 word) = int n"
  by (simp add: signed_of_nat signed_take_bit_int_eq_self)

text \<open>Token positions relative to a start \<open>p\<close>, below the scanner's position.\<close>

definition rel_positions :: "nat \<Rightarrow> scanner \<Rightarrow> sqlSymType list \<Rightarrow> bool" where
  "rel_positions p s ts \<longleftrightarrow> (\<forall>t \<in> set ts. \<exists>q. sym_pos t = word_of_nat q \<and> p + q < spos s)"

lemma rel_positions_mono: "rel_positions p s ts \<Longrightarrow> spos s \<le> spos s' \<Longrightarrow> rel_positions p s' ts"
  unfolding rel_positions_def by fastforce

lemma rel_positions_ok:
  assumes "rel_positions p s ts" "length text < 2 ^ 31" "spos s \<le> p + length text"
  shows "positions_ok text ts"
  unfolding positions_ok_def
proof (intro conjI ballI)
  fix t assume "t \<in> set ts"
  then obtain q where "sym_pos t = word_of_nat q" "p + q < spos s"
    using assms(1) by (auto simp: rel_positions_def)
  then show "0 \<le> sint (sym_pos t)" "sint (sym_pos t) \<le> int (length text)"
    using assms(2,3) sint_word_of_nat [of q] by auto
qed (fact assms(2))

lemma scanOneStmt_rest_ok:
  assumes "length (inp s) < 2 ^ 31" "startPos = word_of_nat p" "p < spos s" "spos s \<le> length (inp s)"
    "rel_positions p s ts"
  shows "\<exists>s' sql ts' done i j. scanOneStmt_rest env startPos ts s lval = Some (s', sql, ts', done) \<and>
           positions_ok sql ts' \<and> sql = slice (inp s) p j \<and> p \<le> j \<and> j \<le> length (inp s)"
  using assms
proof (induction env startPos ts s lval rule: scanOneStmt_rest.induct)
  case (1 env startPos ts s lval)
  note a = "1.prems"
  have st: "sint startPos = int p" using a sint_word_of_nat by simp
  obtain s1 l1 where n: "scan env s lval = (s1, l1)" by (cases "scan env s lval")
  have m: "inp s1 = inp s" "spos s \<le> spos s1" "spos s1 \<le> length (inp s)"
    using scan_moves [OF n] a(4) by (auto simp: moves_def)
  have len: "length (slice (inp s) p j) = j - p" if "j \<le> length (inp s)" for j
    using that by (simp add: slice_def)
  consider (err) "sym_id lval = T_ERROR"
    | (stop) "sym_id lval \<noteq> T_ERROR" "sym_id l1 = 0 \<or> sym_id l1 = byte_val CHR '';''"
    | (go) "sym_id lval \<noteq> T_ERROR" "\<not> (sym_id l1 = 0 \<or> sym_id l1 = byte_val CHR '';'')" by blast
  then show ?case
  proof cases
    case err
    have "positions_ok (slice (inp s) p (length (inp s))) ts"
      using a len by (intro rel_positions_ok [OF a(5)]) auto
    then show ?thesis
      using err a(3,4) go_slice_nat [of p "length (inp s)" "inp s"]
      unfolding scanOneStmt_rest.simps [of env startPos ts s lval] st by auto
  next
    case stop
    have "positions_ok (slice (inp s) p (spos s)) ts"
      using a len by (intro rel_positions_ok [OF a(5)]) auto
    then show ?thesis
      using stop a(3,4) go_slice_nat [of p "spos s" "inp s"] m
      unfolding scanOneStmt_rest.simps [of env startPos ts s lval] st n Let_def split by auto
  next
    case go
    let ?l = "l1\<lparr>sym_pos := sym_pos l1 - startPos\<rparr>"
    obtain q where q: "sym_pos l1 = word_of_nat q" "spos s \<le> q" "q < spos s1"
      using scan_consumes(3) [OF n] go by blast
    have "rel_positions p s1 (ts @ [?l])"
      unfolding rel_positions_def
    proof (intro ballI)
      fix t assume "t \<in> set (ts @ [?l])"
      then consider "t \<in> set ts" | "t = ?l" by auto
      then show "\<exists>q. sym_pos t = word_of_nat q \<and> p + q < spos s1"
      proof cases
        case 1
        then show ?thesis using a(5) m(2) unfolding rel_positions_def by fastforce
      next
        case 2
        then show ?thesis
          using q a(2,3) by (intro exI [of _ "q - p"]) (simp add: of_nat_diff)
      qed
    qed
    from "1.IH" [OF go(1) refl n [symmetric] refl go(2) refl _ a(2) _ _ this] show ?thesis
      using a(1,3) m go
      unfolding scanOneStmt_rest.simps [of env startPos ts s lval] n Let_def split by simp
  qed
qed

lemma scanOneStmt_ok:
  assumes "length (inp s) < 2 ^ 31" "spos s \<le> length (inp s)"
  shows "\<exists>s' sql ts done i j. scanOneStmt env s = Some (s', sql, ts, done) \<and> positions_ok sql ts \<and>
           sql = slice (inp s) i j \<and> spos s \<le> i \<and> i \<le> j \<and> j \<le> length (inp s) \<and> moves s s'"
proof -
  obtain s1 lval where f: "scanOneStmt_first env s zero_sym = (s1, lval)"
    by (cases "scanOneStmt_first env s zero_sym")
  obtain s0 l0 where f0: "moves s s0" "scan env s0 l0 = (s1, lval)"
    using scanOneStmt_first_result [OF f] by blast
  have m: "moves s s1" using f0(1) scan_moves [OF f0(2)] by (rule moves_trans)
  show ?thesis
  proof (cases "sym_id lval = 0")
    case True
    have "positions_ok [] []" by (simp add: positions_ok_def)
    then show ?thesis
      using True m assms(2) by (auto simp: scanOneStmt_def f slice_def intro!: exI [of _ "spos s"])
  next
    case False
    obtain p where p: "sym_pos lval = word_of_nat p" "spos s0 \<le> p" "p < spos s1"
      using scan_consumes(3) [OF f0(2) False] by blast
    let ?l = "lval\<lparr>sym_pos := 0\<rparr>"
    have "rel_positions p s1 [?l]"
      using p(3) by (auto simp: rel_positions_def intro: exI [of _ 0])
    moreover have "inp s1 = inp s" "spos s1 \<le> length (inp s)" using m assms(2) by (auto simp: moves_def)
    ultimately obtain s' sql ts' dn j where r: "scanOneStmt_rest env (sym_pos lval) [?l] s1 ?l = Some (s', sql, ts', dn)"
      "positions_ok sql ts'" "sql = slice (inp s) p j" "p \<le> j" "j \<le> length (inp s)"
      using scanOneStmt_rest_ok [of s1 "sym_pos lval" p "[?l]" env ?l] assms(1) p(1,3) by auto
    moreover have "moves s s'" using m scanOneStmt_rest_moves [OF r(1)] by (rule moves_trans)
    moreover have "spos s \<le> p" using f0(1) p(2) by (simp add: moves_def)
    ultimately show ?thesis using False by (auto simp: scanOneStmt_def f Let_def)
  qed
qed

subsection \<open>The driver does not panic\<close>

lemma parse_total:
  assumes "positions_ok sql ts"
  shows "\<exists>r. parse penv sql ts typ = Some r"
proof -
  obtain calls rc where y: "yacc penv (lexer_init sql ts typ) = (calls, rc)"
    by (cases "yacc penv (lexer_init sql ts typ)")
  have i: "positions_ok (lex_in (lexer_init sql ts typ)) (lex_tokens (lexer_init sql ts typ))"
    using assms by (simp add: lexer_init_def)
  obtain l where l: "lexer_run (error_text penv) calls (lexer_init sql ts typ) = Some l"
      "same_statement (lexer_init sql ts typ) l"
    using lexer_run_total [OF i] by blast
  then have "positions_ok (lex_in l) (lex_tokens l)" using i by (simp add: same_statement_def)
  then obtain e where e: "lexer_Error (error_text penv) ''syntax error'' l = Some (l\<lparr>lastError := Some e\<rparr>)"
    using populateErrorDetails_total unfolding lexer_Error_def by blast
  show ?thesis
    by (cases "rc = 0"; cases "lastError l") (auto simp: parse_def y l(1) e Let_def)
qed

lemma parseWithDepth_loop_total:
  assumes "length (inp s) < 2 ^ 31" "spos s \<le> length (inp s)"
  shows "\<exists>r. parseWithDepth_loop env penv ty stmts s = Some r"
  using assms
proof (induction env penv ty stmts s rule: parseWithDepth_loop.induct)
  case (1 env penv ty stmts s)
  obtain s' sql ts dn where sc: "scanOneStmt env s = Some (s', sql, ts, dn)" "positions_ok sql ts" "moves s s'"
    using scanOneStmt_ok [OF "1.prems"] by blast
  obtain r where r: "parse penv sql ts ty = Some r" using parse_total [OF sc(2), of penv ty] by blast
  have s': "length (inp s') < 2 ^ 31" "spos s' \<le> length (inp s')"
    using sc(3) "1.prems" by (auto simp: moves_def)
  show ?case
    unfolding parseWithDepth_loop.simps [of env penv ty stmts s] sc(1)
    using r "1.IH" [OF sc(1) refl refl refl _ _ refl _ s'] by (auto simp: Let_def split: sum.split)
qed

subsection \<open>The statements of a text\<close>

text \<open>All the statements, scanned before any is parsed.\<close>

function scan_statements :: "lex_env \<Rightarrow> scanner \<Rightarrow> (string \<times> sqlSymType list) list option" where
  "scan_statements env s =
     (case scanOneStmt env s of
        None \<Rightarrow> None
      | Some (s', sql, tokens, done) \<Rightarrow>
          if done then Some [(sql, tokens)] else map_option ((#) (sql, tokens)) (scan_statements env s'))"
  by pat_completeness auto
termination
  by (relation "measure (\<lambda>(env, s). length (inp s) - spos s)") (auto dest: scanOneStmt_decreases)

declare scan_statements.simps [simp del]

fun parse_all ::
  "('stmt, 'typ) parser_env \<Rightarrow> 'typ \<Rightarrow> 'stmt Statement list \<Rightarrow> (string \<times> sqlSymType list) list
   \<Rightarrow> (sql_error + 'stmt Statement list) option" where
  "parse_all penv ty stmts [] = Some (Inr stmts)"
| "parse_all penv ty stmts ((sql, tokens) # gs) =
     (case parse penv sql tokens ty of
        None \<Rightarrow> None
      | Some (Inl err) \<Rightarrow> Some (Inl err)
      | Some (Inr st) \<Rightarrow> parse_all penv ty (if AST st \<noteq> None then stmts @ [st] else stmts) gs)"

lemma parseWithDepth_loop_parse_all:
  assumes "scan_statements env s = Some gs"
  shows "parseWithDepth_loop env penv ty stmts s = parse_all penv ty stmts gs"
  using assms
proof (induction env s arbitrary: gs stmts rule: scan_statements.induct)
  case (1 env s)
  obtain s' sql ts dn where sc: "scanOneStmt env s = Some (s', sql, ts, dn)"
    using "1.prems" by (auto simp: scan_statements.simps [of env s] split: option.splits)
  note pr = "1.prems" [unfolded scan_statements.simps [of env s] sc]
  show ?case
  proof (cases dn)
    case True
    then show ?thesis
      using pr sc unfolding parseWithDepth_loop.simps [of env penv ty stmts s]
      by (auto simp: Let_def split: option.split sum.split)
  next
    case False
    then obtain gs' where "scan_statements env s' = Some gs'" "gs = (sql, ts) # gs'"
      using pr by auto
    then show ?thesis
      using "1.IH" [OF sc refl refl refl False] sc False
      unfolding parseWithDepth_loop.simps [of env penv ty stmts s]
      by (auto simp: Let_def split: option.split sum.split)
  qed
qed

text \<open>The ids of the tokens from a state on, and the segments between semicolons.\<close>

definition token_ids :: "lex_env \<Rightarrow> scanner \<Rightarrow> int list" where
  "token_ids env s = map (sym_id \<circ> fst) (sql.tokens env s)"

fun segments :: "int list \<Rightarrow> int list list" where
  "segments [] = [[]]"
| "segments (x # xs) =
     (if x = byte_val CHR '';'' then [] # segments xs
      else (case segments xs of g # gs \<Rightarrow> (x # g) # gs | [] \<Rightarrow> [[x]]))"

lemma segments_split:
  "segments xs = takeWhile (\<lambda>x. x \<noteq> 59) xs #
     (if 59 \<in> set xs then segments (tl (dropWhile (\<lambda>x. x \<noteq> 59) xs)) else [])"
  by (induction xs) auto

abbreviation nonempty :: "int list list \<Rightarrow> int list list" where
  "nonempty \<equiv> filter (\<lambda>g. g \<noteq> [])"

lemma nonempty_dropWhile: "nonempty (segments (dropWhile (\<lambda>x. x = 59) xs)) = nonempty (segments xs)"
  by (induction xs) auto

lemma set_tl_dropWhile: "set (tl (dropWhile P xs)) \<subseteq> set xs"
  by (induction xs) auto

lemma token_ids_step:
  assumes "scan env s lval = (s', lval')"
  shows "token_ids env s = (if sym_id lval' = 0 then [] else sym_id lval' # token_ids env s')"
proof -
  obtain u where n: "scan env s zero_sym = (s', lval'\<lparr>sym_union := u\<rparr>)"
    using scan_any_lval [OF assms] by blast
  show ?thesis
    by (simp add: token_ids_def sql.tokens_end [OF n] sql.tokens_Cons [OF n])
qed

lemma scanOneStmt_first_ids:
  "scanOneStmt_first env s lval = (s', lval') \<Longrightarrow>
   dropWhile (\<lambda>x. x = 59) (token_ids env s) = (if sym_id lval' = 0 then [] else sym_id lval' # token_ids env s') \<and>
   sym_id lval' \<noteq> 59"
proof (induction env s lval rule: scanOneStmt_first.induct)
  case (1 env s lval)
  obtain s1 l1 where n: "scan env s lval = (s1, l1)" by (cases "scan env s lval")
  note pr = "1.prems" [unfolded scanOneStmt_first.simps [of env s lval] n Let_def split]
  show ?case
    using pr "1.IH" [OF n [symmetric] refl] token_ids_step [OF n] by (auto split: if_splits)
qed

lemma scanOneStmt_rest_ids:
  "scanOneStmt_rest env p ts s lval = Some (s', sql, ts', dn) \<Longrightarrow> sym_id lval \<noteq> T_ERROR \<Longrightarrow>
   T_ERROR \<notin> set (token_ids env s) \<Longrightarrow>
   map sym_id ts' = map sym_id ts @ takeWhile (\<lambda>x. x \<noteq> 59) (token_ids env s) \<and>
   (if dn then 59 \<notin> set (token_ids env s)
    else 59 \<in> set (token_ids env s) \<and>
         token_ids env s' = tl (dropWhile (\<lambda>x. x \<noteq> 59) (token_ids env s)))"
proof (induction env p ts s lval rule: scanOneStmt_rest.induct)
  case (1 env p ts s lval)
  obtain s1 l1 where n: "scan env s lval = (s1, l1)" by (cases "scan env s lval")
  note pr = "1.prems"(1) [unfolded scanOneStmt_rest.simps [of env p ts s lval] n Let_def split]
  show ?case
  proof (cases "sym_id l1 = 0 \<or> sym_id l1 = 59")
    case True
    then show ?thesis using pr "1.prems"(2,3) token_ids_step [OF n] by auto
  next
    case False
    then show ?thesis
      using pr "1.prems"(2,3) token_ids_step [OF n] "1.IH" [OF _ refl n [symmetric] refl _ refl] by auto
  qed
qed

lemma scan_statements_segments:
  assumes "scan_statements env s = Some gs" "T_ERROR \<notin> set (token_ids env s)"
  shows "nonempty (map (map sym_id \<circ> snd) gs) = nonempty (segments (token_ids env s))"
  using assms
proof (induction env s arbitrary: gs rule: scan_statements.induct)
  case (1 env s)
  obtain s' sql ts dn where sc: "scanOneStmt env s = Some (s', sql, ts, dn)"
    using "1.prems" by (auto simp: scan_statements.simps [of env s] split: option.splits)
  note pr = "1.prems"(1) [unfolded scan_statements.simps [of env s] sc]
  obtain s1 lval where f: "scanOneStmt_first env s zero_sym = (s1, lval)"
    by (cases "scanOneStmt_first env s zero_sym")
  note fi = scanOneStmt_first_ids [OF f]
  show ?case
  proof (cases "sym_id lval = 0")
    case True
    have "gs = [([], [])]" using True sc pr by (auto simp: scanOneStmt_def f)
    moreover have d0: "dropWhile (\<lambda>x. x = 59) (token_ids env s) = []" using True fi by simp
    ultimately show ?thesis using nonempty_dropWhile [of "token_ids env s", unfolded d0] by simp
  next
    case False
    let ?l = "lval\<lparr>sym_pos := 0\<rparr>"
    have d: "dropWhile (\<lambda>x. x = 59) (token_ids env s) = sym_id lval # token_ids env s1" "sym_id lval \<noteq> 59"
      using fi False by auto
    have e: "T_ERROR \<notin> set (sym_id lval # token_ids env s1)"
      using "1.prems"(2) set_dropWhileD [of T_ERROR "\<lambda>x. x = 59" "token_ids env s"] unfolding d(1) [symmetric] by blast
    have "scanOneStmt_rest env (sym_pos lval) [?l] s1 ?l = Some (s', sql, ts, dn)"
      using sc False by (simp add: scanOneStmt_def f Let_def)
    note ri = scanOneStmt_rest_ids [OF this]
    have seg: "nonempty (segments (token_ids env s)) = nonempty (segments (sym_id lval # token_ids env s1))"
      using nonempty_dropWhile [of "token_ids env s"] d(1) by simp
    show ?thesis
    proof (cases dn)
      case True
      then show ?thesis
        unfolding seg segments_split [of "sym_id lval # token_ids env s1"] using pr ri e d(2) by auto
    next
      case dn: False
      obtain gs' where g: "scan_statements env s' = Some gs'" "gs = (sql, ts) # gs'" using pr dn by auto
      have "T_ERROR \<notin> set (token_ids env s')"
        using ri e dn set_tl_dropWhile [of "\<lambda>x. x \<noteq> 59" "token_ids env s1"] by auto
      then show ?thesis
        unfolding seg segments_split [of "sym_id lval # token_ids env s1"]
        using "1.IH" [OF sc refl refl refl dn g(1)] ri e d(2) dn g(2) by auto
    qed
  qed
qed

lemma scan_statements_total:
  assumes "length (inp s) < 2 ^ 31" "spos s \<le> length (inp s)"
  shows "\<exists>gs. scan_statements env s = Some gs \<and>
    (\<forall>(sql, ts) \<in> set gs. positions_ok sql ts \<and> (\<exists>i j. sql = slice (inp s) i j \<and> j \<le> length (inp s)))"
  using assms
proof (induction env s rule: scan_statements.induct)
  case (1 env s)
  obtain s' sql ts dn i j where sc: "scanOneStmt env s = Some (s', sql, ts, dn)" "positions_ok sql ts" "moves s s'"
      "sql = slice (inp s) i j" "j \<le> length (inp s)"
    using scanOneStmt_ok [OF "1.prems"] by blast
  have s': "length (inp s') < 2 ^ 31" "spos s' \<le> length (inp s')" "inp s' = inp s"
    using sc(3) "1.prems" by (auto simp: moves_def)
  show ?case
    using "1.IH" [OF sc(1) refl refl refl _ s'(1,2)] sc s'(3)
    by (cases dn; auto simp: scan_statements.simps [of env s]; blast)
qed

subsection \<open>Properties\<close>


definition sample_penv :: "(nat, unit) parser_env" where
  "sample_penv =
     \<lparr>yacc = (\<lambda>l. if lex_tokens l = [] then ([CallLex], 0) else ([CallLex, CallSetStmt 7], 0)),
      error_text = (\<lambda>_. []), GetTelemetryKeys = (\<lambda>_. [])\<rparr>"


text \<open>
  C1: the driver parses exactly the statements of the text. For a text that tokenizes, it
  behaves as if all statements were scanned first and then parsed in order up to the first
  error, and the token sequences of these statements are the nonempty segments of the tokens
  between semicolons.
\<close>

theorem parseWithDepth_statements:
  assumes "Tokens env sql = Some ts" "length sql < 2 ^ 31"
  shows "\<exists>gs. scan_statements env (makeScanner sql) = Some gs \<and>
    parseWithDepth env penv sql ty = parse_all penv ty [] gs \<and>
    nonempty (map (map sym_id \<circ> snd) gs) = nonempty (segments (map TokenID ts))"
proof -
  obtain gs where gs: "scan_statements env (makeScanner sql) = Some gs"
    using scan_statements_total [of "makeScanner sql" env] assms(2) by (auto simp: makeScanner_def)
  note T = assms(1) [unfolded Tokens_Some_iff]
  have ids: "map TokenID ts = token_ids env (makeScanner sql)"
    unfolding conjunct1 [OF T] token_ids_def by (simp add: comp_def)
  have ok: "T_ERROR \<notin> TokenID ` set ts" using T by (rule conjunct2)
  from ok have "T_ERROR \<notin> set (token_ids env (makeScanner sql))" unfolding ids [symmetric] by simp
  from scan_statements_segments [OF gs this] show ?thesis
    using gs parseWithDepth_loop_parse_all [OF gs] ids by (simp add: parseWithDepth_def)
qed

theorem parseWithDepth_statements_witness:
  "\<exists>gs. scan_statements sample_env (makeScanner ''1;2'') = Some gs \<and>
    parseWithDepth sample_env sample_penv ''1;2'' () = parse_all sample_penv () [] gs \<and>
    nonempty (map (map sym_id \<circ> snd) gs) = [[T_ICONST], [T_ICONST]]"
  using parseWithDepth_statements [OF sample_split(1), of sample_penv "()"] by simp




end
