(* ===== verification/Lex_Encode.thy ===== *)
theory Lex_Encode
  imports Token_Stream
begin

unbundle bit_operations_syntax

text \<open>
  Printing of literals and identifiers: \<open>utils/stringencoding/string_encoding.go\<close> and
  \<open>lex/encode.go\<close>. Their correctness is that the scanner reads the printed form back.
\<close>

subsection \<open>Escaped characters\<close>

text \<open>The table \<open>EncodeMap\<close>; \<open>None\<close> is the entry \<open>DontEscape\<close>.\<close>

definition EncodeMap :: "char \<Rightarrow> char option" where
  "EncodeMap c =
     map_of [(CHR 0x08, CHR ''b''), (CHR 0x0C, CHR ''f''), (CHR 0x0A, CHR ''n''),
             (CHR 0x0D, CHR ''r''), (CHR 0x09, CHR ''t''), (CHR 0x5C, CHR 0x5C)] c"

definition writeHexDigit :: "nat \<Rightarrow> char" where
  "writeHexDigit v = (if v < 10 then char_of (48 + v) else char_of (97 + (v - 10)))"

definition RawHexMap :: "char \<Rightarrow> string" where
  "RawHexMap c = (let i = of_char c in [writeHexDigit (i div 16), writeHexDigit (i mod 16)])"

definition HexMap :: "char \<Rightarrow> string" where
  "HexMap c = [CHR 0x5C, CHR ''x''] @ RawHexMap c"

definition NeedEscape :: "char \<Rightarrow> bool" where
  "NeedEscape c = (EncodeMap c \<noteq> None)"

text \<open>
  The verbs \<open>%04X\<close> and \<open>%08X\<close> of \<open>fmt\<close>: upper-case hexadecimal, padded with zeros. The
  runes they are used for have at most four and eight digits.
\<close>

definition upper_hex_digit :: "nat \<Rightarrow> char" where
  "upper_hex_digit v = (if v < 10 then char_of (48 + v) else char_of (65 + (v - 10)))"

fun format_X :: "nat \<Rightarrow> nat \<Rightarrow> string" where
  "format_X 0 n = []"
| "format_X (Suc w) n = format_X w (n div 16) @ [upper_hex_digit (n mod 16)]"

definition EncodeEscapedChar :: "string \<Rightarrow> nat \<Rightarrow> char \<Rightarrow> nat \<Rightarrow> char \<Rightarrow> string" where
  "EncodeEscapedChar entireString currentRune currentByte currentIdx quoteChar =
     (if currentRune = RuneError then
        concat (map HexMap (slice entireString currentIdx
          (currentIdx + (case RuneLen currentRune of Some ln \<Rightarrow> max 1 ln | None \<Rightarrow> 1))))
      else if RuneLen currentRune = Some 1 then
        (case EncodeMap currentByte of
           Some e \<Rightarrow> [CHR 0x5C, e]
         | None \<Rightarrow> if currentByte = quoteChar then [CHR 0x5C, quoteChar] else HexMap currentByte)
      else if RuneLen currentRune = Some 2 then [CHR 0x5C, CHR ''u''] @ format_X 4 currentRune
      else [CHR 0x5C, CHR ''U''] @ format_X 8 currentRune)"

subsection \<open>String literals\<close>

type_synonym EncodeFlags = "64 word"

definition HasFlags :: "EncodeFlags \<Rightarrow> EncodeFlags \<Rightarrow> bool" where
  "HasFlags f flags = (f AND flags = flags)"

abbreviation EncNoFlags :: EncodeFlags where "EncNoFlags \<equiv> 0"
abbreviation EncBareStrings :: EncodeFlags where "EncBareStrings \<equiv> 2"
abbreviation EncBareIdentifiers :: EncodeFlags where "EncBareIdentifiers \<equiv> 4"

definition mustQuoteMap :: "char \<Rightarrow> bool" where
  "mustQuoteMap c = (c \<in> set '' ,{}'')"

abbreviation quote_char :: char where "quote_char \<equiv> CHR 0x27"
abbreviation ident_quote_char :: char where "ident_quote_char \<equiv> CHR 0x22"

text \<open>The loop over the runes, with \<open>start\<close>, \<open>escapedString\<close>, \<open>bareStrings\<close> and the buffer.\<close>

fun EncodeSQLString_loop ::
  "string \<Rightarrow> (nat \<times> nat) list \<Rightarrow> nat \<Rightarrow> bool \<Rightarrow> bool \<Rightarrow> string \<Rightarrow> nat \<times> bool \<times> bool \<times> string" where
  "EncodeSQLString_loop s [] start escaped bare buf = (start, escaped, bare, buf)"
| "EncodeSQLString_loop s ((i, r) # rs) start escaped bare buf =
     (if i < start then EncodeSQLString_loop s rs start escaped bare buf
      else
        (let ch = char_of (r mod 256);
             printable = (0x20 \<le> r \<and> r < 0x7F);
             bare' = (if printable \<and> mustQuoteMap ch then False else bare)
         in if printable \<and> \<not> NeedEscape ch \<and> ch \<noteq> quote_char
            then EncodeSQLString_loop s rs start escaped bare' buf
            else
              EncodeSQLString_loop s rs
                (case RuneLen r of None \<Rightarrow> i + 1 | Some ln \<Rightarrow> i + ln) True bare'
                (buf @ (if \<not> escaped then [CHR ''e'', quote_char] else []) @ slice s start i @
                 EncodeEscapedChar s r ch i quote_char)))"

definition EncodeSQLStringWithFlags :: "string \<Rightarrow> EncodeFlags \<Rightarrow> string" where
  "EncodeSQLStringWithFlags s flags =
     (case EncodeSQLString_loop s (range_runes 0 s) 0 False (HasFlags flags EncBareStrings) [] of
        (start, escaped, bare, buf) \<Rightarrow>
          (let quote = (\<not> escaped \<and> \<not> bare) in
           buf @ (if quote then [quote_char] else []) @
           (if start < length s then drop start s else []) @
           (if escaped \<or> quote then [quote_char] else [])))"

definition EscapeSQLString :: "string \<Rightarrow> string" where
  "EscapeSQLString s = EncodeSQLStringWithFlags s EncNoFlags"

subsection \<open>Identifiers\<close>

text \<open>The loop over the bytes with \<open>start\<close> and the buffer.\<close>

fun EncodeEscapedSQLIdent_loop :: "string \<Rightarrow> nat \<Rightarrow> string \<Rightarrow> nat \<Rightarrow> string \<Rightarrow> nat \<times> string" where
  "EncodeEscapedSQLIdent_loop s i [] start buf = (start, buf)"
| "EncodeEscapedSQLIdent_loop s i (ch # cs) start buf =
     (if ch = ident_quote_char then
        EncodeEscapedSQLIdent_loop s (i + 1) cs (i + 1)
          (buf @ (if start \<noteq> i then slice s start i else []) @ [ch, ch])
      else EncodeEscapedSQLIdent_loop s (i + 1) cs start buf)"

definition EncodeEscapedSQLIdent :: "string \<Rightarrow> string" where
  "EncodeEscapedSQLIdent s =
     (case EncodeEscapedSQLIdent_loop s 0 s 0 [ident_quote_char] of
        (start, buf) \<Rightarrow> buf @ (if start < length s then drop start s else []) @ [ident_quote_char])"

definition EncodeUnrestrictedSQLIdent :: "lex_env \<Rightarrow> string \<Rightarrow> EncodeFlags \<Rightarrow> string" where
  "EncodeUnrestrictedSQLIdent env s flags =
     (if HasFlags flags EncBareIdentifiers \<or> isBareIdentifier env s then s else EncodeEscapedSQLIdent s)"

definition EncodeRestrictedSQLIdent :: "lex_env \<Rightarrow> string \<Rightarrow> EncodeFlags \<Rightarrow> string" where
  "EncodeRestrictedSQLIdent env s flags =
     (if HasFlags flags EncBareIdentifiers \<or> (\<not> isReservedKeyword s \<and> isBareIdentifier env s) then s
      else EncodeEscapedSQLIdent s)"

definition EncodeLocaleName :: "string \<Rightarrow> string" where
  "EncodeLocaleName s = map (\<lambda>ch. if ch = CHR ''-'' then CHR ''_'' else ch) s"

subsection \<open>Byte literals\<close>

fun EncodeSQLBytes_loop :: "string \<Rightarrow> nat \<Rightarrow> string \<Rightarrow> nat \<Rightarrow> string \<Rightarrow> nat \<times> string" where
  "EncodeSQLBytes_loop s i [] start buf = (start, buf)"
| "EncodeSQLBytes_loop s i (ch # cs) start buf =
     (case EncodeMap ch of
        Some e \<Rightarrow> EncodeSQLBytes_loop s (i + 1) cs (i + 1) (buf @ slice s start i @ [CHR 0x5C, e])
      | None \<Rightarrow>
          if ch = quote_char then
            EncodeSQLBytes_loop s (i + 1) cs (i + 1) (buf @ slice s start i @ [CHR 0x5C, ch])
          else if byte_val ch < 0x20 \<or> byte_val ch \<ge> 0x7F then
            EncodeSQLBytes_loop s (i + 1) cs (i + 1) (buf @ slice s start i @ HexMap ch)
          else EncodeSQLBytes_loop s (i + 1) cs start buf)"

definition EncodeSQLBytes :: "string \<Rightarrow> string" where
  "EncodeSQLBytes s =
     (case EncodeSQLBytes_loop s 0 s 0 [CHR ''b'', quote_char] of
        (start, buf) \<Rightarrow> buf @ drop start s @ [quote_char])"

subsection \<open>Bodies of literals\<close>

text \<open>
  The body of a quoted literal and the bytes the scanner reads from it: bytes that stand for
  themselves, a doubled quote, and, where escapes are allowed, an escaped quote or an escape
  sequence that \<open>UnquoteChar\<close> reads whatever follows it.
\<close>

inductive literal_body :: "char \<Rightarrow> bool \<Rightarrow> string \<Rightarrow> string \<Rightarrow> bool" for q :: char and e :: bool where
  empty: "literal_body q e [] []"
| plain: "c \<noteq> q \<Longrightarrow> \<not> e \<or> c \<noteq> CHR 0x5C \<Longrightarrow> literal_body q e b d \<Longrightarrow> literal_body q e (c # b) (c # d)"
| doubled: "literal_body q e b d \<Longrightarrow> literal_body q e (q # q # b) (q # d)"
| quoted: "e \<Longrightarrow> q \<noteq> CHR 0x5C \<Longrightarrow> literal_body q e b d \<Longrightarrow> literal_body q e (CHR 0x5C # q # b) (q # d)"
| escape: "e \<Longrightarrow> q \<noteq> CHR 0x5C \<Longrightarrow> is_escape_char (byte_val t) \<Longrightarrow> t \<noteq> CHR ''X'' \<Longrightarrow> t \<noteq> q \<Longrightarrow>
    (\<And>more. UnquoteChar ([CHR 0x5C, t] @ esc @ more) q = Some (v, mb, more)) \<Longrightarrow>
    literal_body q e b d \<Longrightarrow> literal_body q e ([CHR 0x5C, t] @ esc @ b) (escape_bytes v mb @ d)"

text \<open>What may follow a literal: the end of the text, or a byte that is neither white space nor a quote.\<close>

definition ends_literal :: "char \<Rightarrow> string \<Rightarrow> bool" where
  "ends_literal q rest \<longleftrightarrow>
     (case rest of [] \<Rightarrow> True
      | c # _ \<Rightarrow> c \<noteq> q \<and> \<not> is_blank (byte_val c) \<and> byte_val c \<noteq> newline_ch)"

lemma byte_val_neq: "c \<noteq> d \<Longrightarrow> byte_val c \<noteq> byte_val d"
  by simp

lemma peek_drop: "drop (spos s) (inp s) = c # cs \<Longrightarrow> peek s = byte_val c \<and> spos s < length (inp s)"
  by (metis drop_all hd_drop_conv_nth leI list.discI list.sel(1) peek_def)

lemma peek_drop_Nil: "drop (spos s) (inp s) = [] \<Longrightarrow> peek s = eof"
  by (simp add: peek_def)

lemma drop_advance: "drop (spos s) (inp s) = xs @ ys \<Longrightarrow> drop (spos (advance s (length xs))) (inp (advance s (length xs))) = ys"
  by (simp add: add.commute flip: drop_drop)

lemma scanner_next_drop:
  "drop (spos s) (inp s) = c # cs \<Longrightarrow> scanner_next s = (advance s 1, byte_val c)"
  using peek_drop [of s c cs] by (simp add: scanner_next_def Let_def)

lemma skipWhitespace_ends:
  assumes "drop (spos s) (inp s) = rest" "ends_literal q rest"
  shows "skipWhitespace s lval False = (s, lval, False, True)" and "peek s \<noteq> byte_val q"
proof -
  have "peek s \<noteq> newline_ch \<and> \<not> is_blank (peek s) \<and> peek s \<noteq> byte_val q"
  proof (cases rest)
    case Nil
    then show ?thesis using assms(1) peek_drop_Nil by (simp add: is_blank_def)
  next
    case (Cons c cs)
    then show ?thesis using assms peek_drop [of s c cs] by (auto simp: ends_literal_def)
  qed
  then show "skipWhitespace s lval False = (s, lval, False, True)" "peek s \<noteq> byte_val q"
    by (simp_all add: skipWhitespace_def skipWhitespace_loop_cases(6))
qed

lemma slice_advance:
  assumes "drop (spos s) (inp s) = xs @ ys" "start \<le> spos s"
  shows "slice (inp s) start (spos s + length xs) = slice (inp s) start (spos s) @ xs"
proof -
  have "slice (inp s) (spos s) (spos s + length xs) = xs"
    using assms(1) by (simp add: slice_def)
  then show ?thesis
    using slice_append_slice [of start "spos s" "spos s + length xs" "inp s"] assms(2) by simp
qed

text \<open>One step of the string loop for each form of a body.\<close>

lemma scanString_loop_plain:
  assumes "drop (spos s) (inp s) = c # cs" "c \<noteq> q" "\<not> e \<or> c \<noteq> CHR 0x5C"
  shows "scanString_loop q e s lval buf start = scanString_loop q e (advance s 1) lval buf start"
proof -
  have "byte_val c \<noteq> byte_val q" "\<not> e \<or> byte_val c \<noteq> backslash" "byte_val c \<noteq> eof"
    using byte_val_neq [OF assms(2)] byte_val_neq [of c "CHR 0x5C"] assms(3) byte_val_not_eof [of c] by blast+
  then show ?thesis
    unfolding scanString_loop.simps [of q e s lval buf start] scanner_next_drop [OF assms(1)]
    by (cases e) (simp_all add: Let_def)
qed

lemma scanString_loop_doubled:
  assumes "drop (spos s) (inp s) = q # q # cs"
  shows "scanString_loop q e s lval buf start =
    scanString_loop q e (advance s 2) lval (buf @ slice (inp s) start (spos s)) (spos s + 1)"
proof -
  have "drop (spos (advance s 1)) (inp (advance s 1)) = q # cs"
    using drop_advance [of s "[q]" "q # cs"] assms by simp
  then have "peek (advance s 1) = byte_val q" by (simp add: peek_drop)
  then show ?thesis
    unfolding scanString_loop.simps [of q e s lval buf start] scanner_next_drop [OF assms] by (simp add: Let_def advance_def numeral_2_eq_2)
qed

lemma scanString_loop_quoted:
  assumes "drop (spos s) (inp s) = CHR 0x5C # q # cs" "e" "q \<noteq> CHR 0x5C"
  shows "scanString_loop q e s lval buf start =
    scanString_loop q e (advance s 2) lval (buf @ slice (inp s) start (spos s)) (spos s + 1)"
proof -
  have "drop (spos (advance s 1)) (inp (advance s 1)) = q # cs"
    using drop_advance [of s "[CHR 0x5C]" "q # cs"] assms(1) by simp
  then have "peek (advance s 1) = byte_val q" by (simp add: peek_drop)
  moreover have "byte_val CHR 0x5C \<noteq> byte_val q" by (rule byte_val_neq) (use assms(3) in simp)
  ultimately show ?thesis
    unfolding scanString_loop.simps [of q e s lval buf start] scanner_next_drop [OF assms(1)]
    using assms(2) by (simp add: Let_def advance_def numeral_2_eq_2)
qed

lemma scanString_loop_escape:
  assumes "drop (spos s) (inp s) = [CHR 0x5C, t] @ esc @ cs" "e" "q \<noteq> CHR 0x5C"
    "is_escape_char (byte_val t)" "t \<noteq> CHR ''X''" "t \<noteq> q"
    "UnquoteChar ([CHR 0x5C, t] @ esc @ cs) q = Some (v, mb, cs)"
  shows "scanString_loop q e s lval buf start =
    scanString_loop q e (advance s (2 + length esc)) lval
      (buf @ slice (inp s) start (spos s) @ escape_bytes v mb) (spos s + 2 + length esc)"
proof -
  let ?s1 = "advance s 1"
  have d: "drop (spos ?s1) (inp ?s1) = t # esc @ cs"
    using drop_advance [of s "[CHR 0x5C]" "t # esc @ cs"] assms(1) by simp
  then have p: "peek ?s1 = byte_val t" by (simp add: peek_drop)
  have ne: "byte_val CHR 0x5C \<noteq> byte_val q" "byte_val t \<noteq> byte_val q" "byte_val t \<noteq> byte_val CHR ''X''"
    by (rule byte_val_neq, use assms(3,5,6) in simp)+
  have tmp: "escape_text ?s1 (byte_val t) = [CHR 0x5C, t] @ esc @ cs"
    using assms(1) ne by (simp add: escape_text_def advance_def)
  have adv: "advance ?s1 (length ([CHR 0x5C, t] @ esc @ cs) - length cs - 1) = advance s (2 + length esc)"
    by (simp add: advance_def)
  show ?thesis
    unfolding scanString_loop.simps [of q e s lval buf start] scanner_next_drop [OF assms(1) [unfolded append_Cons]]
    using assms(2,4,7) ne p tmp adv by (simp add: Let_def)
qed


lemma advance_advance [simp]: "advance (advance s m) n = advance s (m + n)"
  by (simp add: advance_def add.assoc)

lemma scanString_loop_end:
  assumes "drop (spos s) (inp s) = q # rest" "ends_literal q rest"
  shows "scanString_loop q e s lval buf start = (advance s 1, lval, Some (buf @ slice (inp s) start (spos s)))"
proof -
  have "drop (spos (advance s 1)) (inp (advance s 1)) = rest"
    using drop_advance [of s "[q]" rest] assms(1) by simp
  note sw = skipWhitespace_ends [OF this assms(2)]
  show ?thesis
    unfolding scanString_loop.simps [of q e s lval buf start] scanner_next_drop [OF assms(1)]
    using sw by (simp add: Let_def)
qed

lemma slice_second:
  assumes "drop p xs = a # b # cs"
  shows "slice xs (p + 1) (p + 2) = [b]"
  using arg_cong [OF assms, of "drop 1"] by (simp add: slice_def)

text \<open>The scanner reads a literal body.\<close>

lemma scanString_loop_body:
  assumes "literal_body q e b d" "drop (spos s) (inp s) = b @ q # rest" "ends_literal q rest" "start \<le> spos s"
  shows "scanString_loop q e s lval buf start =
    (advance s (length b + 1), lval, Some (buf @ slice (inp s) start (spos s) @ d))"
  using assms
proof (induction arbitrary: s buf start rule: literal_body.induct)
  case empty
  then show ?case using scanString_loop_end by simp
next
  case (plain c b d)
  have dr: "drop (spos s) (inp s) = c # b @ q # rest" using plain.prems(1) by simp
  have "drop (spos (advance s 1)) (inp (advance s 1)) = b @ q # rest"
    using drop_advance [of s "[c]"] dr by simp
  from plain.IH [OF this plain.prems(2), of start buf] show ?case
    using scanString_loop_plain [OF dr plain.hyps(1,2)] plain.prems(3)
      slice_advance [of s "[c]" "b @ q # rest" start] dr by simp
next
  case (doubled b d)
  have dr: "drop (spos s) (inp s) = q # q # b @ q # rest" using doubled.prems(1) by simp
  have d2: "drop (spos (advance s 2)) (inp (advance s 2)) = b @ q # rest"
    using drop_advance [of s "[q, q]"] dr by simp
  have sl: "slice (inp s) (spos s + 1) (spos s + 2) = [q]"
    using dr by (rule slice_second)
  from doubled.IH [OF d2 doubled.prems(2), of "spos s + 1"] show ?case
    using scanString_loop_doubled [OF dr] sl by simp
next
  case (quoted b d)
  have dr: "drop (spos s) (inp s) = CHR 0x5C # q # b @ q # rest" using quoted.prems(1) by simp
  have d2: "drop (spos (advance s 2)) (inp (advance s 2)) = b @ q # rest"
    using drop_advance [of s "[CHR 0x5C, q]"] dr by simp
  have sl: "slice (inp s) (spos s + 1) (spos s + 2) = [q]"
    using dr by (rule slice_second)
  from quoted.IH [OF d2 quoted.prems(2), of "spos s + 1"] show ?case
    using scanString_loop_quoted [OF dr quoted.hyps(1,2)] sl by simp
next
  case (escape t esc v mb b d)
  have dr: "drop (spos s) (inp s) = [CHR 0x5C, t] @ esc @ b @ q # rest" using escape.prems(1) by simp
  have d2: "drop (spos (advance s (2 + length esc))) (inp (advance s (2 + length esc))) = b @ q # rest"
    using drop_advance [of s "[CHR 0x5C, t] @ esc" "b @ q # rest"] dr by simp
  from escape.IH [OF d2 escape.prems(2), of "spos s + 2 + length esc"] show ?case
    using scanString_loop_escape [OF dr escape.hyps(1-5) escape.hyps(6)] by simp
qed

lemma string_token_body:
  assumes "literal_body q e b d" "drop (spos s) (inp s) = b @ q # rest" "ends_literal q rest"
    "u \<Longrightarrow> utf8_valid d"
  shows "string_token s lval q e u t = (advance s (length b + 1), lval\<lparr>sym_id := t, sym_str := d\<rparr>)"
  using scanString_loop_body [OF assms(1-3) order_refl, of lval "[]"] assms(4)
  by (auto simp: string_token_def scanString_def)

subsection \<open>What the encoders print\<close>

definition double_quotes :: "string \<Rightarrow> string" where
  "double_quotes s = concat (map (\<lambda>c. if c = ident_quote_char then [c, c] else [c]) s)"

lemma slice_snoc_drop:
  "drop i s = c # cs \<Longrightarrow> start \<le> i \<Longrightarrow> slice s start (Suc i) = slice s start i @ [c]"
  by (metis drop_eq_Nil leI list.discI nth_via_drop slice_snoc)

lemma drop_Suc_Cons: "drop i s = c # cs \<Longrightarrow> drop (Suc i) s = cs"
  by (metis drop_Suc list.sel(3) tl_drop)

lemma slice_drop_end: "drop i s = [] \<Longrightarrow> start \<le> i \<Longrightarrow> slice s start i = drop start s"
  by (simp add: slice_def)

lemma EncodeEscapedSQLIdent_loop_spec:
  assumes "drop i s = cs" "start \<le> i"
  shows "snd (EncodeEscapedSQLIdent_loop s i cs start buf) @ drop (fst (EncodeEscapedSQLIdent_loop s i cs start buf)) s =
           buf @ slice s start i @ double_quotes cs"
  using assms
proof (induction cs arbitrary: i start buf)
  case Nil
  then show ?case by (simp add: double_quotes_def slice_drop_end)
next
  case (Cons c cs)
  note d = drop_Suc_Cons [OF Cons.prems(1)]
  show ?case
    using Cons.IH [OF d, of "Suc i"] Cons.IH [OF d, of start] Cons.prems(2)
      slice_snoc_drop [OF Cons.prems]
    by (auto simp: double_quotes_def)
qed

lemma EncodeEscapedSQLIdent_body:
  "EncodeEscapedSQLIdent s = ident_quote_char # double_quotes s @ [ident_quote_char]"
  using EncodeEscapedSQLIdent_loop_spec [of 0 s s 0 "[ident_quote_char]"]
  by (auto simp: EncodeEscapedSQLIdent_def split: prod.splits)

lemma double_quotes_body: "literal_body ident_quote_char False (double_quotes s) s"
proof (induction s)
  case (Cons c s)
  then show ?case
    by (cases "c = ident_quote_char") (auto simp: double_quotes_def intro: literal_body.intros)
qed (simp add: double_quotes_def literal_body.empty)

text \<open>One byte of a byte literal.\<close>

definition escape_byte :: "char \<Rightarrow> string" where
  "escape_byte ch =
     (case EncodeMap ch of
        Some e \<Rightarrow> [CHR 0x5C, e]
      | None \<Rightarrow> if ch = quote_char then [CHR 0x5C, ch]
               else if byte_val ch < 0x20 \<or> byte_val ch \<ge> 0x7F then HexMap ch
               else [ch])"

lemma EncodeSQLBytes_loop_spec:
  assumes "drop i s = cs" "start \<le> i"
  shows "snd (EncodeSQLBytes_loop s i cs start buf) @ drop (fst (EncodeSQLBytes_loop s i cs start buf)) s =
           buf @ slice s start i @ concat (map escape_byte cs)"
  using assms
proof (induction cs arbitrary: i start buf)
  case Nil
  then show ?case by (simp add: slice_drop_end)
next
  case (Cons c cs)
  note d = drop_Suc_Cons [OF Cons.prems(1)]
  show ?case
    using Cons.IH [OF d, of "Suc i"] Cons.IH [OF d, of start] Cons.prems(2)
      slice_snoc_drop [OF Cons.prems]
    by (auto simp: escape_byte_def split: option.split)
qed

lemma EncodeSQLBytes_body:
  "EncodeSQLBytes s = [CHR ''b'', quote_char] @ concat (map escape_byte s) @ [quote_char]"
  using EncodeSQLBytes_loop_spec [of 0 s s 0 "[CHR ''b'', quote_char]"]
  by (auto simp: EncodeSQLBytes_def split: prod.splits)

text \<open>Hexadecimal escapes are read back.\<close>

lemma of_char_writeHexDigit: "v < 16 \<Longrightarrow> of_char (writeHexDigit v) = (if v < 10 then 48 + v else 87 + v)"
  by (auto simp: writeHexDigit_def)

lemma hex_digit_value_writeHexDigit: "v < 16 \<Longrightarrow> hex_digit_value (writeHexDigit v) = Some v"
  by (auto simp: hex_digit_value_def of_char_writeHexDigit Let_def)

lemma int32_small: "0 \<le> n \<Longrightarrow> n < 2147483648 \<Longrightarrow> int32 n = n"
  unfolding int32_def by (rule signed_take_bit_int_eq_self) auto

lemma UnquoteChar_HexMap:
  assumes "q \<noteq> CHR 0x5C"
  shows "UnquoteChar (HexMap c @ rest) q = Some (byte_val c, False, rest)"
proof -
  let ?i = "of_char c :: nat"
  have lt: "?i < 256" using byte_val_less [of c] by (simp add: byte_val_nat)
  have b: "?i div 16 < 16" "?i mod 16 < 16" using lt by (simp_all add: less_mult_imp_div_less)
  have "16 * int (?i div 16) + int (?i mod 16) = int (16 * (?i div 16) + ?i mod 16)"
    by (simp only: of_nat_add of_nat_mult of_nat_numeral)
  also have "16 * (?i div 16) + ?i mod 16 = ?i" by simp
  finally have v: "16 * int (?i div 16) + int (?i mod 16) = byte_val c" by (simp only: byte_val_nat)
  have "int32 (int (?i div 16)) = int (?i div 16)"
    by (rule int32_small) (use b in simp_all)
  moreover have "int32 (byte_val c) = byte_val c"
    by (rule int32_small) (use byte_val_ge [of c] byte_val_less [of c] in linarith)+
  ultimately have "unquote_hex 2 0 (RawHexMap c @ rest) = Some (byte_val c, rest)"
    using hex_digit_value_writeHexDigit [OF b(1)] hex_digit_value_writeHexDigit [OF b(2)] v
    by (simp add: RawHexMap_def Let_def numeral_2_eq_2)
  then show ?thesis
    using assms by (simp add: HexMap_def UnquoteChar_def UnquoteChar_escape_def simple_escape_def)
qed

lemma literal_body_HexMap:
  assumes "literal_body q True b d" "q \<noteq> CHR 0x5C" "q \<noteq> CHR ''x''"
  shows "literal_body q True (HexMap c @ b) (c # d)"
proof -
  have "is_escape_char (byte_val CHR ''x'')" by (simp add: is_escape_char_def)
  moreover have "UnquoteChar ([CHR 0x5C, CHR ''x''] @ RawHexMap c @ rest) q = Some (byte_val c, False, rest)" for rest
    using UnquoteChar_HexMap [OF assms(2)] by (simp add: HexMap_def)
  ultimately have "literal_body q True ([CHR 0x5C, CHR ''x''] @ RawHexMap c @ b) (escape_bytes (byte_val c) False @ d)"
    using assms by (intro literal_body.escape) auto
  then show ?thesis by (simp add: HexMap_def escape_bytes_def byte_val_nat)
qed


lemma literal_body_EncodeMap:
  assumes "literal_body quote_char True b d" "EncodeMap c = Some e"
  shows "literal_body quote_char True ([CHR 0x5C, e] @ b) (c # d)"
proof -
  consider "c = CHR 0x08" "e = CHR ''b''" | "c = CHR 0x0C" "e = CHR ''f''" | "c = CHR 0x0A" "e = CHR ''n''"
    | "c = CHR 0x0D" "e = CHR ''r''" | "c = CHR 0x09" "e = CHR ''t''" | "c = CHR 0x5C" "e = CHR 0x5C"
    using assms(2) by (auto simp: EncodeMap_def split: if_splits)
  then have e: "is_escape_char (byte_val e)" "e \<noteq> CHR ''X''" "e \<noteq> quote_char"
      "simple_escape e = Some (byte_val c)"
    by (cases; simp add: is_escape_char_def simple_escape_def)+
  have "UnquoteChar ([CHR 0x5C, e] @ [] @ rest) quote_char = Some (byte_val c, False, rest)" for rest
    using e(4) by (simp add: UnquoteChar_def UnquoteChar_escape_def)
  then have "literal_body quote_char True ([CHR 0x5C, e] @ [] @ b) (escape_bytes (byte_val c) False @ d)"
    using assms(1) e(1-3) by (intro literal_body.escape) auto
  then show ?thesis by (simp add: escape_bytes_def byte_val_nat)
qed

lemma escape_byte_body: "literal_body quote_char True (concat (map escape_byte s)) s"
proof (induction s)
  case (Cons c s)
  show ?case
  proof (cases "EncodeMap c")
    case (Some e)
    then show ?thesis using literal_body_EncodeMap [OF Cons Some] by (simp add: escape_byte_def)
  next
    case None
    then have bs: "c \<noteq> CHR 0x5C" by (auto simp: EncodeMap_def)
    then show ?thesis
      using None Cons literal_body_HexMap [OF Cons, of c] literal_body.quoted [OF _ _ Cons]
        literal_body.plain [of c quote_char True, OF _ _ Cons]
      by (auto simp: escape_byte_def)
  qed
qed (simp add: literal_body.empty)

text \<open>Runes of more than one byte are printed as \<open>\u\<close> and \<open>\U\<close> escapes.\<close>

lemma unquote_hex_append:
  "length xs = m \<Longrightarrow>
   unquote_hex (m + k) v (xs @ ys) = (case unquote_hex m v xs of None \<Rightarrow> None | Some (w, _) \<Rightarrow> unquote_hex k w ys)"
  by (induction m arbitrary: v xs) (auto simp: length_Suc_conv split: option.split)

lemma length_format_X [simp]: "length (format_X w n) = w"
  by (induction w arbitrary: n) auto

lemma hex_digit_value_upper: "v < 16 \<Longrightarrow> hex_digit_value (upper_hex_digit v) = Some v"
  by (auto simp: hex_digit_value_def upper_hex_digit_def Let_def)

lemma unquote_hex_format_X:
  "n < 16 ^ w \<Longrightarrow> n < 2147483648 \<Longrightarrow> unquote_hex w 0 (format_X w n) = Some (int n, [])"
proof (induction w arbitrary: n)
  case (Suc w)
  have m: "n mod 16 < 16" and d: "n div 16 < 16 ^ w"
    using Suc.prems(1) by (simp_all add: less_mult_imp_div_less mult.commute)
  have "n div 16 < 2147483648" using Suc.prems(2) by (meson div_le_dividend le_less_trans)
  from Suc.IH [OF d this] have IH: "unquote_hex w 0 (format_X w (n div 16)) = Some (int (n div 16), [])" .
  have "16 * int (n div 16) + int (n mod 16) = int (16 * (n div 16) + n mod 16)"
    by (simp only: of_nat_add of_nat_mult of_nat_numeral)
  also have "16 * (n div 16) + n mod 16 = n" by simp
  finally have v: "16 * int (n div 16) + int (n mod 16) = int n" .
  have "int32 (int n) = int n" by (rule int32_small) (use Suc.prems(2) in simp_all)
  then show ?case
    using unquote_hex_append [of "format_X w (n div 16)" w 1 0 "[upper_hex_digit (n mod 16)]"] IH
      hex_digit_value_upper [OF m] v by simp
qed simp

lemma unquote_hex_format_X_rest:
  assumes "n < 16 ^ w" "n < 2147483648"
  shows "unquote_hex w 0 (format_X w n @ rest) = Some (int n, rest)"
  using unquote_hex_append [of "format_X w n" w 0 0 rest] unquote_hex_format_X [OF assms] by simp

lemma UnquoteChar_u:
  "r < 16 ^ 4 \<Longrightarrow> UnquoteChar ([CHR 0x5C, CHR ''u''] @ format_X 4 r @ rest) quote_char = Some (int r, True, rest)"
  "r \<le> MaxRune \<Longrightarrow> UnquoteChar ([CHR 0x5C, CHR ''U''] @ format_X 8 r @ rest) quote_char = Some (int r, True, rest)"
  using unquote_hex_format_X_rest [of r 4 rest] unquote_hex_format_X_rest [of r 8 rest]
  by (simp_all add: UnquoteChar_def UnquoteChar_escape_def simple_escape_def del: format_X.simps)

subsection \<open>One rune of a string literal\<close>

definition plain_rune :: "nat \<Rightarrow> bool" where
  "plain_rune r \<longleftrightarrow> 0x20 \<le> r \<and> r < 0x7F \<and> \<not> NeedEscape (char_of r) \<and> char_of r \<noteq> quote_char"

definition escape_rune :: "nat \<Rightarrow> string" where
  "escape_rune r =
     (if plain_rune r then [char_of r]
      else if r = RuneError then concat (map HexMap (EncodeRune r))
      else if r \<le> 0x7F then
        (case EncodeMap (char_of r) of
           Some e \<Rightarrow> [CHR 0x5C, e]
         | None \<Rightarrow> if char_of r = quote_char then [CHR 0x5C, quote_char] else HexMap (char_of r))
      else if r \<le> 0x7FF then [CHR 0x5C, CHR ''u''] @ format_X 4 r
      else [CHR 0x5C, CHR ''U''] @ format_X 8 r)"

lemma literal_body_HexMaps:
  "literal_body quote_char True b d \<Longrightarrow> literal_body quote_char True (concat (map HexMap xs) @ b) (xs @ d)"
  by (induction xs) (auto intro: literal_body_HexMap)

lemma literal_body_rune:
  assumes "valid_rune r" "literal_body quote_char True b d"
  shows "literal_body quote_char True (escape_rune r @ b) (EncodeRune r @ d)"
proof -
  have le: "r \<le> MaxRune" using assms(1) by (auto simp: valid_rune_def)
  consider (plain) "plain_rune r" | (error) "\<not> plain_rune r" "r = RuneError"
    | (ascii) "\<not> plain_rune r" "r \<le> 0x7F" | (two) "0x7F < r" "r \<le> 0x7FF" | (wide) "0x7FF < r" "r \<noteq> RuneError"
    by linarith
  then show ?thesis
  proof cases
    case plain
    then have "char_of r \<noteq> CHR 0x5C" by (auto simp: plain_rune_def NeedEscape_def EncodeMap_def)
    then show ?thesis
      using plain assms(2) by (auto simp: escape_rune_def plain_rune_def EncodeRune_def intro: literal_body.plain)
  next
    case error
    then show ?thesis using literal_body_HexMaps [OF assms(2), of "EncodeRune r"] by (simp add: escape_rune_def)
  next
    case ascii
    then have E: "EncodeRune r = [char_of r]" "r \<noteq> RuneError" by (auto simp: EncodeRune_def)
    show ?thesis
    proof (cases "EncodeMap (char_of r)")
      case (Some e)
      then show ?thesis using ascii E literal_body_EncodeMap [OF assms(2) Some] by (simp add: escape_rune_def)
    next
      case None
      then show ?thesis
        using ascii E literal_body_HexMap [OF assms(2), of "char_of r"] literal_body.quoted [OF _ _ assms(2)]
        by (auto simp: escape_rune_def)
    qed
  next
    case two
    have "literal_body quote_char True ([CHR 0x5C, CHR ''u''] @ format_X 4 r @ b) (escape_bytes (int r) True @ d)"
      using assms(2) UnquoteChar_u(1) [of r] two
      by (intro literal_body.escape) (auto simp: is_escape_char_def simp del: format_X.simps)
    then show ?thesis using two by (simp add: escape_rune_def plain_rune_def escape_bytes_def del: format_X.simps)
  next
    case wide
    have "literal_body quote_char True ([CHR 0x5C, CHR ''U''] @ format_X 8 r @ b) (escape_bytes (int r) True @ d)"
      using assms(2) UnquoteChar_u(2) [of r] le
      by (intro literal_body.escape) (auto simp: is_escape_char_def simp del: format_X.simps)
    then show ?thesis using wide by (simp add: escape_rune_def plain_rune_def escape_bytes_def del: format_X.simps)
  qed
qed

lemma range_runes_encode_Cons:
  assumes "valid_rune r"
  shows "range_runes i (EncodeRune r @ s) = (i, r) # range_runes (i + length (EncodeRune r)) s"
  by (subst range_runes.simps) (simp add: decode_encode [OF assms])

lemma RuneLen_cases:
  "valid_rune r \<Longrightarrow> RuneLen r = Some 1 \<longleftrightarrow> r \<le> 0x7F"
  "valid_rune r \<Longrightarrow> RuneLen r = Some 2 \<longleftrightarrow> 0x7F < r \<and> r \<le> 0x7FF"
  by (auto simp: RuneLen_def valid_rune_def)

lemma EncodeEscapedChar_rune:
  assumes "valid_rune r" "\<not> plain_rune r" "drop i s = EncodeRune r @ rest"
  shows "EncodeEscapedChar s r (char_of (r mod 256)) i quote_char = escape_rune r"
proof -
  have "slice s i (i + length (EncodeRune r)) = EncodeRune r" using assms(3) by (simp add: slice_def)
  moreover have "RuneLen RuneError = Some 3" "length (EncodeRune RuneError) = 3"
    by (simp_all add: RuneLen_def EncodeRune_def encode3_def)
  moreover have "r \<le> 0x7F \<Longrightarrow> r mod 256 = r" by simp
  ultimately show ?thesis
    using assms(1,2) RuneLen_cases [OF assms(1)]
    by (auto simp: EncodeEscapedChar_def escape_rune_def simp del: format_X.simps split: option.split)
qed

lemma EncodeSQLString_loop_spec:
  assumes "\<forall>r \<in> set rs. valid_rune r" "drop i s = concat (map EncodeRune rs)" "start \<le> i"
    "EncodeSQLString_loop s (range_runes i (concat (map EncodeRune rs))) start esc bare buf = (st, esc', bare', bf)"
  shows "bf @ drop st s = buf @ (if esc' \<and> \<not> esc then [CHR ''e'', quote_char] else []) @ slice s start i @
           concat (map escape_rune rs) \<and>
    (esc' \<longleftrightarrow> esc \<or> (\<exists>r \<in> set rs. \<not> plain_rune r)) \<and> (bare' \<longrightarrow> bare)"
  using assms
proof (induction rs arbitrary: i start esc bare buf)
  case Nil
  then show ?case by (auto simp: slice_drop_end range_runes.simps)
next
  case (Cons r rs)
  have v: "valid_rune r" "\<forall>r \<in> set rs. valid_rune r" using Cons.prems(1) by simp_all
  have dr: "drop i s = EncodeRune r @ concat (map EncodeRune rs)" using Cons.prems(2) by simp
  let ?j = "i + length (EncodeRune r)"
  have dj: "drop ?j s = concat (map EncodeRune rs)"
    using arg_cong [OF dr, of "drop (length (EncodeRune r))"] by (simp add: add.commute)
  have sl: "slice s start ?j = slice s start i @ EncodeRune r"
    using slice_append_slice [of start i ?j s] Cons.prems(3) dr by (simp add: slice_def)
  note pr = Cons.prems(4) [unfolded list.map concat.simps range_runes_encode_Cons [OF v(1)]]
  show ?case
  proof (cases "plain_rune r")
    case True
    then have r: "0x20 \<le> r" "r < 0x7F" "r mod 256 = r" "EncodeRune r = [char_of r]"
      "\<not> NeedEscape (char_of r)" "char_of r \<noteq> quote_char"
      by (auto simp: plain_rune_def EncodeRune_def)
    define bare1 where "bare1 = (if mustQuoteMap (char_of r) then False else bare)"
    have "EncodeSQLString_loop s (range_runes ?j (concat (map EncodeRune rs))) start esc bare1 buf
        = (st, esc', bare', bf)"
      using pr r Cons.prems(3) by (simp add: Let_def bare1_def)
    from Cons.IH [OF v(2) dj _ this] show ?thesis
      using Cons.prems(3) sl True r(4) by (auto simp: escape_rune_def bare1_def split: if_splits)
  next
    case False
    have cm: "char_of (r mod 256) = char_of r" by simp
    have ln: "RuneLen r = Some (length (EncodeRune r))" using v(1) by (rule length_EncodeRune)
    define bare1 where "bare1 = (if (0x20 \<le> r \<and> r < 0x7F) \<and> mustQuoteMap (char_of r) then False else bare)"
    have np: "((0x20 \<le> r \<and> r < 0x7F) \<and> \<not> NeedEscape (char_of r) \<and> char_of r \<noteq> quote_char) = False"
      using False by (auto simp: plain_rune_def)
    have "EncodeSQLString_loop s (range_runes ?j (concat (map EncodeRune rs))) ?j True bare1
        (buf @ (if \<not> esc then [CHR ''e'', quote_char] else []) @ slice s start i @ escape_rune r)
        = (st, esc', bare', bf)"
      using pr Cons.prems(3) EncodeEscapedChar_rune [OF v(1) False dr]
      unfolding EncodeSQLString_loop.simps Let_def bare1_def [symmetric] ln cm np by simp
    from Cons.IH [OF v(2) dj _ this] show ?thesis
      using False by (auto simp: bare1_def split: if_splits)
  qed
qed

lemma EncodeSQLString_loop_unescaped:
  "EncodeSQLString_loop s rs start esc bare buf = (st, False, bare', bf) \<Longrightarrow> bf = buf \<and> st = start"
proof (induction s rs start esc bare buf rule: EncodeSQLString_loop.induct)
  case (2 s i r rs start esc bare buf)
  have t: "EncodeSQLString_loop s rs a True b c \<noteq> (st, False, bare', bf)" for a b c
    by (induction s rs a True b c rule: EncodeSQLString_loop.induct) (auto simp: Let_def)
  show ?case using 2 t by (auto simp: Let_def split: if_splits)
qed simp

lemma EscapeSQLString_body:
  assumes "\<forall>r \<in> set rs. valid_rune r" "s = concat (map EncodeRune rs)"
  shows "EscapeSQLString s =
    (if \<forall>r \<in> set rs. plain_rune r then [quote_char] @ s @ [quote_char]
     else [CHR ''e'', quote_char] @ concat (map escape_rune rs) @ [quote_char])"
proof -
  obtain st esc bare bf where l:
    "EncodeSQLString_loop s (range_runes 0 (concat (map EncodeRune rs))) 0 False False [] = (st, esc, bare, bf)"
    by (metis prod_cases4)
  have d: "drop 0 s = concat (map EncodeRune rs)" using assms(2) by simp
  from EncodeSQLString_loop_spec [OF assms(1) d _ l]
  have sp: "bf @ drop st s = (if esc then [CHR ''e'', quote_char] else []) @ concat (map escape_rune rs)"
    "esc \<longleftrightarrow> (\<exists>r \<in> set rs. \<not> plain_rune r)" "\<not> bare" by auto
  have pl: "concat (map escape_rune rs) = s" if "\<forall>r \<in> set rs. plain_rune r"
    unfolding assms(2) using that
    by (intro arg_cong [of _ _ concat]) (auto simp: escape_rune_def plain_rune_def EncodeRune_def)
  have e: "(if st < length s then drop st s else []) = drop st s" by simp
  have f: "HasFlags EncNoFlags EncBareStrings = False" by (simp add: HasFlags_def)
  have "EscapeSQLString s = bf @ (if \<not> esc then [quote_char] else []) @ drop st s @ [quote_char]"
    using l sp(3) unfolding EscapeSQLString_def EncodeSQLStringWithFlags_def f assms(2) [symmetric]
    by (simp add: e Let_def)
  moreover have "bf = [] \<and> st = 0" if "\<not> esc"
    by (rule EncodeSQLString_loop_unescaped) (use that l in simp)
  ultimately show ?thesis
    using sp pl by (cases esc) auto
qed

subsection \<open>Scanning what was printed\<close>

text \<open>At a byte that starts no white space or comment, \<open>scan\<close> runs the switch on it.\<close>

lemma scan_start:
  assumes "drop (spos s) (inp s) = c # cs" "\<not> is_blank (byte_val c)"
    "byte_val c \<notin> {newline_ch, byte_val CHR ''/'', byte_val CHR ''-''}"
  shows "scan env s lval =
    scan_switch env (advance s 1)
      (lval\<lparr>sym_id := byte_val c, sym_pos := word_of_nat (spos s), sym_str := [c]\<rparr>) (byte_val c)"
proof -
  have p: "peek s = byte_val c" "spos s < length (inp s)" using peek_drop [OF assms(1)] by auto
  have "scanComment s l = (s, l, False, True)" for l
    using assms(3) p(1) by (simp add: scanComment_def Let_def)
  then have w: "skipWhitespace s l True = (s, l, False, True)" for l
    using assms(2,3) p(1) by (simp add: skipWhitespace_def skipWhitespace_loop_cases(4))
  have sl: "slice (inp s) (spos s) (Suc (spos s)) = [c]"
    using assms(1) by (simp add: slice_def)
  show ?thesis
    unfolding scan_def w Let_def split scanner_next_drop [OF assms(1)]
    by (simp add: sl)
qed

text \<open>
  The interface between a printer of literals and the scanner: the printed form of an
  admissible text, followed by something that ends a literal, is scanned as one token whose
  string is that text.
\<close>

locale literal_printer =
  fixes env :: lex_env
    and print :: "string \<Rightarrow> string"
    and admissible :: "string \<Rightarrow> bool"
    and tok :: int
    and q :: char
  assumes reads: "admissible x \<Longrightarrow> ends_literal q rest \<Longrightarrow> drop (spos s) (inp s) = print x @ rest \<Longrightarrow>
      \<exists>l. scan env s lval = (advance s (length (print x)), l) \<and> sym_id l = tok \<and> sym_str l = x"
    and tok_named: "tok \<noteq> 0" "tok \<noteq> T_ERROR"
    and comma_ends: "q \<noteq> CHR '',''"
begin

lemma print_inject:
  assumes "admissible x" "admissible y" "print x = print y"
  shows "x = y"
proof -
  have e: "ends_literal q []" by (simp add: ends_literal_def)
  have d: "drop (spos (makeScanner (print x))) (inp (makeScanner (print x))) = print x @ []"
    by (simp add: makeScanner_def)
  then have d': "drop (spos (makeScanner (print x))) (inp (makeScanner (print x))) = print y @ []"
    using assms(3) by simp
  show ?thesis
    using reads [OF assms(1) e d, of zero_sym] reads [OF assms(2) e d', of zero_sym] by auto
qed

lemma tokens_print:
  assumes "admissible x" "ends_literal q rest" "drop (spos s) (inp s) = print x @ rest"
  shows "map token_string (sql.tokens env s) =
    \<lparr>TokenID = tok, Str = x\<rparr> # map token_string (sql.tokens env (advance s (length (print x))))"
proof -
  obtain l where n: "scan env s zero_sym = (advance s (length (print x)), l)" and l: "sym_id l = tok" "sym_str l = x"
    using reads [OF assms] by blast
  show ?thesis using sql.tokens_Cons [OF n] l tok_named(1) by simp
qed

end

lemma scan_comma:
  assumes "drop (spos s) (inp s) = CHR '','' # cs"
  shows "scan env s lval = (advance s 1,
    lval\<lparr>sym_id := byte_val CHR '','', sym_pos := word_of_nat (spos s), sym_str := '',''\<rparr>)"
  using scan_start [OF assms, of env lval]
  by (simp add: is_blank_def scan_switch_def scan_literal_def scan_operator_def char_class_defs)

lemma tokens_comma:
  assumes "drop (spos s) (inp s) = CHR '','' # cs"
  shows "map token_string (sql.tokens env s) =
    \<lparr>TokenID = byte_val CHR '','', Str = '',''\<rparr> # map token_string (sql.tokens env (advance s 1))"
  using sql.tokens_Cons [OF scan_comma [OF assms]] by simp

lemma tokens_exhausted:
  assumes "drop (spos s) (inp s) = []"
  shows "sql.tokens env s = []"
proof -
  have p: "peek s = eof" using assms by (rule peek_drop_Nil)
  have c: "scanComment s l = (s, l, False, True)" for l
    using p by (simp add: scanComment_def Let_def)
  have "skipWhitespace s l True = (s, l, False, True)" for l
    using skipWhitespace_loop_cases(4) [OF _ _ c, of False l] p by (simp add: skipWhitespace_def is_blank_def)
  moreover have "scanner_next s = (s, eof)" using p by (simp add: scanner_next_def)
  ultimately obtain s' t where n: "scan env s zero_sym = (s', t)" "sym_id t = 0"
    by (simp add: scan_def)
  show ?thesis by (rule sql.tokens_end [OF n])
qed

context literal_printer
begin

text \<open>A list of literals, each followed by a comma, is read back as written.\<close>

lemma Tokens_list:
  assumes "\<forall>x \<in> set xs. admissible x"
  shows "Tokens env (concat (map (\<lambda>x. print x @ '','') xs)) =
    Some (concat (map (\<lambda>x. [\<lparr>TokenID = tok, Str = x\<rparr>, \<lparr>TokenID = byte_val CHR '','', Str = '',''\<rparr>]) xs))"
proof -
  have "map token_string (sql.tokens env s) =
      concat (map (\<lambda>x. [\<lparr>TokenID = tok, Str = x\<rparr>, \<lparr>TokenID = byte_val CHR '','', Str = '',''\<rparr>]) xs)"
    if "drop (spos s) (inp s) = concat (map (\<lambda>x. print x @ '','') xs)" for s
    using assms that
  proof (induction xs arbitrary: s)
    case Nil
    then show ?case by (simp add: tokens_exhausted)
  next
    case (Cons x xs)
    let ?rest = "concat (map (\<lambda>x. print x @ '','') xs)"
    have d: "drop (spos s) (inp s) = print x @ '','' @ ?rest" using Cons.prems(2) by simp
    have e: "ends_literal q ('','' @ ?rest)"
      using comma_ends by (simp add: ends_literal_def is_blank_def)
    have d1: "drop (spos (advance s (length (print x)))) (inp (advance s (length (print x)))) = '','' @ ?rest"
      using d by (rule drop_advance)
    have d2: "drop (spos (advance s (length (print x) + 1))) (inp (advance s (length (print x) + 1))) = ?rest"
      using drop_advance [OF d1] by simp
    show ?case
      using tokens_print [OF _ e d] tokens_comma [OF d1 [unfolded append_Cons append_Nil]] Cons.IH [OF _ d2] Cons.prems(1) by simp
  qed
  from this [of "makeScanner (concat (map (\<lambda>x. print x @ '','') xs))"] show ?thesis
    unfolding Tokens_Some_iff using tok_named(2) by (auto simp: makeScanner_def)
qed

end

text \<open>The printers of identifiers, strings and byte strings meet that contract.\<close>

lemma scan_quoted:
  assumes "drop (spos s) (inp s) = c # b @ c # rest" "c = ident_quote_char \<or> c = quote_char"
    "literal_body c False b d" "ends_literal c rest" "utf8_valid d"
  shows "\<exists>l. scan env s lval = (advance s (length b + 2), l) \<and>
    sym_id l = (if c = ident_quote_char then T_IDENT else T_SCONST) \<and> sym_str l = d"
proof -
  have "drop (spos (advance s 1)) (inp (advance s 1)) = b @ c # rest"
    using drop_advance [of s "[c]"] assms(1) by simp
  note st = string_token_body [OF assms(3) this assms(4)]
  have "scan env s lval = scan_switch env (advance s 1)
      (lval\<lparr>sym_id := byte_val c, sym_pos := word_of_nat (spos s), sym_str := [c]\<rparr>) (byte_val c)"
    using assms(2) by (intro scan_start [OF assms(1)]) (auto simp: is_blank_def)
  moreover have "scan_switch env s' l (byte_val c) =
      string_token s' l c False True (if c = ident_quote_char then T_IDENT else T_SCONST)" for s' l
    using assms(2) by (elim disjE) (simp_all add: scan_switch_def scan_literal_def)
  ultimately show ?thesis using st [of True] assms(5) by simp
qed

lemma scan_prefixed:
  assumes "drop (spos s) (inp s) = c # quote_char # b @ quote_char # rest" "c = CHR ''e'' \<or> c = CHR ''b''"
    "literal_body quote_char True b d" "ends_literal quote_char rest" "c = CHR ''e'' \<Longrightarrow> utf8_valid d"
  shows "\<exists>l. scan env s lval = (advance s (Suc (Suc (Suc (length b)))), l) \<and>
    sym_id l = (if c = CHR ''e'' then T_SCONST else T_BCONST) \<and> sym_str l = d"
proof -
  have d1: "drop (spos (advance s 1)) (inp (advance s 1)) = quote_char # b @ quote_char # rest"
    using drop_advance [of s "[c]"] assms(1) by simp
  have "drop (spos (advance s 2)) (inp (advance s 2)) = b @ quote_char # rest"
    using drop_advance [of s "[c, quote_char]"] assms(1) by simp
  note st = string_token_body [OF assms(3) this assms(4)]
  have p: "peek (advance s 1) = byte_val quote_char" using peek_drop [OF d1] by simp
  have "scan env s lval = scan_switch env (advance s 1)
      (lval\<lparr>sym_id := byte_val c, sym_pos := word_of_nat (spos s), sym_str := [c]\<rparr>) (byte_val c)"
    using assms(2) by (intro scan_start [OF assms(1)]) (auto simp: is_blank_def)
  moreover have "scan_switch env (advance s 1) l (byte_val c) =
      string_token (advance s 2) l quote_char True (c = CHR ''e'') (if c = CHR ''e'' then T_SCONST else T_BCONST)" for l
    using assms(2) p by (elim disjE) (simp_all add: scan_switch_def scan_literal_def numeral_2_eq_2)
  ultimately show ?thesis using st [of "c = CHR ''e''"] assms(5) by simp
qed

interpretation sql_ident: literal_printer env EncodeEscapedSQLIdent utf8_valid T_IDENT ident_quote_char
  for env
proof
  fix x rest :: string and s :: scanner and lval
  assume a: "utf8_valid x" "ends_literal ident_quote_char rest"
    "drop (spos s) (inp s) = EncodeEscapedSQLIdent x @ rest"
  then have "drop (spos s) (inp s) = ident_quote_char # double_quotes x @ ident_quote_char # rest"
    by (simp add: EncodeEscapedSQLIdent_body)
  from scan_quoted [OF this _ double_quotes_body a(2,1), of env lval]
  show "\<exists>l. scan env s lval = (advance s (length (EncodeEscapedSQLIdent x)), l) \<and> sym_id l = T_IDENT \<and> sym_str l = x"
    by (simp add: EncodeEscapedSQLIdent_body)
qed simp_all

interpretation sql_bytes: literal_printer env EncodeSQLBytes "\<lambda>_. True" T_BCONST quote_char
  for env
proof
  fix x rest :: string and s :: scanner and lval
  assume a: "ends_literal quote_char rest" "drop (spos s) (inp s) = EncodeSQLBytes x @ rest"
  then have "drop (spos s) (inp s) = CHR ''b'' # quote_char # concat (map escape_byte x) @ quote_char # rest"
    by (simp add: EncodeSQLBytes_body)
  from scan_prefixed [OF this _ escape_byte_body a(1), of env lval]
  show "\<exists>l. scan env s lval = (advance s (length (EncodeSQLBytes x)), l) \<and> sym_id l = T_BCONST \<and> sym_str l = x"
    by (simp add: EncodeSQLBytes_body)
qed simp_all

lemma escape_rune_body:
  "\<forall>r \<in> set rs. valid_rune r \<Longrightarrow>
   literal_body quote_char True (concat (map escape_rune rs)) (concat (map EncodeRune rs))"
  by (induction rs) (auto intro: literal_body_rune literal_body.empty)

lemma plain_body:
  "\<forall>r \<in> set rs. plain_rune r \<Longrightarrow>
   literal_body quote_char False (concat (map EncodeRune rs)) (concat (map EncodeRune rs))"
  by (induction rs) (auto simp: plain_rune_def EncodeRune_def intro: literal_body.intros)

interpretation sql_string: literal_printer env EscapeSQLString utf8_valid T_SCONST quote_char
  for env
proof
  fix x rest :: string and s :: scanner and lval
  assume a: "utf8_valid x" "ends_literal quote_char rest" "drop (spos s) (inp s) = EscapeSQLString x @ rest"
  obtain rs where rs: "\<forall>r \<in> set rs. valid_rune r" "x = concat (map EncodeRune rs)"
    using utf8_valid_runes [OF a(1)] by blast
  note b = EscapeSQLString_body [OF rs]
  show "\<exists>l. scan env s lval = (advance s (length (EscapeSQLString x)), l) \<and> sym_id l = T_SCONST \<and> sym_str l = x"
  proof (cases "\<forall>r \<in> set rs. plain_rune r")
    case True
    then have "drop (spos s) (inp s) = quote_char # x @ quote_char # rest" using a(3) b by simp
    from scan_quoted [OF this _ plain_body [OF True, folded rs(2)] a(2,1), of env lval]
    show ?thesis using b True by simp
  next
    case False
    then have "drop (spos s) (inp s) = CHR ''e'' # quote_char # concat (map escape_rune rs) @ quote_char # rest"
      using a(3) b by simp
    from scan_prefixed [OF this _ escape_rune_body [OF rs(1), folded rs(2)] a(2), of env lval]
    show ?thesis using b False a(1) by simp
  qed
qed simp_all

subsection \<open>Bare identifiers\<close>

text \<open>What may follow a bare identifier: neither a character of an identifier nor a quote.\<close>

definition ends_ident :: "string \<Rightarrow> bool" where
  "ends_ident rest \<longleftrightarrow>
     (case rest of [] \<Rightarrow> True | c # _ \<Rightarrow> \<not> IsIdentMiddle (byte_val c) \<and> c \<noteq> quote_char)"

lemma peek_ends_ident:
  assumes "drop (spos s) (inp s) = rest" "ends_ident rest"
  shows "\<not> IsIdentMiddle (peek s)" "peek s \<noteq> singleQuote"
  using assms peek_drop [of s] peek_drop_Nil [of s] byte_val_neq [of _ quote_char]
  by (auto simp: ends_ident_def split: list.splits)

lemma scanIdent_loop_bare:
  assumes "drop (spos s) (inp s) = x @ rest" "ends_ident rest"
    "\<forall>c \<in> set x. IsIdentMiddle (byte_val c) \<and> \<not> IsUpper (byte_val c)"
  shows "\<exists>a. scanIdent_loop s ascii True = (advance s (length x), a, True)"
  using assms
proof (induction x arbitrary: s ascii)
  case Nil
  then have "\<not> IsIdentMiddle (peek s)" using peek_ends_ident [of s rest] by simp
  moreover from this have "\<not> IsUpper (peek s)" using IsUpper_IdentStart IsIdentStart_Middle by blast
  ultimately show ?case by (subst scanIdent_loop.simps) (simp add: advance_def)
next
  case (Cons c x)
  have p: "peek s = byte_val c" using peek_drop [of s c "x @ rest"] Cons.prems(1) by simp
  have d: "drop (spos (advance s 1)) (inp (advance s 1)) = x @ rest"
    using drop_advance [of s "[c]"] Cons.prems(1) by simp
  have "scanIdent_loop s ascii True = scanIdent_loop (advance s 1) (if byte_val c \<ge> RuneSelf then False else ascii) True"
    using Cons.prems(3) by (subst scanIdent_loop.simps) (simp add: p Let_def)
  then show ?case using Cons.IH [OF d Cons.prems(2)] Cons.prems(3) by simp
qed

lemma ident_start_switch:
  assumes "IsIdentStart (byte_val c)" "\<not> IsUpper (byte_val c)" "peek s \<noteq> singleQuote"
  shows "scan_switch env s lval (byte_val c) = scanIdent env s lval"
proof -
  have "byte_val c \<noteq> byte_val d" if "\<not> IsIdentStart (byte_val d)" for d using assms(1) that by metis
  note n = this [of "CHR ''$''"] this [of "CHR 0x22"] this [of "CHR 0x27"] this [of "CHR ''.''"] this [of "CHR ''!''"]
    this [of "CHR ''?''"] this [of "CHR ''<''"] this [of "CHR ''>''"] this [of "CHR '':''"] this [of "CHR ''|''"]
    this [of "CHR ''/''"] this [of "CHR ''~''"] this [of "CHR ''@''"] this [of "CHR ''&''"] this [of "CHR ''-''"]
    this [of "CHR ''#''"]
  have o: "scan_operator env s lval (byte_val c) = None"
    using n by (simp add: scan_operator_def char_class_defs)
  have d: "\<not> IsDigit (byte_val c)" using assms(1) by (auto simp: char_class_defs)
  have l: "scan_literal env s lval (byte_val c) \<in> {None, Some (scanIdent env s lval)}"
    using n assms(3) by (simp add: scan_literal_def char_class_defs)
  then show ?thesis using o d assms(1) by (auto simp: scan_switch_def)
qed

lemma scan_bare:
  assumes "isBareIdentifier env x" "drop (spos s) (inp s) = x @ rest" "ends_ident rest"
  shows "\<exists>l. scan env s lval = (advance s (length x), l) \<and> sym_id l = snd (ident_keyword x) \<and>
    sym_str l = fst (ident_keyword x)"
proof -
  obtain c cs where x: "x = c # cs" "IsIdentStart (byte_val c)" "\<not> IsUpper (byte_val c)"
    and all: "\<forall>d \<in> set x. IsIdentMiddle (byte_val d) \<and> \<not> IsUpper (byte_val d)"
    using assms(1) by (auto simp: isBareIdentifier_def IsIdentStart_Middle split: list.splits if_splits)
  have d: "drop (spos s) (inp s) = c # cs @ rest" using assms(2) x(1) by simp
  have d1: "drop (spos (advance s 1)) (inp (advance s 1)) = cs @ rest"
    using drop_advance [of s "[c]"] d by simp
  have q: "peek (advance s 1) \<noteq> singleQuote"
  proof (cases cs)
    case Nil
    then show ?thesis using peek_ends_ident [OF _ assms(3)] d1 by simp
  next
    case (Cons b bs)
    then have "IsIdentMiddle (byte_val b)" "peek (advance s 1) = byte_val b"
      using all x(1) peek_drop [of "advance s 1" b "bs @ rest"] d1 by simp_all
    then show ?thesis by (auto simp: char_class_defs)
  qed
  have nb: "\<not> is_blank (byte_val c)" "byte_val c \<notin> {newline_ch, byte_val CHR ''/'', byte_val CHR ''-''}"
    using x(2) by (auto simp: char_class_defs is_blank_def)
  have s0: "(advance s 1)\<lparr>spos := spos (advance s 1) - 1\<rparr> = s" by (simp add: advance_def)
  obtain a where lp: "scanIdent_loop s True True = (advance s (length x), a, True)"
    using scanIdent_loop_bare [OF assms(2,3) all] by blast
  have sl: "slice (inp s) (spos s) (spos s + length x) = x"
    using assms(2) by (simp add: slice_def)
  show ?thesis
    unfolding scan_start [OF d nb] ident_start_switch [OF x(2,3) q] scanIdent_def Let_def s0 lp
    using sl by (simp add: split_beta)
qed

text \<open>The scanner reads a bare identifier back, the two allowed \<open>experimental_\<close> spellings apart.\<close>

definition renamed_experimental :: "string list" where
  "renamed_experimental = map (append ''experimental_'') AllowedExperimental @ map (append ''testing_'') AllowedExperimental"

lemma ident_keyword_kept:
  assumes "x \<notin> set renamed_experimental"
  shows "ident_keyword x = (x, GetKeywordID x)"
proof -
  have r: "x \<noteq> ''experimental_ranges''" "x \<noteq> ''testing_ranges''"
    using assms by (auto simp: renamed_experimental_def AllowedExperimental_def)
  have ex: "x = ''experimental_ranges''" if "take 13 x = ''experimental_''" "drop 13 x = ''ranges''"
    using append_take_drop_id [of 13 x, symmetric] unfolding that by simp
  have te: "x = ''testing_ranges''" if "take 8 x = ''testing_''" "drop 8 x = ''ranges''"
    using append_take_drop_id [of 8 x, symmetric] unfolding that by simp
  have "snd (experimental_split x) \<Longrightarrow> fst (experimental_split x) \<notin> set AllowedExperimental"
    using r ex te by (auto simp: experimental_split_def AllowedExperimental_def split: if_splits)
  moreover have "\<not> snd (experimental_split x) \<Longrightarrow> fst (experimental_split x) = x"
    by (auto simp: experimental_split_def split: if_splits)
  ultimately show ?thesis by (auto simp: ident_keyword_def Let_def split: prod.splits)
qed

lemma Tokens_one:
  assumes "scan env (makeScanner x) zero_sym = (advance (makeScanner x) (length x), l)"
    "sym_id l \<noteq> 0" "sym_id l \<noteq> T_ERROR"
  shows "Tokens env x = Some [\<lparr>TokenID = sym_id l, Str = sym_str l\<rparr>]"
proof -
  have "sql.tokens env (advance (makeScanner x) (length x)) = []"
    by (rule tokens_exhausted) (simp add: makeScanner_def)
  then show ?thesis
    unfolding Tokens_Some_iff using sql.tokens_Cons [OF assms(1)] assms(2,3) by simp
qed

lemma Tokens_bare:
  assumes "isBareIdentifier env x"
  shows "Tokens env x = Some [\<lparr>TokenID = snd (ident_keyword x), Str = fst (ident_keyword x)\<rparr>]"
proof -
  have "snd (ident_keyword x) \<in> range GetKeywordID"
    by (auto simp: ident_keyword_def Let_def split: prod.splits)
  then obtain k where "snd (ident_keyword x) = GetKeywordID k" by blast
  then have "snd (ident_keyword x) \<noteq> 0" "snd (ident_keyword x) \<noteq> T_ERROR"
    using GetKeywordID_named [of k] by auto
  moreover have "drop (spos (makeScanner x)) (inp (makeScanner x)) = x @ []" "ends_ident []"
    by (simp_all add: makeScanner_def ends_ident_def)
  ultimately show ?thesis using scan_bare [OF assms] Tokens_one [of env x] by metis
qed

lemma Tokens_escaped:
  assumes "utf8_valid x"
  shows "Tokens env (EncodeEscapedSQLIdent x) = Some [\<lparr>TokenID = T_IDENT, Str = x\<rparr>]"
proof -
  have "drop (spos (makeScanner (EncodeEscapedSQLIdent x))) (inp (makeScanner (EncodeEscapedSQLIdent x)))
      = EncodeEscapedSQLIdent x @ []" "ends_literal ident_quote_char []"
    by (simp_all add: makeScanner_def ends_literal_def)
  then obtain l where "scan env (makeScanner (EncodeEscapedSQLIdent x)) zero_sym =
      (advance (makeScanner (EncodeEscapedSQLIdent x)) (length (EncodeEscapedSQLIdent x)), l)"
    "sym_id l = T_IDENT" "sym_str l = x"
    using sql_ident.reads [OF assms] by blast
  then show ?thesis using Tokens_one by fastforce
qed

subsection \<open>Round trips\<close>

text \<open>
  C16: for every list of valid UTF-8 names, printing each with \<open>EncodeEscapedSQLIdent\<close> and a
  comma after it gives a text whose tokens are exactly those names as identifiers, separated
  by commas: whatever quotes, keywords or control characters a name has, it comes back.
\<close>

theorem EncodeEscapedSQLIdent_roundtrip:
  assumes "\<forall>x \<in> set xs. utf8_valid x"
  shows "Tokens env (concat (map (\<lambda>x. EncodeEscapedSQLIdent x @ '','') xs)) =
    Some (concat (map (\<lambda>x. [\<lparr>TokenID = T_IDENT, Str = x\<rparr>, \<lparr>TokenID = byte_val CHR '','', Str = '',''\<rparr>]) xs))"
  using assms by (rule sql_ident.Tokens_list)

theorem EncodeEscapedSQLIdent_roundtrip_witness:
  "Tokens sample_env (concat (map (\<lambda>x. EncodeEscapedSQLIdent x @ '','') [[CHR ''a'', CHR 0x22], ''select''])) =
    Some (concat (map (\<lambda>x. [\<lparr>TokenID = T_IDENT, Str = x\<rparr>, \<lparr>TokenID = byte_val CHR '','', Str = '',''\<rparr>])
      [[CHR ''a'', CHR 0x22], ''select'']))"
  by (rule EncodeEscapedSQLIdent_roundtrip) (auto intro!: utf8_valid_ascii)

text \<open>
  C3: \<open>EscapeSQLString\<close> is safe to embed in a statement: for every list of valid UTF-8
  strings, the printed literals separated by commas are scanned back as exactly those
  strings, so no content of a string can end its literal early.
\<close>

theorem EscapeSQLString_roundtrip:
  assumes "\<forall>x \<in> set xs. utf8_valid x"
  shows "Tokens env (concat (map (\<lambda>x. EscapeSQLString x @ '','') xs)) =
    Some (concat (map (\<lambda>x. [\<lparr>TokenID = T_SCONST, Str = x\<rparr>, \<lparr>TokenID = byte_val CHR '','', Str = '',''\<rparr>]) xs))"
  using assms by (rule sql_string.Tokens_list)

theorem EscapeSQLString_roundtrip_witness:
  "Tokens sample_env (concat (map (\<lambda>x. EscapeSQLString x @ '','') [[CHR ''a'', CHR 0x27, CHR '';''], []])) =
    Some (concat (map (\<lambda>x. [\<lparr>TokenID = T_SCONST, Str = x\<rparr>, \<lparr>TokenID = byte_val CHR '','', Str = '',''\<rparr>])
      [[CHR ''a'', CHR 0x27, CHR '';''], []]))"
  by (rule EscapeSQLString_roundtrip) (auto intro!: utf8_valid_ascii)

text \<open>
  C17: \<open>EncodeSQLBytes\<close> loses nothing: any list of byte strings, valid UTF-8 or not, printed
  as byte literals separated by commas, is scanned back byte for byte.
\<close>

theorem EncodeSQLBytes_roundtrip:
  "Tokens env (concat (map (\<lambda>x. EncodeSQLBytes x @ '','') xs)) =
    Some (concat (map (\<lambda>x. [\<lparr>TokenID = T_BCONST, Str = x\<rparr>, \<lparr>TokenID = byte_val CHR '','', Str = '',''\<rparr>]) xs))"
  by (rule sql_bytes.Tokens_list) simp

text \<open>
  C28: \<open>EncodeRestrictedSQLIdent\<close> without flags prints a name that the scanner reads back
  under that name: as an identifier if it was quoted, and as the word itself if it was
  printed bare. The two \<open>experimental_\<close> spellings of an allowed feature are excluded.
\<close>

theorem EncodeRestrictedSQLIdent_roundtrip:
  assumes "utf8_valid x" "x \<notin> set renamed_experimental"
  shows "Tokens env (EncodeRestrictedSQLIdent env x EncNoFlags) =
    Some [\<lparr>TokenID = (if isBareIdentifier env x \<and> \<not> isReservedKeyword x then GetKeywordID x else T_IDENT),
           Str = x\<rparr>]"
  using Tokens_bare [of env x] Tokens_escaped [OF assms(1)] ident_keyword_kept [OF assms(2)]
  by (simp add: EncodeRestrictedSQLIdent_def HasFlags_def)

theorem EncodeRestrictedSQLIdent_roundtrip_witness:
  "Tokens sample_env (EncodeRestrictedSQLIdent sample_env ''a b'' EncNoFlags) =
    Some [\<lparr>TokenID = (if isBareIdentifier sample_env ''a b'' \<and> \<not> isReservedKeyword ''a b''
             then GetKeywordID ''a b'' else T_IDENT), Str = ''a b''\<rparr>]"
  by (rule EncodeRestrictedSQLIdent_roundtrip)
    (auto intro!: utf8_valid_ascii simp: renamed_experimental_def AllowedExperimental_def)


end
