(* ===== verification/Bytes_Encode.thy ===== *)
theory Bytes_Encode
  imports Lex_Encode Pgerror
begin

text \<open>
  Conversions between byte arrays and text, \<open>lex/encode.go\<close>: the formats \<open>hex\<close>, \<open>escape\<close> and
  \<open>base64\<close>, with what they use of \<open>encoding/hex\<close> and \<open>encoding/base64\<close>. The fast paths of the
  base64 decoder, which read eight characters at a time, have no behaviour of their own and
  are not separate here.
\<close>

subsection \<open>Formats\<close>

type_synonym BytesEncodeFormat = int

abbreviation BytesEncodeHex :: BytesEncodeFormat where "BytesEncodeHex \<equiv> 0"
abbreviation BytesEncodeEscape :: BytesEncodeFormat where "BytesEncodeEscape \<equiv> 1"
abbreviation BytesEncodeBase64 :: BytesEncodeFormat where "BytesEncodeBase64 \<equiv> 2"

definition show_int :: "int \<Rightarrow> string" where
  "show_int i = (if i < 0 then CHR ''-'' # show_nat (nat (- i)) else show_nat (nat i))"

definition BytesEncodeFormat_String :: "BytesEncodeFormat \<Rightarrow> string" where
  "BytesEncodeFormat_String f =
     (if f = BytesEncodeHex then ''hex''
      else if f = BytesEncodeEscape then ''escape''
      else if f = BytesEncodeBase64 then ''base64''
      else ''invalid ('' @ show_int f @ '')'')"

text \<open>\<open>strings.ToUpper\<close>, with \<open>unicode.ToUpper\<close> as a parameter for text that is not ASCII.\<close>

definition upper_byte :: "char \<Rightarrow> char" where
  "upper_byte c = (let n = of_char c :: nat in if 97 \<le> n \<and> n \<le> 122 then char_of (n - 32) else c)"

definition strings_ToUpper :: "(nat \<Rightarrow> nat) \<Rightarrow> string \<Rightarrow> string" where
  "strings_ToUpper up s =
     (if \<forall>c \<in> set s. byte_val c < RuneSelf then map upper_byte s else strings_Map up s)"

definition BytesEncodeFormatFromString :: "(nat \<Rightarrow> nat) \<Rightarrow> string \<Rightarrow> BytesEncodeFormat \<times> bool" where
  "BytesEncodeFormatFromString up val =
     (let u = strings_ToUpper up val in
      if u = ''HEX'' then (BytesEncodeHex, True)
      else if u = ''ESCAPE'' then (BytesEncodeEscape, True)
      else if u = ''BASE64'' then (BytesEncodeBase64, True)
      else (- 1, False))"

datatype decode_error =
    HexInvalidByte char
  | HexErrLength
  | Base64CorruptInput nat
  | EscapeError sql_error
  | AssertionFailed string

abbreviation cons_result :: "'a \<Rightarrow> 'e + 'a list \<Rightarrow> 'e + 'a list" where
  "cons_result x r \<equiv> bind_result r (\<lambda>xs. Inr (x # xs))"

subsection \<open>Hexadecimal\<close>

definition hex_Encode :: "string \<Rightarrow> string" where
  "hex_Encode data = concat (map RawHexMap data)"

fun hex_Decode :: "string \<Rightarrow> decode_error + string" where
  "hex_Decode [] = Inr []"
| "hex_Decode [c] = Inl (if hex_digit_value c = None then HexInvalidByte c else HexErrLength)"
| "hex_Decode (c # d # cs) =
     (case hex_digit_value c of
        None \<Rightarrow> Inl (HexInvalidByte c)
      | Some a \<Rightarrow>
          (case hex_digit_value d of
             None \<Rightarrow> Inl (HexInvalidByte d)
           | Some b \<Rightarrow> cons_result (char_of (16 * a + b)) (hex_Decode cs)))"

subsection \<open>Octal escapes\<close>

definition encode_escape_byte :: "char \<Rightarrow> string" where
  "encode_escape_byte c =
     (let n = of_char c :: nat in
      if c = CHR 0x5C then [CHR 0x5C, CHR 0x5C]
      else if n < 32 \<or> n \<ge> 127 then
        [CHR 0x5C, char_of (48 + drop_bit 6 n), char_of (48 + (drop_bit 3 n AND 7)), char_of (48 + (n AND 7))]
      else [c])"

definition encode_escape :: "string \<Rightarrow> string" where
  "encode_escape data = concat (map encode_escape_byte data)"

text \<open>The loop over the three octal digits, \<open>j\<close> from 1, with the byte read so far.\<close>

fun octal_byte :: "nat \<Rightarrow> nat \<Rightarrow> string \<Rightarrow> nat option" where
  "octal_byte j b [] = Some b"
| "octal_byte j b (d # ds) =
     (let oct = of_char d :: nat in
      if oct < 48 \<or> oct > 55 \<or> (j = 1 \<and> oct > 51) then None
      else octal_byte (j + 1) ((push_bit 3 b) mod 256 OR (oct - 48)) ds)"

definition escape_error :: "string \<Rightarrow> decode_error" where
  "escape_error msg = EscapeError (pgerror_New ''22025'' msg)"

fun decode_escape :: "string \<Rightarrow> decode_error + string" where
  "decode_escape [] = Inr []"
| "decode_escape (ch # cs) =
     (if ch \<noteq> CHR 0x5C then cons_result ch (decode_escape cs)
      else
        (case cs of
           [] \<Rightarrow> Inl (escape_error ''bytea encoded value ends with escape character'')
         | c1 # cs1 \<Rightarrow>
             if c1 = CHR 0x5C then cons_result CHR 0x5C (decode_escape cs1)
             else
               (case cs1 of
                  c2 # c3 # cs3 \<Rightarrow>
                    (case octal_byte 1 0 [c1, c2, c3] of
                       None \<Rightarrow> Inl (escape_error ''invalid bytea escape sequence'')
                     | Some b \<Rightarrow> cons_result (char_of b) (decode_escape cs3))
                | _ \<Rightarrow> Inl (escape_error ''bytea encoded value ends with incomplete escape sequence''))))"

subsection \<open>Base 64\<close>

definition encodeStd :: string where
  "encodeStd = ''ABCDEFGHIJKLMNOPQRSTUVWXYZabcdefghijklmnopqrstuvwxyz0123456789+/''"

text \<open>\<open>decodeMap\<close>; \<open>None\<close> is the entry \<open>0xFF\<close>.\<close>

definition decodeMap :: "char \<Rightarrow> nat option" where
  "decodeMap c =
     (let n = of_char c :: nat in
      if 65 \<le> n \<and> n \<le> 90 then Some (n - 65)
      else if 97 \<le> n \<and> n \<le> 122 then Some (n - 97 + 26)
      else if 48 \<le> n \<and> n \<le> 57 then Some (n - 48 + 52)
      else if n = 43 then Some 62
      else if n = 47 then Some 63
      else None)"

abbreviation pad_char :: char where "pad_char \<equiv> CHR ''=''"

definition sextet :: "nat \<Rightarrow> nat \<Rightarrow> char" where
  "sextet val k = encodeStd ! (val div 2 ^ k mod 64)"

fun base64_Encode :: "string \<Rightarrow> string" where
  "base64_Encode [] = []"
| "base64_Encode [a] =
     (let val = of_char a * 2 ^ 16 in [sextet val 18, sextet val 12, pad_char, pad_char])"
| "base64_Encode [a, b] =
     (let val = of_char a * 2 ^ 16 + of_char b * 2 ^ 8 in [sextet val 18, sextet val 12, sextet val 6, pad_char])"
| "base64_Encode (a # b # c # cs) =
     (let val = of_char a * 2 ^ 16 + of_char b * 2 ^ 8 + of_char c in
      [sextet val 18, sextet val 12, sextet val 6, sextet val 0] @ base64_Encode cs)"

definition is_newline :: "char \<Rightarrow> bool" where
  "is_newline c \<longleftrightarrow> c = CHR 0x0A \<or> c = CHR 0x0D"

fun skip_newlines :: "nat \<Rightarrow> string \<Rightarrow> nat \<times> string" where
  "skip_newlines si [] = (si, [])"
| "skip_newlines si (c # cs) = (if is_newline c then skip_newlines (si + 1) cs else (si, c # cs))"

text \<open>
  One quantum of up to four digits from position \<open>si\<close>: an error position, or the digits, the
  position and text after them, and the position of trailing garbage after the padding.
\<close>

datatype quantum = Corrupt nat | Quantum "nat list" nat string "nat option"

definition after_padding :: "nat list \<Rightarrow> nat \<Rightarrow> string \<Rightarrow> quantum" where
  "after_padding dbuf si src =
     (case skip_newlines si src of (si', src') \<Rightarrow> Quantum dbuf si' src' (if src' = [] then None else Some si'))"

fun decodeQuantum :: "nat list \<Rightarrow> nat \<Rightarrow> string \<Rightarrow> quantum" where
  "decodeQuantum dbuf si [] =
     (if length dbuf = 4 \<or> dbuf = [] then Quantum dbuf si [] None else Corrupt (si - length dbuf))"
| "decodeQuantum dbuf si (c # cs) =
     (if length dbuf = 4 then Quantum dbuf si (c # cs) None
      else
        (case decodeMap c of
           Some d \<Rightarrow> decodeQuantum (dbuf @ [d]) (si + 1) cs
         | None \<Rightarrow>
             if is_newline c then decodeQuantum dbuf (si + 1) cs
             else if c \<noteq> pad_char \<or> length dbuf < 2 then Corrupt si
             else if length dbuf = 2 then
               (case skip_newlines (si + 1) cs of
                  (si1, []) \<Rightarrow> Corrupt si1
                | (si1, d # ds) \<Rightarrow> if d \<noteq> pad_char then Corrupt (si1 - 1) else after_padding dbuf (si1 + 1) ds)
             else after_padding dbuf (si + 1) cs))"

definition quantum_bytes :: "nat list \<Rightarrow> string" where
  "quantum_bytes dbuf =
     (let d = dbuf @ replicate (4 - length dbuf) 0;
          val = d ! 0 * 2 ^ 18 + d ! 1 * 2 ^ 12 + d ! 2 * 2 ^ 6 + d ! 3
      in take (length dbuf - 1) [char_of (val div 2 ^ 16 mod 256), char_of (val div 2 ^ 8 mod 256), char_of (val mod 256)])"

lemma skip_newlines_length: "skip_newlines si src = (si', src') \<Longrightarrow> length src' \<le> length src"
  by (induction si src rule: skip_newlines.induct) (auto split: if_splits)

lemma after_padding_length:
  "after_padding dbuf si src = Quantum ds si' rest err \<Longrightarrow> length rest \<le> length src"
  by (auto simp: after_padding_def dest: skip_newlines_length split: prod.splits)

lemma decodeQuantum_length:
  "decodeQuantum dbuf si src = Quantum ds si' rest err \<Longrightarrow> length rest \<le> length src"
proof (induction dbuf si src rule: decodeQuantum.induct)
  case (2 dbuf si c cs)
  then show ?case
    by (auto split: option.splits if_splits prod.splits list.splits
        dest!: after_padding_length dest: skip_newlines_length le_SucI)
qed (auto split: if_splits)

lemma decodeQuantum_consumes:
  assumes "decodeQuantum [] si src = Quantum ds si' rest err" "src \<noteq> []"
  shows "length rest < length src"
proof -
  obtain c cs where [simp]: "src = c # cs" using assms(2) by (cases src) auto
  show ?thesis
    using assms(1) by (auto split: option.splits if_splits dest!: decodeQuantum_length)
qed

function base64_Decode :: "nat \<Rightarrow> string \<Rightarrow> decode_error + string" where
  "base64_Decode si src =
     (if src = [] then Inr []
      else
        (case decodeQuantum [] si src of
           Corrupt p \<Rightarrow> Inl (Base64CorruptInput p)
         | Quantum ds si' rest (Some p) \<Rightarrow> Inl (Base64CorruptInput p)
         | Quantum ds si' rest None \<Rightarrow>
             bind_result (base64_Decode si' rest) (\<lambda>bs. Inr (quantum_bytes ds @ bs))))"
  by pat_completeness auto
termination
  by (relation "measure (\<lambda>(si, src). length src)") (auto dest: decodeQuantum_consumes)

declare base64_Decode.simps [simp del]

subsection \<open>The conversions\<close>

text \<open>\<open>None\<close> is the panic on an unknown format.\<close>

definition EncodeByteArrayToRawBytes :: "string \<Rightarrow> BytesEncodeFormat \<Rightarrow> bool \<Rightarrow> string option" where
  "EncodeByteArrayToRawBytes data be skipHexPrefix =
     (if be = BytesEncodeHex then
        Some ((if skipHexPrefix then [] else [CHR 0x5C, CHR ''x'']) @ hex_Encode data)
      else if be = BytesEncodeEscape then Some (encode_escape data)
      else if be = BytesEncodeBase64 then Some (base64_Encode data)
      else None)"

definition DecodeRawBytesToByteArray :: "string \<Rightarrow> BytesEncodeFormat \<Rightarrow> decode_error + string" where
  "DecodeRawBytesToByteArray data be =
     (if be = BytesEncodeHex then hex_Decode data
      else if be = BytesEncodeEscape then decode_escape data
      else if be = BytesEncodeBase64 then base64_Decode 0 data
      else Inl (AssertionFailed (''unhandled format: '' @ BytesEncodeFormat_String be)))"

definition DecodeRawBytesToByteArrayAuto :: "string \<Rightarrow> decode_error + string" where
  "DecodeRawBytesToByteArrayAuto data =
     (if length data \<ge> 2 \<and> data ! 0 = CHR 0x5C \<and> (data ! 1 = CHR ''x'' \<or> data ! 1 = CHR ''X'')
      then DecodeRawBytesToByteArray (drop 2 data) BytesEncodeHex
      else DecodeRawBytesToByteArray data BytesEncodeEscape)"

subsection \<open>Codecs\<close>

text \<open>The contract of a conversion: decoding what was encoded gives it back.\<close>

locale byte_codec =
  fixes encode :: "string \<Rightarrow> string"
    and decode :: "string \<Rightarrow> decode_error + string"
  assumes decode_encode: "decode (encode x) = Inr x"
begin

lemma encode_inject: "encode x = encode y \<longleftrightarrow> x = y"
  by (metis decode_encode sum.inject(2))

lemma decode_range: "x \<in> range encode \<Longrightarrow> \<exists>y. decode x = Inr y"
  using decode_encode by blast

end

lemma hex_Decode_RawHexMap: "hex_Decode (RawHexMap c @ cs) = cons_result c (hex_Decode cs)"
proof -
  have lt: "(of_char c :: nat) < 256" by simp
  have b: "of_char c div 16 < (16 :: nat)" "of_char c mod 16 < (16 :: nat)"
    using lt by (simp_all add: less_mult_imp_div_less del: nat_of_char_less_256)
  have "16 * (of_char c div 16) + of_char c mod 16 = (of_char c :: nat)" by simp
  then show ?thesis
    using hex_digit_value_writeHexDigit [OF b(1)] hex_digit_value_writeHexDigit [OF b(2)]
    by (simp add: RawHexMap_def Let_def)
qed

lemma hex_Decode_Encode: "hex_Decode (hex_Encode x) = Inr x"
  by (induction x) (simp_all add: hex_Encode_def hex_Decode_RawHexMap)

lemma octal_combine:
  assumes "d < (8 :: nat)"
  shows "push_bit 3 b OR d = 8 * b + d"
proof -
  have "d = take_bit 3 d" using assms by (simp add: take_bit_nat_eq_self)
  moreover have "push_bit 3 b AND take_bit 3 d = 0" by (rule bit_eqI) (auto simp: bit_simps)
  ultimately have "push_bit 3 b AND d = 0" by simp
  then have "push_bit 3 b OR d = push_bit 3 b + d" by (simp add: disjunctive_add_eq_or)
  then show ?thesis by (simp add: push_bit_eq_mult mult.commute)
qed

lemma octal_byte_encode:
  assumes "n < 256"
  shows "octal_byte 1 0 [char_of (48 + drop_bit 6 n), char_of (48 + (drop_bit 3 n AND 7)), char_of (48 + (n AND 7))] = Some n"
proof -
  have d: "drop_bit 6 n = n div 64" "drop_bit 3 n AND 7 = n div 8 mod 8" "n AND 7 = n mod 8"
    using take_bit_eq_mask [of 3 "drop_bit 3 n"] take_bit_eq_mask [of 3 n]
    by (simp_all add: drop_bit_eq_div take_bit_eq_mod mask_eq_exp_minus_1)
  have a: "n div 64 < 4" using assms by (simp add: less_mult_imp_div_less)
  have "n div 64 = n div 8 div 8" by (simp add: div_mult2_eq)
  then have m: "8 * (n div 64) + n div 8 mod 8 = n div 8" by simp
  have "8 * (n div 8) + n mod 8 = n" by simp
  note m = m this
  have lt: "8 * (n div 64) < 256" "8 * (n div 8) < 256" using a m assms by linarith+
  have o: "octal_byte j b (char_of (48 + k) # ds) = octal_byte (j + 1) (8 * b + k) ds"
    if "k < 8" "j \<noteq> 1 \<or> k < 4" "8 * b < 256" for j b k ds
    using that octal_combine [of k b] by (auto simp: Let_def push_bit_eq_mult mult.commute)
  show ?thesis unfolding d using a lt m by (simp add: o del: octal_byte.simps(2))
qed

lemma decode_escape_byte: "decode_escape (encode_escape_byte c @ cs) = cons_result c (decode_escape cs)"
proof -
  have "char_of (48 + drop_bit 6 (of_char c :: nat)) \<noteq> CHR 0x5C"
  proof
    assume "char_of (48 + drop_bit 6 (of_char c :: nat)) = CHR 0x5C"
    moreover have "of_char c div (64 :: nat) < 4" by (simp add: less_mult_imp_div_less)
    ultimately show False by (auto simp: drop_bit_eq_div dest: arg_cong [of _ _ "of_char :: char \<Rightarrow> nat"])
  qed
  then show ?thesis
    using octal_byte_encode [of "of_char c"] by (simp add: encode_escape_byte_def Let_def)
qed

lemma decode_encode_escape: "decode_escape (encode_escape x) = Inr x"
  by (induction x) (simp_all add: encode_escape_def decode_escape_byte)

lemma base64_digits: "map decodeMap encodeStd = map Some [0..<64]"
  by code_simp

lemma base64_digit: "d < 64 \<Longrightarrow> decodeMap (encodeStd ! d) = Some d"
proof -
  have "length encodeStd = 64" by (simp add: encodeStd_def)
  then show "d < 64 \<Longrightarrow> decodeMap (encodeStd ! d) = Some d"
    using arg_cong [OF base64_digits, of "\<lambda>xs. xs ! d"] by simp
qed

lemma base64_pad: "decodeMap pad_char = None" "\<not> is_newline pad_char"
  by (simp_all add: decodeMap_def is_newline_def Let_def)

lemma decodeQuantum_four:
  assumes "a < 64" "b < 64" "c < 64" "d < 64"
  shows "decodeQuantum [] si (encodeStd ! a # encodeStd ! b # encodeStd ! c # encodeStd ! d # rest) =
    Quantum [a, b, c, d] (si + 4) rest None"
  using assms by (cases rest) (simp_all add: base64_digit)

lemma decodeQuantum_three:
  assumes "a < 64" "b < 64" "c < 64"
  shows "decodeQuantum [] si [encodeStd ! a, encodeStd ! b, encodeStd ! c, pad_char] = Quantum [a, b, c] (si + 4) [] None"
  using assms by (simp add: base64_digit base64_pad after_padding_def)

lemma decodeQuantum_two:
  assumes "a < 64" "b < 64"
  shows "decodeQuantum [] si [encodeStd ! a, encodeStd ! b, pad_char, pad_char] = Quantum [a, b] (si + 4) [] None"
  using assms by (simp add: base64_digit base64_pad after_padding_def)

lemma sextets_sum:
  assumes "val < (16777216 :: nat)"
  shows "(val div 262144 mod 64) * 262144 + (val div 4096 mod 64) * 4096 + (val div 64 mod 64) * 64 + val mod 64 = val"
proof -
  have d: "val div 4096 = val div 64 div 64" "val div 262144 = val div 64 div 64 div 64"
    by (simp_all flip: div_mult2_eq)
  have "val div 64 div 64 div 64 < 64" using assms by (simp add: less_mult_imp_div_less flip: div_mult2_eq)
  then have "(val div 64 div 64 div 64) mod 64 = val div 64 div 64 div 64" by simp
  moreover have "64 * (val div 64) + val mod 64 = val" "64 * (val div 64 div 64) + val div 64 mod 64 = val div 64"
    "64 * (val div 64 div 64 div 64) + val div 64 div 64 mod 64 = val div 64 div 64" by simp_all
  ultimately show ?thesis unfolding d by linarith
qed

lemma byte_fields:
  fixes a b c :: nat
  assumes "a < 256" "b < 256" "c < 256"
  shows "(a * 65536 + b * 256 + c) div 65536 mod 256 = a"
    and "(a * 65536 + b * 256 + c) div 256 mod 256 = b"
    and "(a * 65536 + b * 256 + c) mod 256 = c"
    and "a * 65536 + b * 256 + c < 16777216"
proof -
  have h: "(a * 65536 + b * 256 + c) div 256 = a * 256 + b"
    by (rule div_nat_eqI) (use assms in simp_all)
  show "(a * 65536 + b * 256 + c) div 256 mod 256 = b" unfolding h using assms by simp
  have "(a * 65536 + b * 256 + c) div 65536 = a"
    by (rule div_nat_eqI) (use assms in simp_all)
  then show "(a * 65536 + b * 256 + c) div 65536 mod 256 = a" using assms by simp
  have "(a * 65536 + b * 256 + c) = c + 256 * (a * 256 + b)" by simp
  also have "\<dots> mod 256 = c" using assms by (simp only: mod_mult_self2) simp
  finally show "(a * 65536 + b * 256 + c) mod 256 = c" .
  show "a * 65536 + b * 256 + c < 16777216" using assms by simp
qed

lemma quantum_bytes_eval:
  "p * 262144 + q * 4096 + r * 64 + s = v \<Longrightarrow> quantum_bytes [p, q, r, s] = [char_of (v div 65536), char_of (v div 256), char_of v]"
  "p * 262144 + q * 4096 + r * 64 = v \<Longrightarrow> quantum_bytes [p, q, r] = [char_of (v div 65536), char_of (v div 256)]"
  "p * 262144 + q * 4096 = v \<Longrightarrow> quantum_bytes [p, q] = [char_of (v div 65536)]"
  by (auto simp: quantum_bytes_def Let_def)

text \<open>The digits of the bytes \<open>a\<close>, \<open>b\<close>, \<open>c\<close> give the bytes back; digits missing at the end were zero.\<close>

lemma quantum_bytes_sextets:
  fixes a b c :: char
  defines "val \<equiv> of_char a * 65536 + of_char b * 256 + (of_char c :: nat)"
  shows "quantum_bytes [val div 262144 mod 64, val div 4096 mod 64, val div 64 mod 64, val mod 64] = [a, b, c]"
    and "c = CHR 0x00 \<Longrightarrow> quantum_bytes [val div 262144 mod 64, val div 4096 mod 64, val div 64 mod 64] = [a, b]"
    and "b = CHR 0x00 \<Longrightarrow> c = CHR 0x00 \<Longrightarrow> quantum_bytes [val div 262144 mod 64, val div 4096 mod 64] = [a]"
proof -
  have bf: "val < 16777216" "val div 65536 mod 256 = of_char a" "val div 256 mod 256 = of_char b" "val mod 256 = of_char c"
    unfolding val_def using byte_fields [of "of_char a" "of_char b" "of_char c"] by simp_all
  have cf: "char_of (val div 65536) = a" "char_of (val div 256) = b" "char_of val = c"
    using bf(2-4) [THEN arg_cong, of char_of] by simp_all
  note s = sextets_sum [OF bf(1)]
  show "quantum_bytes [val div 262144 mod 64, val div 4096 mod 64, val div 64 mod 64, val mod 64] = [a, b, c]"
    using quantum_bytes_eval(1) [OF s] by (simp only: cf)
  show "quantum_bytes [val div 262144 mod 64, val div 4096 mod 64, val div 64 mod 64] = [a, b]" if "c = CHR 0x00"
  proof -
    have z: "val mod 64 = 0" by (simp add: val_def that)
    show ?thesis using quantum_bytes_eval(2) [OF s [unfolded z add_0_right]] by (simp only: cf)
  qed
  show "quantum_bytes [val div 262144 mod 64, val div 4096 mod 64] = [a]" if "b = CHR 0x00" "c = CHR 0x00"
  proof -
    have z: "val mod 64 = 0" "val div 64 mod 64 = 0" by (simp_all add: val_def that)
    show ?thesis using quantum_bytes_eval(3) [OF s [unfolded z mult_0 add_0_right]] by (simp only: cf)
  qed
qed

lemma base64_Decode_Encode: "base64_Decode si (base64_Encode x) = Inr x"
proof (induction x arbitrary: si rule: base64_Encode.induct)
  case 1
  then show ?case by (simp add: base64_Decode.simps)
next
  case (2 a)
  have "base64_Decode (si + 4) [] = Inr []" by (simp add: base64_Decode.simps)
  then show ?case
    using quantum_bytes_sextets(3) [of "CHR 0x00" "CHR 0x00" a]
    by (subst base64_Decode.simps) (simp add: sextet_def Let_def decodeQuantum_two del: decodeQuantum.simps)
next
  case (3 a b)
  have "base64_Decode (si + 4) [] = Inr []" by (simp add: base64_Decode.simps)
  then show ?case
    using quantum_bytes_sextets(2) [of "CHR 0x00" a b]
    by (subst base64_Decode.simps) (simp add: sextet_def Let_def decodeQuantum_three del: decodeQuantum.simps)
next
  case (4 a b c cs)
  show ?case
    using 4 [OF refl, of "si + 4"] quantum_bytes_sextets(1) [of a b c]
    by (subst base64_Decode.simps) (simp add: sextet_def Let_def decodeQuantum_four del: decodeQuantum.simps)
qed

interpretation hex: byte_codec hex_Encode hex_Decode
  by unfold_locales (rule hex_Decode_Encode)

interpretation escape: byte_codec encode_escape decode_escape
  by unfold_locales (rule decode_encode_escape)

interpretation base64: byte_codec base64_Encode "base64_Decode 0"
  by unfold_locales (rule base64_Decode_Encode)

text \<open>Text in the escape format never looks like the hexadecimal format.\<close>

lemma encode_escape_not_hex:
  "encode_escape data = CHR 0x5C # c # cs \<Longrightarrow> c \<noteq> CHR ''x'' \<and> c \<noteq> CHR ''X''"
proof (cases data)
  case (Cons d ds)
  assume "encode_escape data = CHR 0x5C # c # cs"
  moreover have "(48 + of_char d div 64 :: nat) < 52" by (simp add: less_mult_imp_div_less)
  then have "char_of (48 + of_char d div 64 :: nat) \<noteq> CHR ''x''" "char_of (48 + of_char d div 64 :: nat) \<noteq> CHR ''X''"
    by (auto dest!: arg_cong [of _ _ "of_char :: char \<Rightarrow> nat"])
  ultimately show ?thesis
    using Cons by (auto simp: encode_escape_def encode_escape_byte_def Let_def drop_bit_eq_div split: if_splits)
qed (simp add: encode_escape_def)

text \<open>
  C32: each known format loses nothing: what \<open>EncodeByteArrayToRawBytes\<close> writes, without the
  hexadecimal prefix, \<open>DecodeRawBytesToByteArray\<close> reads back for every byte array; for any
  other format number the encoder panics and the decoder reports the format.
\<close>

theorem DecodeRawBytes_roundtrip:
  "case EncodeByteArrayToRawBytes data be True of
     Some text \<Rightarrow> be \<in> {BytesEncodeHex, BytesEncodeEscape, BytesEncodeBase64} \<and>
       DecodeRawBytesToByteArray text be = Inr data
   | None \<Rightarrow> be \<notin> {BytesEncodeHex, BytesEncodeEscape, BytesEncodeBase64} \<and>
       DecodeRawBytesToByteArray data be = Inl (AssertionFailed (''unhandled format: '' @ BytesEncodeFormat_String be))"
  by (simp add: EncodeByteArrayToRawBytes_def DecodeRawBytesToByteArray_def
      hex.decode_encode escape.decode_encode base64.decode_encode)

text \<open>
  C33: \<open>DecodeRawBytesToByteArrayAuto\<close> needs no format: it reads back what was written as
  prefixed hexadecimal and what was written with escapes, whatever the bytes are.
\<close>

theorem DecodeRawBytesAuto_roundtrip:
  "\<exists>h e. EncodeByteArrayToRawBytes data BytesEncodeHex False = Some h \<and>
         EncodeByteArrayToRawBytes data BytesEncodeEscape skip = Some e \<and>
         DecodeRawBytesToByteArrayAuto h = Inr data \<and> DecodeRawBytesToByteArrayAuto e = Inr data"
proof -
  have "DecodeRawBytesToByteArrayAuto ([CHR 0x5C, CHR ''x''] @ hex_Encode data) = Inr data"
    by (simp add: DecodeRawBytesToByteArrayAuto_def DecodeRawBytesToByteArray_def hex.decode_encode)
  moreover have "DecodeRawBytesToByteArrayAuto (encode_escape data) = Inr data"
    using encode_escape_not_hex [of data]
    by (cases "encode_escape data" rule: remdups_adj.cases)
      (auto simp: DecodeRawBytesToByteArrayAuto_def DecodeRawBytesToByteArray_def simp flip: escape.decode_encode)
  ultimately show ?thesis by (simp add: EncodeByteArrayToRawBytes_def)
qed

end
