(* ===== verification/Keyword_Tables.thy ===== *)
theory Keyword_Tables
  imports Lex_Keywords "HOL-Library.Char_ord" "HOL-Library.List_Lexorder"
begin

text \<open>
  The keyword tables agree: \<open>KeywordsCategories\<close>, \<open>KeywordNames\<close> and \<open>GetKeywordID\<close> of
  \<open>lex/keywords.go\<close>, the constants of \<open>lex/tokens.go\<close>, and the reserved words of
  \<open>lex/reserved_keywords.go\<close>.
\<close>

subsection \<open>Upper case\<close>

definition upper_char :: "char \<Rightarrow> char" where
  "upper_char c = (let n = of_char c :: nat in if 97 \<le> n \<and> n \<le> 122 then char_of (n - 32) else c)"

lemma upper_char_letters:
  "upper_char CHR ''a'' = CHR ''A''" "upper_char CHR ''b'' = CHR ''B''" "upper_char CHR ''c'' = CHR ''C''"
  "upper_char CHR ''d'' = CHR ''D''" "upper_char CHR ''e'' = CHR ''E''" "upper_char CHR ''f'' = CHR ''F''"
  "upper_char CHR ''g'' = CHR ''G''" "upper_char CHR ''h'' = CHR ''H''" "upper_char CHR ''i'' = CHR ''I''"
  "upper_char CHR ''j'' = CHR ''J''" "upper_char CHR ''k'' = CHR ''K''" "upper_char CHR ''l'' = CHR ''L''"
  "upper_char CHR ''m'' = CHR ''M''" "upper_char CHR ''n'' = CHR ''N''" "upper_char CHR ''o'' = CHR ''O''"
  "upper_char CHR ''p'' = CHR ''P''" "upper_char CHR ''q'' = CHR ''Q''" "upper_char CHR ''r'' = CHR ''R''"
  "upper_char CHR ''s'' = CHR ''S''" "upper_char CHR ''t'' = CHR ''T''" "upper_char CHR ''u'' = CHR ''U''"
  "upper_char CHR ''v'' = CHR ''V''" "upper_char CHR ''w'' = CHR ''W''" "upper_char CHR ''x'' = CHR ''X''"
  "upper_char CHR ''y'' = CHR ''Y''" "upper_char CHR ''z'' = CHR ''Z''" "upper_char CHR ''_'' = CHR ''_''"
  by code_simp+

definition is_keyword_char :: "char \<Rightarrow> bool" where
  "is_keyword_char c \<longleftrightarrow> of_char c \<in> {97..122 :: nat} \<or> c = CHR ''_''"

lemma of_char_upper: "is_keyword_char c \<Longrightarrow> of_char (upper_char c) = (if c = CHR ''_'' then 95 else of_char c - 32 :: nat)"
  by (auto simp: is_keyword_char_def upper_char_def Let_def)

lemma upper_char_inject:
  assumes "is_keyword_char c" "is_keyword_char d" "upper_char c = upper_char d"
  shows "c = d"
proof -
  define m n :: nat where "m = of_char c" and "n = of_char d"
  have r: "c = CHR ''_'' \<or> 97 \<le> m \<and> m \<le> 122" "d = CHR ''_'' \<or> 97 \<le> n \<and> n \<le> 122"
    using assms(1,2) by (auto simp: is_keyword_char_def m_def n_def)
  have "(if c = CHR ''_'' then 95 else m - 32) = (if d = CHR ''_'' then 95 else n - 32)"
    using arg_cong [OF assms(3), of "of_char :: char \<Rightarrow> nat"]
    unfolding of_char_upper [OF assms(1)] of_char_upper [OF assms(2)] m_def n_def .
  with r have "c = CHR ''_'' \<and> d = CHR ''_'' \<or> m = n" by (cases "c = CHR ''_''"; cases "d = CHR ''_''") auto
  then show ?thesis using of_char_eq_iff [where 'a = nat, of c d] by (auto simp: m_def n_def)
qed

lemma map_upper_inject:
  "list_all is_keyword_char k \<Longrightarrow> list_all is_keyword_char k' \<Longrightarrow> map upper_char k = map upper_char k' \<Longrightarrow> k = k'"
proof (induction k arbitrary: k')
  case (Cons c k)
  then obtain d l where "k' = d # l" by (cases k') simp_all
  then show ?case using Cons.IH [of l] Cons.prems upper_char_inject [of c d] by simp
qed simp

subsection \<open>The tables have the same keywords\<close>

lemma KeywordsCategories_names: "map fst KeywordsCategories = KeywordNames"
  by (simp add: KeywordsCategories_defs KeywordNames_defs)

lemma keyword_table_names: "map fst keyword_table = KeywordNames"
  by (simp add: keyword_table_defs KeywordNames_defs)

lemma KeywordNames_chars: "list_all (list_all is_keyword_char) KeywordNames"
  unfolding KeywordNames_defs list_all_append by (simp add: is_keyword_char_def cong: no_congs)

lemma KeywordNames_short: "list_all (\<lambda>k. length k < 30) KeywordNames"
  unfolding KeywordNames_defs list_all_append by (simp cong: no_congs)

lemma token_consts_numbers: "map snd token_consts = [57346..57823]"
  by (simp add: token_consts_defs upto.simps)

text \<open>A name and its upper-case form as the key of the order the source uses.\<close>

definition upper_key :: "string \<Rightarrow> nat list" where
  "upper_key k = map (\<lambda>c. of_char (upper_char c)) k"

lemma upper_key_eval [simp]: "upper_key [] = []" "upper_key (c # k) = of_char (upper_char c) # upper_key k"
  by (simp_all add: upper_key_def)

lemma KeywordNames_ascending_1: "successively (\<lambda>j k. upper_key j < upper_key k) KeywordNames_1"
  unfolding KeywordNames_1_def by (simp add: upper_char_letters cong: no_congs)

lemma KeywordNames_ascending_2: "successively (\<lambda>j k. upper_key j < upper_key k) KeywordNames_2"
  unfolding KeywordNames_2_def by (simp add: upper_char_letters cong: no_congs)

lemma KeywordNames_ascending_3: "successively (\<lambda>j k. upper_key j < upper_key k) KeywordNames_3"
  unfolding KeywordNames_3_def by (simp add: upper_char_letters cong: no_congs)

lemma KeywordNames_lengths: "length KeywordNames_1 = 140" "length KeywordNames_2 = 140" "length KeywordNames_3 = 138"
  by (simp_all add: KeywordNames_1_def KeywordNames_2_def KeywordNames_3_def)

lemma KeywordNames_nonempty [simp]: "KeywordNames_1 \<noteq> []" "KeywordNames_2 \<noteq> []" "KeywordNames_3 \<noteq> []"
  using KeywordNames_lengths by auto

lemma KeywordNames_ends:
  "KeywordNames_1 ! 139 = ''geometry''" "KeywordNames_2 ! 0 = ''geometrycollection''" "KeywordNames_2 ! 139 = ''primary''" "KeywordNames_3 ! 0 = ''priority''"
  unfolding KeywordNames_1_def KeywordNames_2_def KeywordNames_3_def by (simp_all cong: nth_weak_cong)

lemma KeywordNames_ascending: "successively (<) (map upper_key KeywordNames)"
  using KeywordNames_ascending_1 KeywordNames_ascending_2 KeywordNames_ascending_3
  by (simp add: KeywordNames_def successively_map successively_append_iff hd_map last_map hd_conv_nth last_conv_nth nth_append
      KeywordNames_lengths KeywordNames_ends upper_char_letters)

subsection \<open>Every case returns the constant of that name\<close>

text \<open>The constant with a given offset, found in the part of the table it is in.\<close>

definition token_const :: "nat \<Rightarrow> string \<times> int" where
  "token_const n =
     (if n < 120 then token_consts_1 ! n
      else if n < 240 then token_consts_2 ! (n - 120)
      else if n < 360 then token_consts_3 ! (n - 240)
      else token_consts_4 ! (n - 360))"

definition names_token :: "string \<times> int \<Rightarrow> bool" where
  "names_token = (\<lambda>(k, t). 57346 \<le> t \<and> nat (t - 57346) < 478 \<and> token_const (nat (t - 57346)) = (map upper_char k, t))"

lemmas token_const_unfold = names_token_def token_const_def token_consts_1_def token_consts_2_def
  token_consts_3_def token_consts_4_def

lemma keyword_table_1_tokens: "list_all names_token keyword_table_1"
  unfolding token_const_unfold keyword_table_1_def
  by (simp add: upper_char_letters cong: no_congs nth_weak_cong)

lemma keyword_table_2_tokens: "list_all names_token keyword_table_2"
  unfolding token_const_unfold keyword_table_2_def
  by (simp add: upper_char_letters cong: no_congs nth_weak_cong)

lemma keyword_table_3_tokens: "list_all names_token keyword_table_3"
  unfolding token_const_unfold keyword_table_3_def
  by (simp add: upper_char_letters cong: no_congs nth_weak_cong)

lemma keyword_table_4_tokens: "list_all names_token keyword_table_4"
  unfolding token_const_unfold keyword_table_4_def
  by (simp add: upper_char_letters cong: no_congs nth_weak_cong)

lemma keyword_table_5_tokens: "list_all names_token keyword_table_5"
  unfolding token_const_unfold keyword_table_5_def
  by (simp add: upper_char_letters cong: no_congs nth_weak_cong)

lemma keyword_table_6_tokens: "list_all names_token keyword_table_6"
  unfolding token_const_unfold keyword_table_6_def
  by (simp add: upper_char_letters cong: no_congs nth_weak_cong)

lemma token_consts_lengths:
  "length token_consts_1 = 120" "length token_consts_2 = 120" "length token_consts_3 = 120" "length token_consts_4 = 118"
  by (simp_all add: token_consts_defs)

lemma token_const_nth: "n < 478 \<Longrightarrow> token_const n \<in> set token_consts"
  by (auto simp: token_const_def token_consts_def token_consts_lengths)

lemma keyword_table_tokens: "(k, t) \<in> set keyword_table \<Longrightarrow> (map upper_char k, t) \<in> set token_consts"
proof -
  have "list_all names_token keyword_table"
    by (simp add: keyword_table_def keyword_table_1_tokens keyword_table_2_tokens keyword_table_3_tokens
        keyword_table_4_tokens keyword_table_5_tokens keyword_table_6_tokens)
  moreover assume "(k, t) \<in> set keyword_table"
  ultimately have "names_token (k, t)" by (simp add: list_all_iff)
  then show ?thesis using token_const_nth [of "nat (t - 57346)"] by (auto simp: names_token_def)
qed

lemma GetKeywordID_table: "k \<in> set KeywordNames \<Longrightarrow> (k, GetKeywordID k) \<in> set keyword_table"
proof -
  assume "k \<in> set KeywordNames"
  then have "k \<in> fst ` set keyword_table" by (simp flip: keyword_table_names)
  then show ?thesis
    by (cases "map_of keyword_table k") (auto simp: GetKeywordID_def map_of_eq_None_iff dest: map_of_SomeD)
qed

lemma token_consts_inject: "(x, t) \<in> set token_consts \<Longrightarrow> (y, t) \<in> set token_consts \<Longrightarrow> x = y"
proof -
  have "distinct (map snd token_consts)" unfolding token_consts_numbers by (rule distinct_upto)
  then have "inj_on snd (set token_consts)" by (simp add: distinct_map)
  then show "(x, t) \<in> set token_consts \<Longrightarrow> (y, t) \<in> set token_consts \<Longrightarrow> x = y"
    by (metis inj_onD prod.inject snd_conv)
qed

subsection \<open>Properties\<close>

text \<open>
  C30: \<open>GetKeywordID\<close> recognises exactly the names of \<open>KeywordNames\<close>, for each of them returns
  the constant of \<open>lex/tokens.go\<close> whose name is the keyword in upper case, and never the same
  token for two keywords.
\<close>

theorem GetKeywordID_spec:
  "(GetKeywordID k \<noteq> T_IDENT \<longleftrightarrow> k \<in> set KeywordNames) \<and>
   (k \<in> set KeywordNames \<longrightarrow> (map upper_char k, GetKeywordID k) \<in> set token_consts) \<and>
   (k \<in> set KeywordNames \<and> k' \<in> set KeywordNames \<and> GetKeywordID k = GetKeywordID k' \<longrightarrow> k = k')"
proof (intro conjI impI iffI)
  have ch: "list_all is_keyword_char k" if "k \<in> set KeywordNames" for k
    using that KeywordNames_chars by (simp add: list_all_iff)
  have tok: "(map upper_char k, GetKeywordID k) \<in> set token_consts" if "k \<in> set KeywordNames" for k
    using that by (intro keyword_table_tokens GetKeywordID_table)
  show "k \<in> set KeywordNames" if ne: "GetKeywordID k \<noteq> T_IDENT"
  proof -
    obtain t where "map_of keyword_table k = Some t"
      using ne by (auto simp: GetKeywordID_def split: option.splits)
    then have "k \<in> fst ` set keyword_table" using map_of_SomeD by force
    then show ?thesis by (simp flip: keyword_table_names)
  qed
  show "GetKeywordID k \<noteq> T_IDENT" if "k \<in> set KeywordNames"
    using GetKeywordID_table [OF that] keyword_ids_named by (auto simp: list_all_iff)
  show "(map upper_char k, GetKeywordID k) \<in> set token_consts" if "k \<in> set KeywordNames" using that by (rule tok)
  show "k = k'" if "k \<in> set KeywordNames \<and> k' \<in> set KeywordNames \<and> GetKeywordID k = GetKeywordID k'"
  proof -
    have "map upper_char k = map upper_char k'" using that tok [of k] tok [of k'] token_consts_inject by metis
    from map_upper_inject [OF ch ch this] show ?thesis using that by blast
  qed
qed

theorem GetKeywordID_spec_witness:
  "(map upper_char ''abort'', GetKeywordID ''abort'') \<in> set token_consts \<and> ''abort'' \<in> set KeywordNames"
proof -
  have "''abort'' \<in> set KeywordNames" by (simp add: KeywordNames_def KeywordNames_1_def)
  then show ?thesis using GetKeywordID_spec [of "''abort''" "''abort''"] by blast
qed

text \<open>
  C31: the reserved keywords are exactly the keywords that \<open>KeywordsCategories\<close> does not list as
  unreserved (\<open>U\<close>), in the same order; the table has one more word, which is no keyword.
\<close>

theorem reservedKeywords_categories:
  "filter (\<lambda>k. k \<in> set KeywordNames) reservedKeywords =
     map fst (filter (\<lambda>(k, c). c \<noteq> CHR ''U'') KeywordsCategories) \<and>
   filter (\<lambda>k. k \<notin> set KeywordNames) reservedKeywords = [''cockroachdb_extra_reserved_keyword'']"
proof -
  have eq: "filter (\<lambda>k. length k \<noteq> 34) reservedKeywords =
      map fst (filter (\<lambda>(k, c). c \<noteq> CHR ''U'') KeywordsCategories)"
    unfolding reservedKeywords_def KeywordsCategories_defs filter_append by (simp cong: no_congs)
  have one: "filter (\<lambda>k. length k = 34) reservedKeywords = [''cockroachdb_extra_reserved_keyword'']"
    unfolding reservedKeywords_def by (simp cong: no_congs)
  have kw: "k \<in> set KeywordNames \<longleftrightarrow> length k \<noteq> 34" if "k \<in> set reservedKeywords" for k
  proof
    assume "length k \<noteq> 34"
    then have "k \<in> set (map fst (filter (\<lambda>(k, c). c \<noteq> CHR ''U'') KeywordsCategories))"
      using that by (simp flip: eq)
    then show "k \<in> set KeywordNames" by (auto simp flip: KeywordsCategories_names)
  next
    assume "k \<in> set KeywordNames"
    then show "length k \<noteq> 34" using KeywordNames_short by (auto simp: list_all_iff)
  qed
  have "filter (\<lambda>k. k \<in> set KeywordNames) reservedKeywords = filter (\<lambda>k. length k \<noteq> 34) reservedKeywords"
    "filter (\<lambda>k. k \<notin> set KeywordNames) reservedKeywords = filter (\<lambda>k. length k = 34) reservedKeywords"
    by (auto intro!: filter_cong simp: kw)
  then show ?thesis by (simp add: eq one)
qed

text \<open>
  \<open>KeywordNames\<close> is strictly ascending in the upper-case spelling the generator sorts by,
  so it has no duplicate; in the lower-case spelling it lists, it is not sorted.
\<close>

theorem KeywordNames_order:
  "sorted_wrt (<) (map upper_key KeywordNames) \<and> distinct KeywordNames \<and>
   \<not> sorted_wrt (\<le>) (map (map of_char) KeywordNames :: nat list list)"
proof -
  have s: "sorted_wrt (<) (map upper_key KeywordNames)"
    using KeywordNames_ascending by (simp add: successively_conv_sorted_wrt)
  then have "distinct (map upper_key KeywordNames)" by (simp add: strict_sorted_iff)
  then have "distinct KeywordNames" by (simp add: distinct_map)
  moreover have "\<not> sorted_wrt (\<le>) (map (map of_char) KeywordNames :: nat list list)"
  proof
    assume "sorted_wrt (\<le>) (map (map of_char) KeywordNames :: nat list list)"
    then have "sorted_wrt (\<le>) (map (map of_char) KeywordNames_3 :: nat list list)"
      by (simp add: KeywordNames_def sorted_wrt_append)
    then have "map of_char (KeywordNames_3 ! 48) \<le> (map of_char (KeywordNames_3 ! 49) :: nat list)"
      using sorted_wrt_nth_less [of "(\<le>)" "map (map of_char) KeywordNames_3 :: nat list list" 48 49]
      by (simp add: KeywordNames_lengths)
    then show False
      unfolding KeywordNames_3_def by (simp cong: nth_weak_cong)
  qed
  ultimately show ?thesis using s by blast
qed

end
