(* ===== verification/Key_Codec.thy ===== *)
theory Key_Codec
  imports Prelude "HOL-Library.List_Lexorder"
begin

unbundle bit_operations_syntax

text \<open>
  Encodings of values as byte strings whose byte order is the order of the values, as the
  keys of an ordered store need them (\<open>utils/encoding\<close>): the contract of such an encoding,
  its composition, and big-endian byte strings.
\<close>

type_synonym byte = "8 word"
type_synonym bytes = "8 word list"

lemma less_append_iff: "zs @ x < zs @ y \<longleftrightarrow> x < (y :: bytes)"
  by (induction zs) simp_all

subsection \<open>The contract\<close>

text \<open>
  \<open>bytes.Compare\<close> is the lexicographic order of the lists. Decoding returns the rest of the
  buffer and the value; an encoding followed by anything decodes to that rest and the value,
  and a smaller value has the smaller encoding whatever follows.
\<close>

locale key_codec =
  fixes enc :: "'a \<Rightarrow> bytes"
    and dec :: "bytes \<Rightarrow> 'e + bytes \<times> 'a"
    and valid :: "'a \<Rightarrow> bool"
    and less :: "'a \<Rightarrow> 'a \<Rightarrow> bool"
  assumes dec_enc: "valid v \<Longrightarrow> dec (enc v @ r) = Inr (r, v)"
    and enc_less: "valid v \<Longrightarrow> valid w \<Longrightarrow> less v w \<Longrightarrow> enc v @ x < enc w @ y"
begin

lemma enc_prefix_free: "valid v \<Longrightarrow> valid w \<Longrightarrow> enc v @ x = enc w @ y \<longleftrightarrow> v = w \<and> x = y"
  by (metis Pair_inject dec_enc sum.inject(2))

lemma enc_less_iff:
  assumes "valid v" "valid w" "less v w \<or> v = w \<or> less w v"
  shows "enc v @ x < enc w @ y \<longleftrightarrow> less v w \<or> v = w \<and> x < y"
proof -
  have irr: "\<not> less u u" if "valid u" for u
    using enc_less [OF that that, of "[]" "[]"] by blast
  consider (lt) "less v w" | (eq) "v = w" | (gt) "less w v" using assms(3) by blast
  then show ?thesis
  proof cases
    case lt
    then show ?thesis using enc_less [OF assms(1,2)] by blast
  next
    case eq
    then show ?thesis using irr [OF assms(1)] by (simp add: less_append_iff)
  next
    case gt
    have g: "enc w @ y < enc v @ x" for x y using gt by (rule enc_less [OF assms(2,1)])
    then have "\<not> less v w" using enc_less [OF assms(1,2), of x y] by (meson less_asym)
    moreover have "v \<noteq> w" using gt irr [OF assms(1)] by blast
    ultimately show ?thesis using g by (meson less_asym)
  qed
qed

end

text \<open>Two encodings one after the other are an encoding of pairs, in lexicographic order.\<close>

locale key_pair =
  a: key_codec enc_a dec_a valid_a less_a + b: key_codec enc_b dec_b valid_b less_b
  for enc_a :: "'a \<Rightarrow> bytes" and dec_a :: "bytes \<Rightarrow> 'e + bytes \<times> 'a" and valid_a less_a
    and enc_b :: "'b \<Rightarrow> bytes" and dec_b :: "bytes \<Rightarrow> 'e + bytes \<times> 'b" and valid_b less_b
begin

lemma dec_pair_enc:
  "valid_a v \<Longrightarrow> valid_b w \<Longrightarrow>
   bind_result (dec_a (enc_a v @ enc_b w @ r)) (\<lambda>(r1, v'). bind_result (dec_b r1) (\<lambda>(r2, w'). k r2 v' w')) = k r v w"
  by (simp add: a.dec_enc b.dec_enc)

lemma enc_pair_less:
  "valid_a v \<Longrightarrow> valid_b w \<Longrightarrow> valid_a v' \<Longrightarrow> valid_b w' \<Longrightarrow> less_a v v' \<or> v = v' \<and> less_b w w' \<Longrightarrow>
   enc_a v @ enc_b w @ x < enc_a v' @ enc_b w' @ y"
  using a.enc_less [of v v'] b.enc_less [of w w'] by (auto simp: less_append_iff)

end

sublocale key_pair \<subseteq> ab: key_codec "\<lambda>(v, w). enc_a v @ enc_b w"
    "\<lambda>b. bind_result (dec_a b) (\<lambda>(r1, v). bind_result (dec_b r1) (\<lambda>(r2, w). Inr (r2, (v, w))))"
    "\<lambda>(v, w). valid_a v \<and> valid_b w" "\<lambda>(v, w) (v', w'). less_a v v' \<or> v = v' \<and> less_b w w'"
  by unfold_locales (auto simp: a.dec_enc b.dec_enc intro!: enc_pair_less)

subsection \<open>Big-endian byte strings\<close>

text \<open>\<open>byte(v>>8(k-1)), ..., byte(v>>8), byte(v)\<close>: the low \<open>k\<close> bytes, highest first.\<close>

primrec be_bytes :: "nat \<Rightarrow> 'a :: len word \<Rightarrow> bytes" where
  "be_bytes 0 v = []"
| "be_bytes (Suc k) v = ucast (drop_bit (8 * k) v) # be_bytes k v"

text \<open>The loop \<open>for _, t := range b { v = (v << 8) | uint64(t) }\<close>.\<close>

fun from_be :: "'a :: len word \<Rightarrow> bytes \<Rightarrow> 'a word" where
  "from_be v [] = v"
| "from_be v (t # ts) = from_be (push_bit 8 v OR ucast t) ts"

lemma length_be_bytes [simp]: "length (be_bytes k v) = k"
  by (induction k) simp_all

lemma unat_drop_bit: "unat (drop_bit n v) = unat v div 2 ^ n" for v :: "'a :: len word"
  unfolding unsigned_drop_bit_eq by (simp add: drop_bit_eq_div take_bit_nat_eq_self)

lemma unat_byte: "unat (ucast (drop_bit n v) :: byte) = unat v div 2 ^ n mod 256"
  for v :: "'a :: len word"
  by (simp add: unsigned_ucast_eq take_bit_eq_mod unat_drop_bit)

lemma be_bytes_less:
  fixes v w :: "'a :: len word"
  assumes "unat v mod 256 ^ k < unat w mod 256 ^ k"
  shows "be_bytes k v @ x < be_bytes k w @ y"
  using assms
proof (induction k)
  case (Suc k)
  let ?q = "256 ^ k :: nat"
  have d: "unat u mod 256 ^ Suc k = ?q * (unat u div ?q mod 256) + unat u mod ?q" for u :: "'a word"
    using mod_mult2_eq [of "unat u" ?q 256] by (simp add: mult.commute add.commute)
  have p: "(2 :: nat) ^ (8 * k) = ?q" by (simp add: power_mult)
  have "unat v div ?q mod 256 < unat w div ?q mod 256 \<or>
      unat v div ?q mod 256 = unat w div ?q mod 256 \<and> unat v mod ?q < unat w mod ?q"
  proof -
    have lt: "unat v mod ?q < ?q" "unat w mod ?q < ?q" by simp_all
    have "a < c \<or> a = c \<and> b < e" if "?q * a + b < ?q * c + e" "e < ?q" for a b c e :: nat
    proof -
      have "?q * a < ?q * Suc c" using that by simp
      then have "a \<le> c" by (simp only: mult_less_cancel1) simp
      then show ?thesis using that(1) by auto
    qed
    then show ?thesis using Suc.prems lt(2) unfolding d by blast
  qed
  then show ?case
    using Suc.IH by (auto simp: word_less_nat_alt unat_byte p word_unat_eq_iff)
qed simp

lemma shift_or_byte: "push_bit 8 v OR ucast (t :: byte) = v * 256 + ucast t" for v :: "'a :: len word"
proof -
  have "push_bit 8 v AND ucast t = 0" by (rule bit_word_eqI) (auto simp: bit_simps dest: bit_imp_le_length)
  then have "push_bit 8 v OR ucast t = push_bit 8 v + ucast t" by (simp add: disjunctive_add_eq_or)
  then show ?thesis by (simp add: push_bit_eq_mult)
qed

lemma from_be_be_bytes_acc:
  fixes v u :: "'a :: len word"
  shows "from_be u (be_bytes k v) = u * 256 ^ k + word_of_nat (unat v mod 256 ^ k)"
proof (induction k arbitrary: u)
  case (Suc k)
  let ?q = "256 ^ k :: nat"
  have p: "(2 :: nat) ^ (8 * k) = ?q" by (simp add: power_mult)
  have b: "(ucast (ucast (drop_bit (8 * k) v) :: byte) :: 'a word) = word_of_nat (unat v div ?q mod 256)"
    using unat_byte [of "8 * k" v] unfolding p by (metis of_nat_unat)
  have "unat v mod 256 ^ Suc k = ?q * (unat v div ?q mod 256) + unat v mod ?q"
    using mod_mult2_eq [of "unat v" ?q 256] by (simp add: mult.commute add.commute)
  moreover note shift_or_byte [of u "ucast (drop_bit (8 * k) v)", unfolded b]
  ultimately show ?case
    unfolding be_bytes.simps from_be.simps Suc.IH b by (simp add: algebra_simps)
qed simp

lemma from_be_be_bytes: "unat v < 256 ^ k \<Longrightarrow> from_be 0 (be_bytes k v) = v"
  by (simp add: from_be_be_bytes_acc)

lemma bit_from_be:
  "8 * length ts \<le> n \<Longrightarrow> n < LENGTH('a) \<Longrightarrow> bit (from_be v ts) n \<longleftrightarrow> bit v (n - 8 * length ts)"
  for v :: "'a :: len word"
proof (induction ts arbitrary: v)
  case (Cons t ts)
  then have "8 \<le> n - 8 * length ts" by simp
  then have "\<not> bit (ucast t :: 'a word) (n - 8 * length ts)" by (auto simp: bit_simps dest: bit_imp_le_length)
  then show ?case using Cons.IH [of "push_bit 8 v OR ucast t"] Cons.prems by (auto simp: bit_simps add.commute)
qed simp

lemma be_bytes_from_be:
  fixes v :: "'a :: len word"
  shows "8 * length bs \<le> LENGTH('a) \<Longrightarrow> be_bytes (length bs) (from_be v bs) = bs"
proof (induction bs arbitrary: v)
  case (Cons t ts)
  have "ucast (drop_bit (8 * length ts) (from_be (push_bit 8 v OR ucast t) ts)) = t"
  proof (rule bit_word_eqI)
    fix m
    assume "m < LENGTH(8)"
    then have "8 * length ts + m < LENGTH('a)" using Cons.prems by simp
    then show "bit (ucast (drop_bit (8 * length ts) (from_be (push_bit 8 v OR ucast t) ts)) :: byte) m = bit t m"
      using bit_from_be [of ts "8 * length ts + m" "push_bit 8 v OR ucast t"] \<open>m < LENGTH(8)\<close>
      by (auto simp: bit_simps)
  qed
  then show ?case using Cons by simp
qed simp

lemma be_bytes_not:
  fixes v :: "'a :: len word"
  assumes "8 * k \<le> LENGTH('a)"
  shows "map NOT (be_bytes k v) = be_bytes k (NOT v)"
  using assms
proof (induction k)
  case (Suc k)
  have "NOT (ucast (drop_bit (8 * k) v) :: byte) = ucast (drop_bit (8 * k) (NOT v))"
    using Suc.prems by (intro bit_word_eqI) (auto simp: bit_simps)
  then show ?case using Suc by simp
qed simp

subsection \<open>Complements\<close>

lemma uint_not: "uint (NOT v) = 2 ^ LENGTH('a) - 1 - uint v" for v :: "'a :: len word"
proof -
  have "uint (NOT v) = take_bit LENGTH('a) (NOT (uint v))" by (simp add: unsigned_not_eq)
  also have "\<dots> = mask LENGTH('a) - uint v" by (simp add: take_bit_not_eq_mask_diff take_bit_int_eq_self)
  finally show ?thesis by (simp add: mask_eq_exp_minus_1)
qed

lemma not_less_iff: "NOT v < NOT w \<longleftrightarrow> w < v" for v w :: "'a :: len word"
  by (simp add: word_less_def uint_not)

lemma complement_less:
  fixes a b :: bytes
  assumes "\<And>x y. a @ x < b @ y"
  shows "map NOT b @ x < map NOT a @ y"
  using assms
proof (induction a arbitrary: b)
  case Nil
  from Nil [of b "[]"] show ?case by simp
next
  case (Cons c a)
  from Cons.prems [of "[]" "[]"] obtain d b' where b: "b = d # b'" by (cases b) auto
  show ?case
  proof (cases "c = d")
    case True
    then have "a @ x < b' @ y" for x y using Cons.prems [of x y] b by simp
    from Cons.IH [OF this] show ?thesis using b True by simp
  next
    case False
    then have "c < d" using Cons.prems [of "[]" "[]"] b by simp
    then show ?thesis using b by (simp add: not_less_iff)
  qed
qed

end
