(* ===== verification/Key_Ints.thy ===== *)
theory Key_Ints
  imports Key_Codec
begin

text \<open>
  Integers in \<open>utils/encoding/encoding.go\<close>: big-endian \<open>uint32\<close> and \<open>uint64\<close>, and the
  length-prefixed \<open>varint\<close> and \<open>uvarint\<close>, ascending and descending. An \<open>int64\<close> is a 64-bit
  word read with \<^const>\<open>sint\<close>; a shift that keeps a byte has the same result on it as on a
  \<open>uint64\<close>.
\<close>

abbreviation IntMin :: byte where "IntMin \<equiv> 0x80"
abbreviation IntMax :: byte where "IntMax \<equiv> 0xfd"
abbreviation intMaxWidth :: int where "intMaxWidth \<equiv> 8"
abbreviation intZero :: int where "intZero \<equiv> 136"
abbreviation intSmall :: int where "intSmall \<equiv> 109"

text \<open>The errors of the decoders, one constructor per message.\<close>

datatype key_error =
    InsufficientUint32
  | InsufficientUint64
  | InsufficientUvarint
  | InsufficientUvarintBytes bytes
  | InvalidUvarintLength int
  | VarintOverflows "64 word"
  | VarintLengthExceeds int nat
  | NoMarker "byte option" bytes
  | NoTerminator byte bytes
  | MalformedEscape bytes
  | UnknownEscape byte byte
  | TerminatorMissing
  | TooShort nat
  | EmptySlice
  | UnknownTag byte
  | OtherError string

subsection \<open>Fixed width\<close>

definition EncodeUint32Ascending :: "bytes \<Rightarrow> 32 word \<Rightarrow> bytes" where
  "EncodeUint32Ascending b v = b @ be_bytes 4 v"

definition PutUint32Ascending :: "bytes \<Rightarrow> 32 word \<Rightarrow> nat \<Rightarrow> bytes" where
  "PutUint32Ascending b v idx =
     (let b' = b @ replicate (idx + 4 - length b) 0
      in b'[idx := ucast (drop_bit 24 v), idx + 1 := ucast (drop_bit 16 v),
            idx + 2 := ucast (drop_bit 8 v), idx + 3 := ucast v])"

definition EncodeUint32Descending :: "bytes \<Rightarrow> 32 word \<Rightarrow> bytes" where
  "EncodeUint32Descending b v = EncodeUint32Ascending b (NOT v)"

definition DecodeUint32Ascending :: "bytes \<Rightarrow> key_error + bytes \<times> 32 word" where
  "DecodeUint32Ascending b =
     (if length b < 4 then Inl InsufficientUint32 else Inr (drop 4 b, from_be 0 (take 4 b)))"

definition DecodeUint32Descending :: "bytes \<Rightarrow> key_error + bytes \<times> 32 word" where
  "DecodeUint32Descending b = bind_result (DecodeUint32Ascending b) (\<lambda>(leftover, v). Inr (leftover, NOT v))"

definition EncodeUint64Ascending :: "bytes \<Rightarrow> 64 word \<Rightarrow> bytes" where
  "EncodeUint64Ascending b v = b @ be_bytes 8 v"

definition EncodeUint64Descending :: "bytes \<Rightarrow> 64 word \<Rightarrow> bytes" where
  "EncodeUint64Descending b v = EncodeUint64Ascending b (NOT v)"

definition DecodeUint64Ascending :: "bytes \<Rightarrow> key_error + bytes \<times> 64 word" where
  "DecodeUint64Ascending b =
     (if length b < 8 then Inl InsufficientUint64 else Inr (drop 8 b, from_be 0 (take 8 b)))"

definition DecodeUint64Descending :: "bytes \<Rightarrow> key_error + bytes \<times> 64 word" where
  "DecodeUint64Descending b = bind_result (DecodeUint64Ascending b) (\<lambda>(leftover, v). Inr (leftover, NOT v))"

subsection \<open>Variable width\<close>

definition EncodeUvarintAscending :: "bytes \<Rightarrow> 64 word \<Rightarrow> bytes" where
  "EncodeUvarintAscending b v =
     (if v \<le> 109 then b @ [136 + ucast v]
      else if v \<le> 0xff then b @ (IntMax - 7) # be_bytes 1 v
      else if v \<le> 0xffff then b @ (IntMax - 6) # be_bytes 2 v
      else if v \<le> 0xffffff then b @ (IntMax - 5) # be_bytes 3 v
      else if v \<le> 0xffffffff then b @ (IntMax - 4) # be_bytes 4 v
      else if v \<le> 0xffffffffff then b @ (IntMax - 3) # be_bytes 5 v
      else if v \<le> 0xffffffffffff then b @ (IntMax - 2) # be_bytes 6 v
      else if v \<le> 0xffffffffffffff then b @ (IntMax - 1) # be_bytes 7 v
      else b @ IntMax # be_bytes 8 v)"

definition EncodeUvarintDescending :: "bytes \<Rightarrow> 64 word \<Rightarrow> bytes" where
  "EncodeUvarintDescending b v =
     (if v = 0 then b @ [IntMin + 8]
      else if v \<le> 0xff then b @ (IntMin + 7) # be_bytes 1 (NOT v)
      else if v \<le> 0xffff then b @ (IntMin + 6) # be_bytes 2 (NOT v)
      else if v \<le> 0xffffff then b @ (IntMin + 5) # be_bytes 3 (NOT v)
      else if v \<le> 0xffffffff then b @ (IntMin + 4) # be_bytes 4 (NOT v)
      else if v \<le> 0xffffffffff then b @ (IntMin + 3) # be_bytes 5 (NOT v)
      else if v \<le> 0xffffffffffff then b @ (IntMin + 2) # be_bytes 6 (NOT v)
      else if v \<le> 0xffffffffffffff then b @ (IntMin + 1) # be_bytes 7 (NOT v)
      else b @ IntMin # be_bytes 8 (NOT v))"

definition EncodeVarintAscending :: "bytes \<Rightarrow> 64 word \<Rightarrow> bytes" where
  "EncodeVarintAscending b v =
     (if sint v < 0 then
        (if sint v \<ge> - 0xff then b @ (IntMin + 7) # be_bytes 1 v
         else if sint v \<ge> - 0xffff then b @ (IntMin + 6) # be_bytes 2 v
         else if sint v \<ge> - 0xffffff then b @ (IntMin + 5) # be_bytes 3 v
         else if sint v \<ge> - 0xffffffff then b @ (IntMin + 4) # be_bytes 4 v
         else if sint v \<ge> - 0xffffffffff then b @ (IntMin + 3) # be_bytes 5 v
         else if sint v \<ge> - 0xffffffffffff then b @ (IntMin + 2) # be_bytes 6 v
         else if sint v \<ge> - 0xffffffffffffff then b @ (IntMin + 1) # be_bytes 7 v
         else b @ IntMin # be_bytes 8 v)
      else EncodeUvarintAscending b v)"

definition EncodeVarintDescending :: "bytes \<Rightarrow> 64 word \<Rightarrow> bytes" where
  "EncodeVarintDescending b v = EncodeVarintAscending b (NOT v)"

definition getVarintLen :: "bytes \<Rightarrow> key_error + nat" where
  "getVarintLen b =
     (let len = uint (hd b) - intZero in
      if len \<ge> 0 \<and> len \<le> intSmall then Inr 1
      else
        (let len' = (if len \<ge> 0 then 1 + len - intSmall else 1 - len) in
         if len' > int (length b) then Inl (VarintLengthExceeds len' (length b)) else Inr (nat len')))"

definition DecodeUvarintAscending :: "bytes \<Rightarrow> key_error + bytes \<times> 64 word" where
  "DecodeUvarintAscending b =
     (if b = [] then Inl InsufficientUvarint
      else
        (let len = uint (hd b) - intZero; b1 = tl b in
         if len \<le> intSmall then Inr (b1, word_of_int len)
         else
           (let len' = len - intSmall in
            if len' < 0 \<or> len' > 8 then Inl (InvalidUvarintLength len')
            else if int (length b1) < len' then Inl (InsufficientUvarintBytes b1)
            else Inr (drop (nat len') b1, from_be 0 (take (nat len') b1)))))"

definition DecodeUvarintDescending :: "bytes \<Rightarrow> key_error + bytes \<times> 64 word" where
  "DecodeUvarintDescending b =
     (if b = [] then Inl InsufficientUvarint
      else
        (let len = intZero - uint (hd b); b1 = tl b in
         if len < 0 \<or> len > 8 then Inl (InvalidUvarintLength len)
         else if int (length b1) < len then Inl (InsufficientUvarintBytes b1)
         else Inr (drop (nat len) b1, from_be 0 (map NOT (take (nat len) b1)))))"

definition DecodeVarintAscending :: "bytes \<Rightarrow> key_error + bytes \<times> 64 word" where
  "DecodeVarintAscending b =
     (if b = [] then Inl InsufficientUvarint
      else
        (let len = uint (hd b) - intZero in
         if len < 0 then
           (let n = nat (- len); remB = tl b in
            if length remB < n then Inl (InsufficientUvarintBytes remB)
            else Inr (drop n remB, NOT (from_be 0 (map NOT (take n remB)))))
         else
           bind_result (DecodeUvarintAscending b)
             (\<lambda>(remB, v). if v > 0x7FFFFFFFFFFFFFFF then Inl (VarintOverflows v) else Inr (remB, v))))"

definition DecodeVarintDescending :: "bytes \<Rightarrow> key_error + bytes \<times> 64 word" where
  "DecodeVarintDescending b = bind_result (DecodeVarintAscending b) (\<lambda>(leftover, v). Inr (leftover, NOT v))"

definition highestByteIndex :: "64 word \<Rightarrow> nat" where
  "highestByteIndex v =
     (let (v1, l1) = (if v > 0xffffffff then (drop_bit 32 v, 4) else (v, 0));
          (v2, l2) = (if v1 > 0xffff then (drop_bit 16 v1, l1 + 2) else (v1, l1))
      in if v2 > 0xff then l2 + 1 else l2)"

definition EncLenUvarintAscending :: "64 word \<Rightarrow> nat" where
  "EncLenUvarintAscending v = (if v \<le> 109 then 1 else 2 + highestByteIndex v)"

definition EncLenUvarintDescending :: "64 word \<Rightarrow> nat" where
  "EncLenUvarintDescending v = (if v = 0 then 1 else 2 + highestByteIndex v)"

subsection \<open>Number of bytes\<close>

definition byte_width :: "nat \<Rightarrow> nat" where
  "byte_width n =
     (if n < 256 then 1 else if n < 256 ^ 2 then 2 else if n < 256 ^ 3 then 3 else if n < 256 ^ 4 then 4
      else if n < 256 ^ 5 then 5 else if n < 256 ^ 6 then 6 else if n < 256 ^ 7 then 7 else 8)"

lemma byte_width_range: "1 \<le> byte_width n" "byte_width n \<le> 8"
  by (simp_all add: byte_width_def)

lemma byte_width_mono: "m \<le> n \<Longrightarrow> byte_width m \<le> byte_width n"
  by (simp add: byte_width_def)

lemma byte_width_fits: "n < 256 ^ 8 \<Longrightarrow> n < 256 ^ byte_width n"
  by (simp add: byte_width_def)

lemma unat64_less: "unat (v :: 64 word) < 256 ^ 8"
proof -
  have "unat v < 2 ^ LENGTH(64)" by (rule unsigned_less)
  then show ?thesis by simp
qed

lemma unat64_fits: "unat (v :: 64 word) < 256 ^ byte_width (unat v)"
  by (intro byte_width_fits unat64_less)

text \<open>The tags of an encoding with \<open>n\<close> bytes after it.\<close>

definition up_tag :: "nat \<Rightarrow> byte" where "up_tag n = word_of_nat (245 + n)"
definition down_tag :: "nat \<Rightarrow> byte" where "down_tag n = word_of_nat (136 - n)"

lemma tag_up:
  "1 \<le> n \<Longrightarrow> n \<le> 8 \<Longrightarrow> unat (up_tag n) = 245 + n"
  "1 \<le> n \<Longrightarrow> n \<le> 8 \<Longrightarrow> unat (down_tag n) = 136 - n"
  unfolding up_tag_def down_tag_def unsigned_of_nat by (simp_all add: take_bit_eq_mod)

lemma EncodeUvarintAscending_width:
  "EncodeUvarintAscending b v =
     b @ (if v \<le> 109 then [136 + ucast v]
          else up_tag (byte_width (unat v)) # be_bytes (byte_width (unat v)) v)"
  by (simp add: EncodeUvarintAscending_def byte_width_def word_le_nat_alt up_tag_def down_tag_def del: be_bytes.simps)

lemma EncodeUvarintDescending_width:
  "EncodeUvarintDescending b v =
     b @ (if v = 0 then [136]
          else down_tag (byte_width (unat v)) # be_bytes (byte_width (unat v)) (NOT v))"
  by (simp add: EncodeUvarintDescending_def byte_width_def word_le_nat_alt up_tag_def down_tag_def del: be_bytes.simps)

lemma EncodeVarintAscending_width:
  "EncodeVarintAscending b v =
     (if sint v < 0 then b @ down_tag (byte_width (nat (- sint v))) # be_bytes (byte_width (nat (- sint v))) v
      else EncodeUvarintAscending b v)"
  by (simp add: EncodeVarintAscending_def byte_width_def nat_less_iff down_tag_def del: be_bytes.simps)

lemma tag_small: "(v :: 64 word) \<le> 109 \<Longrightarrow> unat (136 + ucast v :: byte) = 136 + unat v"
proof -
  assume "v \<le> 109"
  then have "unat v \<le> 109" by (simp add: word_le_nat_alt)
  then show ?thesis by (simp add: unat_word_ariths unsigned_ucast_eq take_bit_eq_mod)
qed

subsection \<open>Unsigned, ascending\<close>

lemma DecodeUvarintAscending_enc: "DecodeUvarintAscending (EncodeUvarintAscending [] v @ r) = Inr (r, v)"
proof (cases "v \<le> 109")
  case True
  have "uint (136 + ucast v :: byte) = 136 + uint v"
    using arg_cong [OF tag_small [OF True], of int] by simp
  moreover have "uint v \<le> 109" using True by (simp add: word_le_def)
  ultimately show ?thesis
    using True by (simp add: EncodeUvarintAscending_width DecodeUvarintAscending_def Let_def)
next
  case False
  let ?n = "byte_width (unat v)"
  have "uint (up_tag ?n) = 245 + int ?n"
    using arg_cong [OF tag_up(1) [OF byte_width_range], of int] by simp
  moreover have "int ?n \<ge> 1" "int ?n \<le> 8" using byte_width_range [of "unat v"] by linarith+
  ultimately show ?thesis
    using False from_be_be_bytes [OF unat64_fits, of v]
    by (simp add: EncodeUvarintAscending_width DecodeUvarintAscending_def Let_def)
qed

lemma EncodeUvarintAscending_less:
  assumes "v < w"
  shows "EncodeUvarintAscending [] v @ x < EncodeUvarintAscending [] w @ y"
proof -
  have n: "unat v < unat w" using assms by (simp add: word_less_nat_alt)
  note tag = tag_up(1) [OF byte_width_range]
  consider "w \<le> 109" | "v \<le> 109" "\<not> w \<le> 109" | "\<not> v \<le> 109" "\<not> w \<le> 109" "byte_width (unat v) < byte_width (unat w)"
    | "\<not> v \<le> 109" "\<not> w \<le> 109" "byte_width (unat v) = byte_width (unat w)"
    using byte_width_mono [of "unat v" "unat w"] n by linarith
  then show ?thesis
  proof cases
    case 1
    then have "v \<le> 109" using assms by order
    with 1 show ?thesis
      using n by (simp add: EncodeUvarintAscending_width word_less_nat_alt tag_small)
  next
    case 2
    then have "unat v \<le> 109" by (simp add: word_le_nat_alt)
    with 2 show ?thesis
      using byte_width_range(1) [of "unat w"] by (simp add: EncodeUvarintAscending_width word_less_nat_alt tag_small tag)
  next
    case 3
    then show ?thesis by (simp add: EncodeUvarintAscending_width word_less_nat_alt tag)
  next
    case 4
    have "be_bytes (byte_width (unat w)) v @ x < be_bytes (byte_width (unat w)) w @ y"
      using n unat64_fits [of v] unat64_fits [of w] 4(3) by (intro be_bytes_less) simp
    with 4 show ?thesis by (simp add: EncodeUvarintAscending_width)
  qed
qed

interpretation uvarint_asc: key_codec "EncodeUvarintAscending []" DecodeUvarintAscending "\<lambda>_. True" "(<)"
  by unfold_locales (rule DecodeUvarintAscending_enc EncodeUvarintAscending_less, assumption?)+

subsection \<open>Complements\<close>

lemma map_not_less:
  fixes bs cs :: bytes
  shows "length bs = length cs \<Longrightarrow> bs < cs \<Longrightarrow> map NOT cs @ x < map NOT bs @ y"
proof (induction bs cs rule: list_induct2)
  case (Cons b bs c cs)
  then show ?case by (auto simp: not_less_iff)
qed simp

lemma be_bytes_not_less:
  fixes v w :: "64 word"
  assumes "unat v < unat w" "unat w < 256 ^ k" "k \<le> 8"
  shows "be_bytes k (NOT w) @ x < be_bytes k (NOT v) @ y"
proof -
  have "be_bytes k v @ [] < be_bytes k w @ []" using assms by (intro be_bytes_less) simp
  then have "map NOT (be_bytes k w) @ x < map NOT (be_bytes k v) @ y" by (intro map_not_less) simp_all
  then show ?thesis using assms(3) by (simp add: be_bytes_not)
qed

lemma from_be_not: "unat v < 256 ^ k \<Longrightarrow> k \<le> 8 \<Longrightarrow> from_be 0 (map NOT (be_bytes k (NOT v))) = v" for v :: "64 word"
  by (simp add: be_bytes_not from_be_be_bytes)

text \<open>A negative \<open>int64\<close> through its complement.\<close>

lemma sint64: "sint (v :: 64 word) = (if uint v < 2 ^ 63 then uint v else uint v - 2 ^ 64)"
proof -
  have r: "0 \<le> uint v" "uint v < 2 ^ 64" using uint_lt2p [of v] by simp_all
  have "bit (uint v) 63 \<longleftrightarrow> \<not> uint v < 2 ^ 63"
  proof -
    have "uint v div 2 ^ 63 = (if uint v < 2 ^ 63 then 0 else 1)"
      using r by (auto simp: div_pos_pos_trivial intro: int_div_pos_eq [of _ _ _ "uint v - 2 ^ 63"])
    then show ?thesis by (simp add: bit_iff_odd)
  qed
  moreover have "sint v = uint v - 2 ^ 64 * of_bool (bit (uint v) 63)"
    unfolding sint_uint signed_take_bit_eq_take_bit_minus using r by (simp add: take_bit_int_eq_self)
  ultimately show ?thesis by simp
qed

lemma sint_negative:
  fixes v :: "64 word"
  assumes "sint v < 0"
  shows "unat (NOT v) = nat (- sint v) - 1" and "sint (NOT v) \<ge> 0"
proof -
  have "uint (NOT v) = - sint v - 1"
    using assms sint64 [of v] uint_not [of v] uint_lt2p [of v] by (auto split: if_splits)
  then show "unat (NOT v) = nat (- sint v) - 1" "sint (NOT v) \<ge> 0"
    using sint64 [of v] sint64 [of "NOT v"] assms by (auto simp: unat_eq_nat_uint split: if_splits)
qed

lemma sint_nonnegative: "0 \<le> sint v \<Longrightarrow> sint v = uint v" for v :: "64 word"
  using sint64 [of v] uint_lt2p [of v] by (auto split: if_splits)

subsection \<open>Unsigned, descending\<close>

lemma uint_down_tag: "1 \<le> n \<Longrightarrow> n \<le> 8 \<Longrightarrow> uint (down_tag n) = 136 - int n"
  using arg_cong [OF tag_up(2), of n int] by simp

lemma DecodeUvarintDescending_enc: "DecodeUvarintDescending (EncodeUvarintDescending [] v @ r) = Inr (r, v)"
proof (cases "v = 0")
  case False
  note r = byte_width_range [of "unat v"]
  show ?thesis
    using False r uint_down_tag [OF r] from_be_not [OF unat64_fits r(2)]
    by (simp add: EncodeUvarintDescending_width DecodeUvarintDescending_def Let_def)
qed (simp add: EncodeUvarintDescending_width DecodeUvarintDescending_def)

lemma EncodeUvarintDescending_less:
  assumes "w < v"
  shows "EncodeUvarintDescending [] v @ x < EncodeUvarintDescending [] w @ y"
proof -
  have n: "unat w < unat v" using assms by (simp add: word_less_nat_alt)
  note tag = tag_up(2) [OF byte_width_range]
  have v0: "v \<noteq> 0" using assms by auto
  consider "w = 0" | "w \<noteq> 0" "byte_width (unat w) < byte_width (unat v)" | "w \<noteq> 0" "byte_width (unat w) = byte_width (unat v)"
    using byte_width_mono [of "unat w" "unat v"] n by linarith
  then show ?thesis
  proof cases
    case 1
    then show ?thesis
      using v0 byte_width_range [of "unat v"]
      by (simp add: EncodeUvarintDescending_width word_less_nat_alt tag)
  next
    case 2
    then have "136 - byte_width (unat v) < 136 - byte_width (unat w)" using byte_width_range [of "unat v"] by linarith
    then show ?thesis
      using v0 2(1) by (simp add: EncodeUvarintDescending_width word_less_nat_alt tag)
  next
    case 3
    then show ?thesis
      using v0 be_bytes_not_less [OF n unat64_fits byte_width_range(2)]
      by (simp add: EncodeUvarintDescending_width)
  qed
qed

interpretation uvarint_desc: key_codec "EncodeUvarintDescending []" DecodeUvarintDescending "\<lambda>_. True" "\<lambda>v w. w < v"
  by unfold_locales (rule DecodeUvarintDescending_enc EncodeUvarintDescending_less, assumption?)+

subsection \<open>Signed\<close>

lemma negative_fits:
  fixes v :: "64 word"
  assumes "sint v < 0"
  shows "unat (NOT v) < 256 ^ byte_width (nat (- sint v))"
proof -
  have "- (2 ^ 63) \<le> sint v" using sint_ge [of v] by simp
  then have "nat (- sint v) < 256 ^ byte_width (nat (- sint v))" by (intro byte_width_fits) simp
  then show ?thesis using sint_negative(1) [OF assms] by linarith
qed

lemma EncodeUvarintAscending_hd:
  "EncodeUvarintAscending [] v \<noteq> []" "136 \<le> unat (hd (EncodeUvarintAscending [] v))"
  using byte_width_range [of "unat v"] by (simp_all add: EncodeUvarintAscending_width tag_small tag_up)

lemma DecodeVarintAscending_enc: "DecodeVarintAscending (EncodeVarintAscending [] v @ r) = Inr (r, v)"
proof (cases "sint v < 0")
  case True
  note w = byte_width_range [of "nat (- sint v)"]
  show ?thesis
    using True w uint_down_tag [OF w] from_be_not [OF negative_fits [OF True] w(2)]
    by (simp add: EncodeVarintAscending_width DecodeVarintAscending_def Let_def)
next
  case False
  then have "uint v < 2 ^ 63" using sint64 [of v] uint_lt2p [of v] by (auto split: if_splits)
  then have "\<not> v > 0x7FFFFFFFFFFFFFFF" by (simp add: word_less_def)
  moreover have "\<not> uint (hd (EncodeUvarintAscending [] v)) - 136 < 0"
    using EncodeUvarintAscending_hd(2) [of v] unfolding unat_eq_nat_uint by linarith
  ultimately show ?thesis
    using False DecodeUvarintAscending_enc [of v r] EncodeUvarintAscending_hd(1) [of v]
    by (simp add: EncodeVarintAscending_width DecodeVarintAscending_def Let_def)
qed

lemma EncodeVarintAscending_less:
  assumes "sint v < sint w"
  shows "EncodeVarintAscending [] v @ x < EncodeVarintAscending [] w @ y"
proof -
  let ?m = "nat (- sint v)" and ?n = "nat (- sint w)"
  note tag = tag_up(2) [OF byte_width_range]
  consider "0 \<le> sint v" | "sint v < 0" "0 \<le> sint w" | "sint w < 0" "byte_width ?n < byte_width ?m"
    | "sint w < 0" "byte_width ?n = byte_width ?m"
    using byte_width_mono [of ?n ?m] assms by linarith
  then show ?thesis
  proof cases
    case 1
    then have "v < w" using assms sint_nonnegative [of v] sint_nonnegative [of w] by (simp add: word_less_def)
    then show ?thesis using 1 assms EncodeUvarintAscending_less [of v w x y] by (simp add: EncodeVarintAscending_width)
  next
    case 2
    obtain c cs where c: "EncodeUvarintAscending [] w = c # cs" "136 \<le> unat c"
      using EncodeUvarintAscending_hd [of w] by (metis list.collapse)
    have "down_tag (byte_width ?m) < c"
      using c(2) byte_width_range(1) [of ?m] unfolding word_less_nat_alt tag by linarith
    with 2 c(1) show ?thesis by (simp add: EncodeVarintAscending_width)
  next
    case 3
    then have "down_tag (byte_width ?m) < down_tag (byte_width ?n)"
      using byte_width_range [of ?m] unfolding word_less_nat_alt tag by linarith
    moreover have "sint v < 0" using 3 assms by linarith
    ultimately show ?thesis using 3(1) by (simp add: EncodeVarintAscending_width)
  next
    case 4
    then have v: "sint v < 0" using assms by linarith
    have "unat (NOT w) < unat (NOT v)"
      using sint_negative(1) [OF v] sint_negative(1) [OF 4(1)] assms 4(1) by linarith
    from be_bytes_not_less [OF this negative_fits [OF v] byte_width_range(2)] show ?thesis
      using 4 v by (simp add: EncodeVarintAscending_width)
  qed
qed

lemma sint_not: "sint (NOT v) = - sint v - 1" for v :: "64 word"
  using sint64 [of v] sint64 [of "NOT v"] uint_not [of v] uint_lt2p [of v] by (auto split: if_splits)

interpretation varint_asc: key_codec "EncodeVarintAscending []" DecodeVarintAscending "\<lambda>_. True"
    "\<lambda>v w. sint v < sint w"
  by unfold_locales (rule DecodeVarintAscending_enc EncodeVarintAscending_less, assumption?)+

interpretation varint_desc: key_codec "EncodeVarintDescending []" DecodeVarintDescending "\<lambda>_. True"
    "\<lambda>v w. sint w < sint v"
  by unfold_locales
    (simp_all add: EncodeVarintDescending_def DecodeVarintDescending_def varint_asc.dec_enc varint_asc.enc_less sint_not)

subsection \<open>Fixed width\<close>

lemma unat32_less: "unat (v :: 32 word) < 256 ^ 4"
proof -
  have "unat v < 2 ^ LENGTH(32)" by (rule unsigned_less)
  then show ?thesis by simp
qed

interpretation uint32_asc: key_codec "EncodeUint32Ascending []" DecodeUint32Ascending "\<lambda>_. True" "(<)"
proof unfold_locales
  show "DecodeUint32Ascending (EncodeUint32Ascending [] v @ r) = Inr (r, v)" for v r
    using from_be_be_bytes [OF unat32_less, of v] length_be_bytes [of 4 v]
    by (simp add: EncodeUint32Ascending_def DecodeUint32Ascending_def del: length_be_bytes)
  show "EncodeUint32Ascending [] v @ x < EncodeUint32Ascending [] w @ y" if "v < w" for v w x y
    unfolding EncodeUint32Ascending_def append_Nil
    using that unat32_less by (intro be_bytes_less) (simp add: word_less_nat_alt)
qed

interpretation uint32_desc: key_codec "EncodeUint32Descending []" DecodeUint32Descending "\<lambda>_. True" "\<lambda>v w. w < v"
  by unfold_locales (simp_all add: EncodeUint32Descending_def DecodeUint32Descending_def
    uint32_asc.dec_enc uint32_asc.enc_less not_less_iff)

interpretation uint64_asc: key_codec "EncodeUint64Ascending []" DecodeUint64Ascending "\<lambda>_. True" "(<)"
proof unfold_locales
  show "DecodeUint64Ascending (EncodeUint64Ascending [] v @ r) = Inr (r, v)" for v r
    using from_be_be_bytes [OF unat64_less, of v] length_be_bytes [of 8 v]
    by (simp add: EncodeUint64Ascending_def DecodeUint64Ascending_def del: length_be_bytes)
  show "EncodeUint64Ascending [] v @ x < EncodeUint64Ascending [] w @ y" if "v < w" for v w x y
    unfolding EncodeUint64Ascending_def append_Nil
    using that unat64_less by (intro be_bytes_less) (simp add: word_less_nat_alt)
qed

interpretation uint64_desc: key_codec "EncodeUint64Descending []" DecodeUint64Descending "\<lambda>_. True" "\<lambda>v w. w < v"
  by unfold_locales (simp_all add: EncodeUint64Descending_def DecodeUint64Descending_def
    uint64_asc.dec_enc uint64_asc.enc_less not_less_iff)

subsection \<open>Buffers and lengths\<close>

lemma Encode_append:
  "EncodeUint32Ascending b u = b @ EncodeUint32Ascending [] u"
  "EncodeUint32Descending b u = b @ EncodeUint32Descending [] u"
  "EncodeUint64Ascending b v = b @ EncodeUint64Ascending [] v"
  "EncodeUint64Descending b v = b @ EncodeUint64Descending [] v"
  "EncodeUvarintAscending b v = b @ EncodeUvarintAscending [] v"
  "EncodeUvarintDescending b v = b @ EncodeUvarintDescending [] v"
  "EncodeVarintAscending b v = b @ EncodeVarintAscending [] v"
  "EncodeVarintDescending b v = b @ EncodeVarintDescending [] v"
  by (simp_all add: EncodeUint32Ascending_def EncodeUint32Descending_def EncodeUint64Ascending_def
      EncodeUint64Descending_def EncodeUvarintAscending_width EncodeUvarintDescending_width
      EncodeVarintAscending_width EncodeVarintDescending_def)

lemma highestByteIndex_width: "highestByteIndex v = byte_width (unat v) - 1"
proof -
  have q: "255 < n div 65536 \<longleftrightarrow> 16777216 \<le> n" "255 < n div 4294967296 \<longleftrightarrow> 1099511627776 \<le> n"
      "65535 < n div 4294967296 \<longleftrightarrow> 281474976710656 \<le> n"
      "255 < n div 4294967296 div 65536 \<longleftrightarrow> 72057594037927936 \<le> n" for n :: nat
    using less_eq_div_iff_mult_less_eq [of 65536 256 n] less_eq_div_iff_mult_less_eq [of 4294967296 256 n]
      less_eq_div_iff_mult_less_eq [of 4294967296 65536 n] less_eq_div_iff_mult_less_eq [of 281474976710656 256 n]
    by (simp_all add: Suc_le_eq [symmetric] flip: div_mult2_eq)
  show ?thesis
    unfolding highestByteIndex_def byte_width_def Let_def
    by (cases "unat v < 4294967296") (auto simp: word_less_nat_alt unat_drop_bit q)
qed

lemma length_EncodeUvarint:
  "length (EncodeUvarintAscending [] v) = EncLenUvarintAscending v"
  "length (EncodeUvarintDescending [] v) = EncLenUvarintDescending v"
  using byte_width_range [of "unat v"]
  by (simp_all add: EncodeUvarintAscending_width EncodeUvarintDescending_width EncLenUvarintAscending_def
      EncLenUvarintDescending_def highestByteIndex_width)

lemma getVarintLen_enc: "getVarintLen (EncodeVarintAscending [] v @ r) = Inr (length (EncodeVarintAscending [] v))"
proof (cases "sint v < 0")
  case True
  note w = byte_width_range [of "nat (- sint v)"]
  show ?thesis
    using True w uint_down_tag [OF w] by (simp add: EncodeVarintAscending_width getVarintLen_def Let_def)
next
  case pos: False
  show ?thesis
  proof (cases "v \<le> 109")
    case True
    have "uint (136 + ucast v :: byte) = 136 + uint v"
      using arg_cong [OF tag_small [OF True], of int] by simp
    moreover have "uint v \<le> 109" using True by (simp add: word_le_def)
    ultimately show ?thesis
      using pos True by (simp add: EncodeVarintAscending_width EncodeUvarintAscending_width getVarintLen_def Let_def)
  next
    case False
    note w = byte_width_range [of "unat v"]
    have "uint (up_tag (byte_width (unat v))) = 245 + int (byte_width (unat v))"
      using arg_cong [OF tag_up(1) [OF w], of int] by simp
    then show ?thesis
      using pos False w by (simp add: EncodeVarintAscending_width EncodeUvarintAscending_width getVarintLen_def Let_def)
  qed
qed

lemma length_EncodeVarint: "length (EncodeVarintAscending [] v) \<le> 9"
  using byte_width_range [of "nat (- sint v)"] byte_width_range [of "unat v"]
  by (simp add: EncodeVarintAscending_width EncodeUvarintAscending_width)

lemma list_update_four:
  "i + 4 \<le> length xs \<Longrightarrow> xs[i := a, i + 1 := b, i + 2 := c, i + 3 := d] = take i xs @ [a, b, c, d] @ drop (i + 4) xs"
proof (rule nth_equalityI)
  fix k
  assume "i + 4 \<le> length xs" "k < length (xs[i := a, i + 1 := b, i + 2 := c, i + 3 := d])"
  then show "xs[i := a, i + 1 := b, i + 2 := c, i + 3 := d] ! k = (take i xs @ [a, b, c, d] @ drop (i + 4) xs) ! k"
    by (auto simp: nth_append nth_list_update nth_Cons' min_def)
qed auto

subsection \<open>Properties\<close>

text \<open>
  C13: every integer encoding is read back: whatever buffer it was appended to and whatever
  follows it, the decoder returns what follows and the integer.
\<close>

theorem integer_key_roundtrip:
  "DecodeVarintAscending (drop (length b) (EncodeVarintAscending b v) @ r) = Inr (r, v) \<and>
   DecodeVarintDescending (drop (length b) (EncodeVarintDescending b v) @ r) = Inr (r, v) \<and>
   DecodeUvarintAscending (drop (length b) (EncodeUvarintAscending b v) @ r) = Inr (r, v) \<and>
   DecodeUvarintDescending (drop (length b) (EncodeUvarintDescending b v) @ r) = Inr (r, v) \<and>
   DecodeUint64Ascending (drop (length b) (EncodeUint64Ascending b v) @ r) = Inr (r, v) \<and>
   DecodeUint64Descending (drop (length b) (EncodeUint64Descending b v) @ r) = Inr (r, v) \<and>
   DecodeUint32Ascending (drop (length b) (EncodeUint32Ascending b u) @ r) = Inr (r, u) \<and>
   DecodeUint32Descending (drop (length b) (EncodeUint32Descending b u) @ r) = Inr (r, u)"
  unfolding Encode_append [of b]
  by (simp add: varint_asc.dec_enc varint_desc.dec_enc uvarint_asc.dec_enc uvarint_desc.dec_enc
      uint64_asc.dec_enc uint64_desc.dec_enc uint32_asc.dec_enc uint32_desc.dec_enc)

text \<open>
  C12: the byte order of encoded integers is the order of the integers, or its reverse for the
  descending encodings; what follows the encodings decides only between equal integers.
\<close>

theorem integer_key_order:
  "(EncodeVarintAscending b v @ x < EncodeVarintAscending b w @ y \<longleftrightarrow> sint v < sint w \<or> v = w \<and> x < y) \<and>
   (EncodeVarintDescending b v @ x < EncodeVarintDescending b w @ y \<longleftrightarrow> sint w < sint v \<or> v = w \<and> x < y) \<and>
   (EncodeUvarintAscending b v @ x < EncodeUvarintAscending b w @ y \<longleftrightarrow> v < w \<or> v = w \<and> x < y) \<and>
   (EncodeUvarintDescending b v @ x < EncodeUvarintDescending b w @ y \<longleftrightarrow> w < v \<or> v = w \<and> x < y) \<and>
   (EncodeUint64Ascending b v @ x < EncodeUint64Ascending b w @ y \<longleftrightarrow> v < w \<or> v = w \<and> x < y) \<and>
   (EncodeUint64Descending b v @ x < EncodeUint64Descending b w @ y \<longleftrightarrow> w < v \<or> v = w \<and> x < y)"
proof -
  have s: "sint v < sint w \<or> v = w \<or> sint w < sint v" by (metis linorder_neqE signed_word_eqI)
  have u: "v < w \<or> v = w \<or> w < v" "w < v \<or> v = w \<or> v < w" by auto
  show ?thesis
    unfolding Encode_append [of b] append_assoc less_append_iff
    by (intro conjI varint_asc.enc_less_iff varint_desc.enc_less_iff uvarint_asc.enc_less_iff
        uvarint_desc.enc_less_iff uint64_asc.enc_less_iff uint64_desc.enc_less_iff TrueI s u)
      (use s in blast)
qed

text \<open>
  The length functions agree with the encoders: \<open>EncLenUvarintAscending\<close> and
  \<open>EncLenUvarintDescending\<close> give the number of bytes without encoding, \<open>getVarintLen\<close> gives it
  from the encoded bytes, and no varint has more than nine bytes.
\<close>

theorem varint_lengths:
  "length (EncodeUvarintAscending b v) = length b + EncLenUvarintAscending v \<and>
   length (EncodeUvarintDescending b v) = length b + EncLenUvarintDescending v \<and>
   getVarintLen (EncodeVarintAscending [] v @ r) = Inr (length (EncodeVarintAscending [] v)) \<and>
   length (EncodeVarintAscending [] v) \<le> 9 \<and> EncLenUvarintAscending v \<le> 9 \<and> EncLenUvarintDescending v \<le> 9"
  unfolding Encode_append [of b]
  using length_EncodeVarint [of v] byte_width_range [of "unat v"]
  by (simp add: length_EncodeUvarint getVarintLen_enc EncLenUvarintAscending_def EncLenUvarintDescending_def
      highestByteIndex_width)

text \<open>
  C34: \<open>DecodeUvarintAscending\<close> does not reject a tag below \<open>intZero\<close>: its length test compares
  the negative difference and passes, and the difference is returned as a huge unsigned
  integer, without an error and without reading another byte.
\<close>

theorem DecodeUvarintAscending_low_tag:
  assumes "unat c < 136"
  shows "\<exists>v. DecodeUvarintAscending (c # r) = Inr (r, v) \<and> unat v = 2 ^ 64 - 136 + unat c"
proof -
  have c: "uint c = int (unat c)" by simp
  then have "uint c < 136" using assms by linarith
  then have "uint c - 136 \<le> 109" by linarith
  then have d: "DecodeUvarintAscending (c # r) = Inr (r, word_of_int (uint c - 136))"
    by (simp add: DecodeUvarintAscending_def Let_def)
  define w :: "64 word" where "w = word_of_int (uint c - 136)"
  have "uint w = (uint c - 136) mod 18446744073709551616"
    unfolding w_def unsigned_of_int by (simp add: take_bit_eq_mod)
  also have "\<dots> = (uint c - 136 + 18446744073709551616) mod 18446744073709551616" by (simp only: mod_add_self2)
  also have "\<dots> = uint c - 136 + 18446744073709551616"
    using \<open>uint c < 136\<close> by (intro mod_pos_pos_trivial) simp_all
  finally have "uint w = uint c - 136 + 18446744073709551616" .
  moreover have "uint w = int (unat w)" by simp
  ultimately have "unat w = 18446744073709551616 - 136 + unat c" using c by linarith
  with d show ?thesis by (simp add: w_def)
qed

theorem DecodeUvarintAscending_low_tag_witness:
  "\<exists>v. DecodeUvarintAscending ((0x12 :: byte) # [7]) = Inr ([7], v) \<and> unat v = 2 ^ 64 - 136 + unat (0x12 :: byte)"
  by (rule DecodeUvarintAscending_low_tag) simp

text \<open>
  \<open>PutUint32Ascending\<close> writes in place: at the index it leaves the four bytes that decode to
  the value, before it the bytes that were there, padded with zeros if the buffer was shorter,
  and after it the rest of the buffer.
\<close>

theorem PutUint32Ascending_writes:
  "take idx (PutUint32Ascending b v idx) = take idx b @ replicate (idx - length b) 0 \<and>
   DecodeUint32Ascending (drop idx (PutUint32Ascending b v idx)) = Inr (drop (idx + 4) b, v)"
proof -
  define b' where "b' = b @ replicate (idx + 4 - length b) 0"
  have l: "idx + 4 \<le> length b'" by (simp add: b'_def)
  have "EncodeUint32Ascending [] v = [ucast (drop_bit 24 v), ucast (drop_bit 16 v), ucast (drop_bit 8 v), ucast v]"
    by (simp add: EncodeUint32Ascending_def eval_nat_numeral)
  then have p: "PutUint32Ascending b v idx = take idx b' @ EncodeUint32Ascending [] v @ drop (idx + 4) b'"
    using list_update_four [OF l] by (simp add: PutUint32Ascending_def b'_def Let_def)
  have t: "take idx b' = take idx b @ replicate (idx - length b) 0" by (simp add: b'_def min_def)
  have "drop (idx + 4) b' = drop (idx + 4) b" by (simp add: b'_def)
  moreover have "length (take idx b') = idx" using l by simp
  ultimately show ?thesis
    unfolding p using uint32_asc.dec_enc [OF TrueI, of v] t by (simp add: min_def)
qed

end
