(* ===== verification/Key_Bytes.thy ===== *)
theory Key_Bytes
  imports Key_Ints
begin

text \<open>
  Byte strings in \<open>utils/encoding/encoding.go\<close>: the escape-based encoding with a terminator,
  ascending and descending, the decoder, the length of an encoding, and the complement of a
  buffer in \<open>complement_fast.go\<close> and \<open>complement_safe.go\<close>. Buffers are values: that a decoded
  slice may share storage with the input is not modelled.
\<close>

subsection \<open>Complement of a buffer\<close>

definition onesComplement :: "bytes \<Rightarrow> bytes" where
  "onesComplement b = map NOT b"

text \<open>The fast version: the machine words of the buffer first, little endian, then the other bytes.\<close>

definition wordSize :: nat where "wordSize = 8"

definition complement_word :: "bytes \<Rightarrow> bytes" where
  "complement_word c = rev (be_bytes wordSize (NOT (from_be (0 :: 64 word) (rev c))))"

fun complement_words :: "nat \<Rightarrow> bytes \<Rightarrow> bytes" where
  "complement_words 0 b = []"
| "complement_words (Suc w) b = complement_word (take wordSize b) @ complement_words w (drop wordSize b)"

definition onesComplement_fast :: "bytes \<Rightarrow> bytes" where
  "onesComplement_fast b =
     (let w = length b div wordSize
      in complement_words w b @ map NOT (drop (w * wordSize) b))"

subsection \<open>Encoding\<close>

abbreviation escape :: byte where "escape \<equiv> 0x00"
abbreviation escapedTerm :: byte where "escapedTerm \<equiv> 0x01"
abbreviation escapedJSONObjectKeyTerm :: byte where "escapedJSONObjectKeyTerm \<equiv> 0x02"
abbreviation escapedJSONArray :: byte where "escapedJSONArray \<equiv> 0x03"
abbreviation escaped00 :: byte where "escaped00 \<equiv> 0xff"
abbreviation escapedFF :: byte where "escapedFF \<equiv> 0x00"
abbreviation bytesMarker :: byte where "bytesMarker \<equiv> 0x12"
abbreviation bytesDescMarker :: byte where "bytesDescMarker \<equiv> 0x13"

record escapes =
  esc_escape :: byte
  esc_escapedTerm :: byte
  esc_escaped00 :: byte
  esc_escapedFF :: byte
  esc_marker :: byte

definition ascendingBytesEscapes :: escapes where
  "ascendingBytesEscapes =
     \<lparr>esc_escape = escape, esc_escapedTerm = escapedTerm, esc_escaped00 = escaped00,
      esc_escapedFF = escapedFF, esc_marker = bytesMarker\<rparr>"

definition descendingBytesEscapes :: escapes where
  "descendingBytesEscapes =
     \<lparr>esc_escape = NOT escape, esc_escapedTerm = NOT escapedTerm, esc_escaped00 = NOT escaped00,
      esc_escapedFF = NOT escapedFF, esc_marker = bytesDescMarker\<rparr>"

text \<open>\<open>bytes.IndexByte\<close>; \<open>None\<close> is -1.\<close>

fun IndexByte :: "bytes \<Rightarrow> byte \<Rightarrow> nat option" where
  "IndexByte [] c = None"
| "IndexByte (b # bs) c = (if b = c then Some 0 else map_option Suc (IndexByte bs c))"

lemma IndexByte_append: "c \<notin> set xs \<Longrightarrow> IndexByte (xs @ c # ys) c = Some (length xs)"
  by (induction xs) auto

lemma IndexByte_Some:
  "IndexByte b c = Some i \<Longrightarrow> i < length b \<and> b = take i b @ c # drop (i + 1) b \<and> c \<notin> set (take i b)"
proof (induction b arbitrary: i)
  case (Cons d b)
  then show ?case by (cases "d = c") (auto simp: map_option_case split: option.splits)
qed simp

lemma IndexByte_None_iff: "IndexByte b c = None \<longleftrightarrow> c \<notin> set b"
  by (induction b) auto

lemma IndexByte_less: "IndexByte b c = Some i \<Longrightarrow> i < length b"
  using IndexByte_Some by blast

function encodeBytesAscendingWithoutTerminatorOrPrefix :: "bytes \<Rightarrow> bytes \<Rightarrow> bytes" where
  "encodeBytesAscendingWithoutTerminatorOrPrefix b data =
     (case IndexByte data escape of
        None \<Rightarrow> b @ data
      | Some i \<Rightarrow>
          encodeBytesAscendingWithoutTerminatorOrPrefix (b @ take i data @ [escape, escaped00]) (drop (i + 1) data))"
  by pat_completeness auto
termination
  by (relation "measure (\<lambda>(b, data). length data)") (auto dest: IndexByte_less)

declare encodeBytesAscendingWithoutTerminatorOrPrefix.simps [simp del]

definition encodeBytesAscendingWithTerminator :: "bytes \<Rightarrow> bytes \<Rightarrow> byte \<Rightarrow> bytes" where
  "encodeBytesAscendingWithTerminator b data terminator =
     encodeBytesAscendingWithoutTerminatorOrPrefix b data @ [escape, terminator]"

definition encodeBytesAscendingWithTerminatorAndPrefix :: "bytes \<Rightarrow> bytes \<Rightarrow> byte \<Rightarrow> byte \<Rightarrow> bytes" where
  "encodeBytesAscendingWithTerminatorAndPrefix b data terminator prefix =
     encodeBytesAscendingWithTerminator (b @ [prefix]) data terminator"

definition EncodeBytesAscending :: "bytes \<Rightarrow> bytes \<Rightarrow> bytes" where
  "EncodeBytesAscending b data =
     encodeBytesAscendingWithTerminatorAndPrefix b data (esc_escapedTerm ascendingBytesEscapes) bytesMarker"

definition EncodeBytesDescending :: "bytes \<Rightarrow> bytes \<Rightarrow> bytes" where
  "EncodeBytesDescending b data =
     (let n = length b; b' = (EncodeBytesAscending b data)[n := bytesDescMarker]
      in take (n + 1) b' @ onesComplement (drop (n + 1) b'))"

text \<open>Strings share their bytes with the argument of the byte encoders.\<close>

definition EncodeJSONKeyStringAscending :: "bytes \<Rightarrow> bytes \<Rightarrow> bool \<Rightarrow> bytes" where
  "EncodeJSONKeyStringAscending b s atEnd =
     (if atEnd then encodeBytesAscendingWithoutTerminatorOrPrefix b s
      else encodeBytesAscendingWithTerminator b s escapedJSONObjectKeyTerm)"

subsection \<open>Decoding\<close>

function decodeBytes_loop :: "bytes \<Rightarrow> bytes \<Rightarrow> escapes \<Rightarrow> key_error + bytes \<times> bytes" where
  "decodeBytes_loop b r e =
     (case IndexByte b (esc_escape e) of
        None \<Rightarrow> Inl (NoTerminator (esc_escape e) b)
      | Some i \<Rightarrow>
          if i + 1 \<ge> length b then Inl (MalformedEscape b)
          else
            (let v = b ! (i + 1) in
             if v = esc_escapedTerm e then Inr (drop (i + 2) b, r @ take i b)
             else if v \<noteq> esc_escaped00 e then Inl (UnknownEscape (esc_escape e) v)
             else decodeBytes_loop (drop (i + 2) b) (r @ take i b @ [esc_escapedFF e]) e))"
  by pat_completeness auto
termination
  by (relation "measure (\<lambda>(b, r, e). length b)") auto

declare decodeBytes_loop.simps [simp del]

definition decodeBytesInternal :: "bytes \<Rightarrow> bytes \<Rightarrow> escapes \<Rightarrow> bool \<Rightarrow> key_error + bytes \<times> bytes" where
  "decodeBytesInternal b r e expectMarker =
     (if expectMarker then
        (if b = [] \<or> hd b \<noteq> esc_marker e then Inl (NoMarker (Some (esc_marker e)) b)
         else decodeBytes_loop (tl b) r e)
      else decodeBytes_loop b r e)"

definition DecodeBytesAscending :: "bytes \<Rightarrow> bytes \<Rightarrow> key_error + bytes \<times> bytes" where
  "DecodeBytesAscending b r = decodeBytesInternal b r ascendingBytesEscapes True"

definition DecodeBytesDescending :: "bytes \<Rightarrow> bytes \<Rightarrow> key_error + bytes \<times> bytes" where
  "DecodeBytesDescending b r =
     bind_result (decodeBytesInternal b r descendingBytesEscapes True) (\<lambda>(b', r'). Inr (b', onesComplement r'))"

text \<open>The length of an encoding; \<open>None\<close> is an index out of range.\<close>

function getBytesLength_loop :: "bytes \<Rightarrow> escapes \<Rightarrow> nat \<Rightarrow> (key_error + nat) option" where
  "getBytesLength_loop b e skipped =
     (case IndexByte (drop skipped b) (esc_escape e) of
        None \<Rightarrow> Some (Inl (NoTerminator (esc_escape e) b))
      | Some i \<Rightarrow>
          if i + 1 \<ge> length b then Some (Inl (MalformedEscape b))
          else
            (let skipped' = skipped + i + 2 in
             if skipped' - 1 \<ge> length b then None
             else if b ! (skipped' - 1) = esc_escapedTerm e then Some (Inr skipped')
             else getBytesLength_loop b e skipped'))"
  by pat_completeness auto
termination
  by (relation "measure (\<lambda>(b, e, skipped). length b - skipped)") auto

declare getBytesLength_loop.simps [simp del]

definition getBytesLength :: "bytes \<Rightarrow> escapes \<Rightarrow> (key_error + nat) option" where
  "getBytesLength b e = getBytesLength_loop b e 1"

subsection \<open>The escaped form\<close>

definition escaped :: "bytes \<Rightarrow> bytes" where
  "escaped data = concat (map (\<lambda>c. if c = escape then [escape, escaped00] else [c]) data)"

lemma escaped_simps [simp]:
  "escaped [] = []" "escaped (c # data) = (if c = escape then [escape, escaped00] else [c]) @ escaped data"
  "escaped (xs @ ys) = escaped xs @ escaped ys"
  by (simp_all add: escaped_def)

lemma escaped_plain: "escape \<notin> set data \<Longrightarrow> escaped data = data"
  by (induction data) auto

lemma encode_escaped: "encodeBytesAscendingWithoutTerminatorOrPrefix b data = b @ escaped data"
proof (induction b data rule: encodeBytesAscendingWithoutTerminatorOrPrefix.induct)
  case (1 b data)
  show ?case
  proof (cases "IndexByte data escape")
    case None
    then have "escape \<notin> set data" by (simp add: IndexByte_None_iff)
    with None show ?thesis
      by (subst encodeBytesAscendingWithoutTerminatorOrPrefix.simps) (simp add: escaped_plain)
  next
    case (Some i)
    define pre post where "pre = take i data" and "post = drop (i + 1) data"
    have d: "data = pre @ escape # post" "escape \<notin> set pre"
      using IndexByte_Some [OF Some] by (auto simp: pre_def post_def)
    have "escaped data = take i data @ [escape, escaped00] @ escaped (drop (i + 1) data)"
      unfolding pre_def [symmetric] post_def [symmetric] by (simp add: d escaped_plain)
    then show ?thesis
      using 1 [OF Some] Some by (subst encodeBytesAscendingWithoutTerminatorOrPrefix.simps) simp
  qed
qed

lemma EncodeBytesAscending_escaped:
  "EncodeBytesAscending b data = b @ bytesMarker # escaped data @ [escape, escapedTerm]"
  by (simp add: EncodeBytesAscending_def encodeBytesAscendingWithTerminatorAndPrefix_def
      encodeBytesAscendingWithTerminator_def encode_escaped ascendingBytesEscapes_def)

lemma EncodeBytesDescending_escaped:
  "EncodeBytesDescending b data = b @ bytesDescMarker # map NOT (escaped data @ [escape, escapedTerm])"
  by (simp add: EncodeBytesDescending_def EncodeBytesAscending_escaped onesComplement_def Let_def)

subsection \<open>Decoding an encoding\<close>

lemma decode_escaped:
  assumes "esc_escape e = escape" "esc_escapedTerm e = escapedTerm" "esc_escaped00 e = escaped00" "esc_escapedFF e = escapedFF"
  shows "decodeBytes_loop (escaped data @ escape # escapedTerm # rest) r e = Inr (rest, r @ data)"
proof (induction "length data" arbitrary: data r rule: less_induct)
  case less
  show ?case
  proof (cases "IndexByte data escape")
    case None
    then have "escape \<notin> set data" by (simp add: IndexByte_None_iff)
    then show ?thesis
      using IndexByte_append [of escape data "escapedTerm # rest"] assms
      by (subst decodeBytes_loop.simps) (simp add: escaped_plain nth_append Let_def)
  next
    case (Some i)
    define pre post where "pre = take i data" and "post = drop (i + 1) data"
    have d: "data = pre @ escape # post" "escape \<notin> set pre" "length post < length data" "length pre = i"
      using IndexByte_Some [OF Some] by (auto simp: pre_def post_def)
    have "decodeBytes_loop (pre @ escape # escaped00 # escaped post @ escape # escapedTerm # rest) r e =
        decodeBytes_loop (escaped post @ escape # escapedTerm # rest) (r @ pre @ [escape]) e"
      using IndexByte_append [OF d(2), of "escaped00 # escaped post @ escape # escapedTerm # rest"] assms
      by (subst decodeBytes_loop.simps) (simp add: nth_append Let_def)
    also have "\<dots> = Inr (rest, (r @ pre @ [escape]) @ post)" by (rule less [OF d(3)])
    finally show ?thesis using d(1,2) by (simp add: escaped_plain)
  qed
qed

text \<open>Complementing the input and the escapes complements the result.\<close>

lemma IndexByte_not: "IndexByte (map NOT b) (NOT c) = IndexByte b c"
  by (induction b) (simp_all add: bit.compl_eq_compl_iff)

lemma decodeBytes_loop_not:
  "decodeBytes_loop b r ascendingBytesEscapes = Inr (b', r') \<Longrightarrow>
   decodeBytes_loop (map NOT b) (map NOT r) descendingBytesEscapes = Inr (map NOT b', map NOT r')"
proof (induction b r ascendingBytesEscapes rule: decodeBytes_loop.induct)
  case (1 b r)
  note pr = "1.prems" [unfolded decodeBytes_loop.simps [of b r]]
  obtain i where i: "IndexByte b escape = Some i" "i + 1 < length b"
    using pr by (auto simp: ascendingBytesEscapes_def split: option.splits if_splits)
  have I: "IndexByte (map NOT b) (NOT escape) = Some i" using i(1) IndexByte_not by metis
  show ?case
  proof (cases "b ! (i + 1) = escapedTerm")
    case True
    then show ?thesis
      using pr i I unfolding decodeBytes_loop.simps [of "map NOT b"]
      by (auto simp: ascendingBytesEscapes_def descendingBytesEscapes_def Let_def take_map drop_map)
  next
    case False
    then have e: "b ! (i + 1) = escaped00"
      using pr i by (auto simp: ascendingBytesEscapes_def Let_def split: if_splits)
    have "decodeBytes_loop (drop (i + 2) b) (r @ take i b @ [escapedFF]) ascendingBytesEscapes = Inr (b', r')"
      using pr i e by (simp add: ascendingBytesEscapes_def Let_def)
    then have "decodeBytes_loop (map NOT (drop (i + 2) b)) (map NOT (r @ take i b @ [escapedFF])) descendingBytesEscapes
        = Inr (map NOT b', map NOT r')"
      using "1.hyps" [of i "b ! (i + 1)"] i e by (simp add: ascendingBytesEscapes_def)
    then show ?thesis
      using i I e unfolding decodeBytes_loop.simps [of "map NOT b"]
      by (simp add: descendingBytesEscapes_def Let_def take_map drop_map)
  qed
qed

lemma map_not_not [simp]: "map NOT (map NOT (b :: bytes)) = b" "map (NOT \<circ> NOT) (b :: bytes) = b"
  by (induction b) simp_all

lemma DecodeBytesAscending_enc: "DecodeBytesAscending (EncodeBytesAscending [] data @ rest) r = Inr (rest, r @ data)"
  using decode_escaped [of ascendingBytesEscapes data rest r]
  by (simp add: DecodeBytesAscending_def decodeBytesInternal_def EncodeBytesAscending_escaped ascendingBytesEscapes_def)

lemma DecodeBytesDescending_enc:
  "DecodeBytesDescending (EncodeBytesDescending [] data @ rest) r = Inr (rest, onesComplement r @ data)"
proof -
  have "decodeBytes_loop (escaped data @ escape # escapedTerm # map NOT rest) (map NOT r) ascendingBytesEscapes =
      Inr (map NOT rest, map NOT r @ data)"
    by (rule decode_escaped) (simp_all add: ascendingBytesEscapes_def)
  from decodeBytes_loop_not [OF this]
  have "decodeBytes_loop (map NOT (escaped data @ [escape, escapedTerm]) @ rest) r descendingBytesEscapes =
      Inr (rest, r @ map NOT data)"
    by simp
  then show ?thesis
    by (simp add: DecodeBytesDescending_def decodeBytesInternal_def EncodeBytesDescending_escaped onesComplement_def
        descendingBytesEscapes_def)
qed

subsection \<open>Order\<close>

lemma escaped_less:
  "d < d' \<Longrightarrow> (escaped d @ [escape, escapedTerm]) @ x < (escaped d' @ [escape, escapedTerm]) @ y"
proof (induction d arbitrary: d')
  case Nil
  then obtain c cs where "d' = c # cs" by (cases d') auto
  then show ?case by (auto simp: word_gt_0)
next
  case (Cons c d)
  then obtain c' e where d': "d' = c' # e" by (cases d') auto
  show ?case
  proof (cases "c = c'")
    case True
    then show ?thesis using Cons d' by simp
  next
    case False
    then have "c < c'" using Cons.prems d' by simp
    moreover from this have "c' \<noteq> 0" by auto
    ultimately show ?thesis using d' by (auto simp: word_gt_0)
  qed
qed

interpretation bytes_asc: key_codec "EncodeBytesAscending []" "\<lambda>b. DecodeBytesAscending b []" "\<lambda>_. True" "(<)"
proof unfold_locales
  show "EncodeBytesAscending [] v @ x < EncodeBytesAscending [] w @ y" if "v < w" for v w x y
    using escaped_less [OF that, of x y] by (simp add: EncodeBytesAscending_escaped)
qed (simp add: DecodeBytesAscending_enc)

interpretation bytes_desc: key_codec "EncodeBytesDescending []" "\<lambda>b. DecodeBytesDescending b []" "\<lambda>_. True" "\<lambda>v w. w < v"
proof unfold_locales
  show "EncodeBytesDescending [] v @ x < EncodeBytesDescending [] w @ y" if "w < v" for v w x y
    using complement_less [OF escaped_less [OF that], of x y] by (simp add: EncodeBytesDescending_escaped)
qed (simp add: DecodeBytesDescending_enc onesComplement_def)

subsection \<open>Lengths\<close>

lemma getBytesLength_loop_step:
  assumes "drop skipped b = pre @ esc_escape e # c # post" "esc_escape e \<notin> set pre" "0 < skipped"
  shows "getBytesLength_loop b e skipped =
    (if c = esc_escapedTerm e then Some (Inr (skipped + length pre + 2))
     else getBytesLength_loop b e (skipped + length pre + 2))"
proof -
  have "drop (skipped + length (pre @ [esc_escape e])) b = c # post"
    by (rule drop_append_drop) (simp add: assms(1))
  note c = drop_Cons_nth(1,2) [OF this]
  have "IndexByte (drop skipped b) (esc_escape e) = Some (length pre)"
    unfolding assms(1) by (rule IndexByte_append [OF assms(2)])
  then show ?thesis
    using c assms(3) by (subst getBytesLength_loop.simps) (simp add: Let_def)
qed

lemma getBytesLength_loop_escaped:
  assumes n: "inj n" and e: "esc_escape e = n escape" "esc_escapedTerm e = n escapedTerm"
    and "drop skipped b = map n (escaped data) @ n escape # n escapedTerm # rest" "0 < skipped"
  shows "getBytesLength_loop b e skipped = Some (Inr (skipped + length (escaped data) + 2))"
  using assms(4-)
proof (induction "length data" arbitrary: data skipped rule: less_induct)
  case less
  have notin: "n escape \<notin> set (map n xs)" if "escape \<notin> set xs" for xs
    using that by (auto simp: inj_eq [OF n])
  show ?case
  proof (cases "IndexByte data escape")
    case None
    then have p: "escape \<notin> set data" by (simp add: IndexByte_None_iff)
    have "drop skipped b = map n data @ esc_escape e # n escapedTerm # rest"
      using less.prems(1) e p by (simp add: escaped_plain)
    from getBytesLength_loop_step [OF this] show ?thesis
      using notin [OF p] e p less.prems(2) by (simp add: escaped_plain)
  next
    case (Some i)
    define pre post where "pre = take i data" and "post = drop (i + 1) data"
    have d: "data = pre @ escape # post" "escape \<notin> set pre" "length post < length data"
      using IndexByte_Some [OF Some] by (auto simp: pre_def post_def)
    have dr: "drop skipped b = map n pre @ esc_escape e # n escaped00 # map n (escaped post) @ n escape # n escapedTerm # rest"
      using less.prems(1) e d by (simp add: escaped_plain)
    have "drop (skipped + length (map n pre @ [n escape, n escaped00])) b = map n (escaped post) @ n escape # n escapedTerm # rest"
      by (rule drop_append_drop) (simp add: dr e)
    then have "getBytesLength_loop b e (skipped + length pre + 2) = Some (Inr (skipped + length pre + 2 + length (escaped post) + 2))"
      using less.hyps [OF d(3)] by simp
    then show ?thesis
      using getBytesLength_loop_step [OF dr] notin [OF d(2)] e less.prems(2) d by (simp add: inj_eq [OF n] escaped_plain)
  qed
qed

lemma getBytesLength_loop_truncated:
  assumes "drop skipped b = escaped data @ [escape]" "0 < skipped"
  shows "getBytesLength_loop b ascendingBytesEscapes skipped = None"
  using assms
proof (induction "length data" arbitrary: data skipped rule: less_induct)
  case less
  have e: "esc_escape ascendingBytesEscapes = escape" "esc_escapedTerm ascendingBytesEscapes = escapedTerm"
    by (simp_all add: ascendingBytesEscapes_def)
  show ?case
  proof (cases "IndexByte data escape")
    case None
    then have p: "escape \<notin> set data" by (simp add: IndexByte_None_iff)
    then have "IndexByte (drop skipped b) escape = Some (length data)"
      using less.prems(1) IndexByte_append [OF p, of "[]"] by (simp add: escaped_plain)
    moreover have "length b = skipped + length data + 1"
      using arg_cong [OF less.prems(1), of length] p by (simp add: escaped_plain)
    ultimately show ?thesis
      using less.prems(2) e by (subst getBytesLength_loop.simps) (simp add: Let_def)
  next
    case (Some i)
    define pre post where "pre = take i data" and "post = drop (i + 1) data"
    have d: "data = pre @ escape # post" "escape \<notin> set pre" "length post < length data"
      using IndexByte_Some [OF Some] by (auto simp: pre_def post_def)
    have dr: "drop skipped b = pre @ esc_escape ascendingBytesEscapes # escaped00 # escaped post @ [escape]"
      using less.prems(1) e d by (simp add: escaped_plain)
    have "drop (skipped + length (pre @ [escape, escaped00])) b = escaped post @ [escape]"
      by (rule drop_append_drop) (simp add: dr e)
    then have "getBytesLength_loop b ascendingBytesEscapes (skipped + length pre + 2) = None"
      using less.hyps [OF d(3)] by simp
    then show ?thesis
      using getBytesLength_loop_step [OF dr] e less.prems(2) d(2) by simp
  qed
qed

lemma inj_not: "inj (NOT :: byte \<Rightarrow> byte)"
  by (rule injI) (metis bit.double_compl)

lemma getBytesLength_enc:
  "getBytesLength (EncodeBytesAscending [] data @ r) ascendingBytesEscapes = Some (Inr (length (EncodeBytesAscending [] data)))"
  "getBytesLength (EncodeBytesDescending [] data @ r) descendingBytesEscapes = Some (Inr (length (EncodeBytesDescending [] data)))"
  using getBytesLength_loop_escaped [of id ascendingBytesEscapes 1 "EncodeBytesAscending [] data @ r" data r]
    getBytesLength_loop_escaped [OF inj_not, of descendingBytesEscapes 1 "EncodeBytesDescending [] data @ r" data r]
  by (simp_all add: getBytesLength_def EncodeBytesAscending_escaped EncodeBytesDescending_escaped
      ascendingBytesEscapes_def descendingBytesEscapes_def)

subsection \<open>The fast complement\<close>

lemma complement_word_map: "length c = wordSize \<Longrightarrow> complement_word c = map NOT c"
  using be_bytes_from_be [of "rev c" "0 :: 64 word"] be_bytes_not [of 8 "from_be (0 :: 64 word) (rev c)"]
  by (simp add: complement_word_def wordSize_def rev_map [symmetric] del: be_bytes_not)
    (metis rev_map rev_rev_ident)

lemma complement_words_map: "w * wordSize \<le> length b \<Longrightarrow> complement_words w b = map NOT (take (w * wordSize) b)"
proof (induction w arbitrary: b)
  case (Suc w)
  have "complement_word (take wordSize b) = map NOT (take wordSize b)"
    using Suc.prems by (intro complement_word_map) simp
  moreover have "complement_words w (drop wordSize b) = map NOT (take (w * wordSize) (drop wordSize b))"
    using Suc.prems by (intro Suc.IH) simp
  ultimately show ?case by (simp add: take_add)
qed simp

subsection \<open>Properties\<close>

text \<open>
  C35: complementing machine words first gives the same buffer as complementing every byte, so
  the two build variants of \<open>onesComplement\<close> agree.
\<close>

theorem onesComplement_fast_safe: "onesComplement_fast b = onesComplement b"
proof -
  have "length b div wordSize * wordSize \<le> length b" by (rule div_times_less_eq_dividend)
  then show ?thesis
    by (simp add: onesComplement_fast_def onesComplement_def complement_words_map Let_def flip: map_append)
qed

text \<open>
  A byte string is read back from its ascending and from its descending encoding, with
  whatever follows. The ascending decoder appends to the buffer it is given; the descending
  one also complements what was in that buffer.
\<close>

theorem bytes_key_roundtrip:
  "DecodeBytesAscending (drop (length b) (EncodeBytesAscending b data) @ rest) r = Inr (rest, r @ data) \<and>
   DecodeBytesDescending (drop (length b) (EncodeBytesDescending b data) @ rest) r = Inr (rest, onesComplement r @ data)"
  using DecodeBytesAscending_enc [of data rest r] DecodeBytesDescending_enc [of data rest r]
  by (simp add: EncodeBytesAscending_escaped EncodeBytesDescending_escaped)

text \<open>
  Encoded byte strings compare as the byte strings do, and in reverse for the descending
  encoding, whatever follows them; in particular a prefix sorts before its extensions.
\<close>

theorem bytes_key_order:
  "(EncodeBytesAscending b d @ x < EncodeBytesAscending b d' @ y \<longleftrightarrow> d < d' \<or> d = d' \<and> x < y) \<and>
   (EncodeBytesDescending b d @ x < EncodeBytesDescending b d' @ y \<longleftrightarrow> d' < d \<or> d = d' \<and> x < y)"
proof -
  have "d < d' \<or> d = d' \<or> d' < d" "d' < d \<or> d = d' \<or> d < d'" by auto
  note i = bytes_asc.enc_less_iff [OF TrueI TrueI this(1), of x y] bytes_desc.enc_less_iff [OF TrueI TrueI this(2), of x y]
  have "EncodeBytesAscending b d = b @ EncodeBytesAscending [] d" "EncodeBytesDescending b d = b @ EncodeBytesDescending [] d" for d
    by (simp_all add: EncodeBytesAscending_escaped EncodeBytesDescending_escaped)
  with i show ?thesis by (simp only: append_assoc less_append_iff)
qed

text \<open>
  C36: \<open>getBytesLength\<close> finds the length of an encoding without decoding it. On a truncated
  buffer that ends in an escape byte it does not report the malformed escape: its test compares
  an index into the rest with the length of the whole buffer, and the next read is out of range.
\<close>

theorem getBytesLength_spec:
  "getBytesLength (EncodeBytesAscending [] data @ r) ascendingBytesEscapes = Some (Inr (length (EncodeBytesAscending [] data))) \<and>
   getBytesLength (EncodeBytesDescending [] data @ r) descendingBytesEscapes = Some (Inr (length (EncodeBytesDescending [] data))) \<and>
   getBytesLength (bytesMarker # escaped data @ [escape]) ascendingBytesEscapes = None"
  using getBytesLength_loop_truncated [of 1 "bytesMarker # escaped data @ [escape]" data]
  by (simp add: getBytesLength_enc) (simp add: getBytesLength_def)

end
