(* ===== verification/Int_Arith.thy ===== *)
theory Int_Arith
  imports Prelude "HOL-Library.Signed_Division"
begin

text \<open>
  Go's signed integers as \<^typ>\<open>int\<close> kept in range by wrap-around, and the arithmetic with
  overflow detection of \<open>utils/arith\<close>.
\<close>

subsection \<open>Wrap-around\<close>

abbreviation MaxInt64 :: int where "MaxInt64 \<equiv> 9223372036854775807"
abbreviation MinInt64 :: int where "MinInt64 \<equiv> - 9223372036854775808"
abbreviation MaxInt32 :: int where "MaxInt32 \<equiv> 2147483647"
abbreviation MinInt32 :: int where "MinInt32 \<equiv> - 2147483648"

definition i64 :: "int \<Rightarrow> int" where
  "i64 x = (x + 9223372036854775808) mod 18446744073709551616 - 9223372036854775808"

definition i32 :: "int \<Rightarrow> int" where
  "i32 x = (x + 2147483648) mod 4294967296 - 2147483648"

definition int64 :: "int \<Rightarrow> bool" where
  "int64 x \<longleftrightarrow> MinInt64 \<le> x \<and> x \<le> MaxInt64"

definition int32 :: "int \<Rightarrow> bool" where
  "int32 x \<longleftrightarrow> MinInt32 \<le> x \<and> x \<le> MaxInt32"

lemma i64_id [simp]: "int64 x \<Longrightarrow> i64 x = x"
  by (simp add: i64_def int64_def)

lemma i32_id [simp]: "int32 x \<Longrightarrow> i32 x = x"
  by (simp add: i32_def int32_def)

lemma int64_i64 [simp, intro]: "int64 (i64 x)"
proof -
  have "0 \<le> (x + 9223372036854775808) mod 18446744073709551616"
    "(x + 9223372036854775808) mod 18446744073709551616 < 18446744073709551616" by simp_all
  then show ?thesis unfolding i64_def int64_def by linarith
qed

lemma int32_i32 [simp, intro]: "int32 (i32 x)"
proof -
  have "0 \<le> (x + 2147483648) mod 4294967296" "(x + 2147483648) mod 4294967296 < 4294967296" by simp_all
  then show ?thesis unfolding i32_def int32_def by linarith
qed

lemma sint_word_of_int: "sint (word_of_int x :: 64 word) = i64 x"
  by (simp add: int_word_sint i64_def)

lemma word_of_int_i64: "(word_of_int (i64 x) :: 64 word) = word_of_int x"
  by (metis sint_word_of_int of_int_sint scast_id)

lemma i64_congs [simp]:
  "i64 (i64 x + y) = i64 (x + y)" "i64 (x + i64 y) = i64 (x + y)"
  "i64 (i64 x - y) = i64 (x - y)" "i64 (x - i64 y) = i64 (x - y)"
  "i64 (i64 x * y) = i64 (x * y)" "i64 (x * i64 y) = i64 (x * y)" "i64 (- i64 x) = i64 (- x)"
  by (simp_all add: wi_hom_syms word_of_int_i64 flip: sint_word_of_int)

lemma int64_sint [simp, intro]: "int64 (sint (v :: 64 word))"
  by (metis int64_i64 sint_word_of_int of_int_sint scast_id)

lemma word_of_int_sint64: "int64 x \<Longrightarrow> sint (word_of_int x :: 64 word) = x"
  by (simp add: sint_word_of_int)


text \<open>Go's division truncates towards zero, and the remainder has the sign of the dividend.\<close>

lemma sdiv_pos: "0 \<le> a \<Longrightarrow> 0 < b \<Longrightarrow> a sdiv b = a div (b :: int)"
  by (cases "a = 0") (simp_all add: signed_divide_int_def)

lemma sdiv_neg: "a \<le> 0 \<Longrightarrow> 0 < b \<Longrightarrow> a sdiv b = - ((- a) div (b :: int))"
  by (cases "a = 0") (simp_all add: signed_divide_int_def)

lemma sdiv_bounds:
  assumes "0 < b"
  shows "0 \<le> a \<Longrightarrow> 0 \<le> a sdiv b \<and> a sdiv b \<le> a" "a \<le> 0 \<Longrightarrow> a \<le> a sdiv b \<and> a sdiv b \<le> (0 :: int)"
  using assms int_div_less_self [of a b] int_div_less_self [of "- a" b] pos_imp_zdiv_nonneg_iff [OF assms]
  by (cases "b = 1"; simp add: sdiv_pos sdiv_neg pos_imp_zdiv_nonneg_iff; fastforce)+

lemma int64_sdiv [intro]: "int64 a \<Longrightarrow> 0 < b \<Longrightarrow> int64 (a sdiv b)"
  using sdiv_bounds [of b a] unfolding int64_def by linarith

lemma smod_bounds:
  assumes "0 < b"
  shows "0 \<le> a \<Longrightarrow> 0 \<le> a smod b" "a \<le> 0 \<Longrightarrow> a smod b \<le> 0" "- b < a smod b" "a smod b < (b :: int)"
  using smod_int_compares(1-4) [of a b] assms by (cases "0 \<le> a"; simp)+

subsection \<open>Overflow detection\<close>

definition AddWithOverflow :: "int \<Rightarrow> int \<Rightarrow> int \<times> bool" where
  "AddWithOverflow a b =
     (if b > 0 \<and> a > i64 (MaxInt64 - b) then (0, False)
      else if b < 0 \<and> a < i64 (MinInt64 - b) then (0, False)
      else (i64 (a + b), True))"

definition Add32WithOverflow :: "int \<Rightarrow> int \<Rightarrow> int \<times> bool" where
  "Add32WithOverflow a b =
     (if b > 0 \<and> a > i32 (MaxInt32 - b) then (0, False)
      else if b < 0 \<and> a < i32 (MinInt32 - b) then (0, False)
      else (i32 (a + b), True))"

definition Add32to64WithOverflow :: "int \<Rightarrow> int \<Rightarrow> int \<times> bool" where
  "Add32to64WithOverflow a b =
     (if b > MaxInt32 \<or> b < MinInt32 then (0, False) else Add32WithOverflow a (i32 b))"

definition SubWithOverflow :: "int \<Rightarrow> int \<Rightarrow> int \<times> bool" where
  "SubWithOverflow a b =
     (if b < 0 \<and> a > i64 (MaxInt64 + b) then (0, False)
      else if b > 0 \<and> a < i64 (MinInt64 + b) then (0, False)
      else (i64 (a - b), True))"

definition Sub32WithOverflow :: "int \<Rightarrow> int \<Rightarrow> int \<times> bool" where
  "Sub32WithOverflow a b =
     (if b < 0 \<and> a > i32 (MaxInt32 + b) then (0, False)
      else if b > 0 \<and> a < i32 (MinInt32 + b) then (0, False)
      else (i32 (a - b), True))"

definition Sub32to64WithOverflow :: "int \<Rightarrow> int \<Rightarrow> int \<times> bool" where
  "Sub32to64WithOverflow a b =
     (if b > MaxInt32 \<or> b < MinInt32 then (0, False) else Sub32WithOverflow a (i32 b))"

definition MulHalfPositiveWithOverflow :: "int \<Rightarrow> int \<Rightarrow> int \<times> bool" where
  "MulHalfPositiveWithOverflow a b =
     (if a \<ge> 0 \<and> a > MaxInt64 sdiv b then (0, False)
      else if \<not> a \<ge> 0 \<and> a < MinInt64 sdiv b then (0, False)
      else (i64 (a * b), True))"

subsection \<open>Exactness\<close>

text \<open>A result is reported exactly when the mathematical result is representable.\<close>

definition checked :: "(int \<Rightarrow> bool) \<Rightarrow> int \<Rightarrow> int \<times> bool" where
  "checked fits x = (if fits x then (x, True) else (0, False))"

lemma Add_checked: "int64 a \<Longrightarrow> int64 b \<Longrightarrow> AddWithOverflow a b = checked int64 (a + b)"
  unfolding AddWithOverflow_def checked_def by (auto simp: int64_def)

lemma Sub_checked: "int64 a \<Longrightarrow> int64 b \<Longrightarrow> SubWithOverflow a b = checked int64 (a - b)"
  unfolding SubWithOverflow_def checked_def by (auto simp: int64_def)

lemma Add32_checked: "int32 a \<Longrightarrow> int32 b \<Longrightarrow> Add32WithOverflow a b = checked int32 (a + b)"
  unfolding Add32WithOverflow_def checked_def by (auto simp: int32_def)

lemma Sub32_checked: "int32 a \<Longrightarrow> int32 b \<Longrightarrow> Sub32WithOverflow a b = checked int32 (a - b)"
  unfolding Sub32WithOverflow_def checked_def by (auto simp: int32_def)

lemma Add32to64_checked: "int32 a \<Longrightarrow> int64 b \<Longrightarrow> Add32to64WithOverflow a b = (if int32 b then checked int32 (a + b) else (0, False))"
  unfolding Add32to64WithOverflow_def by (auto simp: Add32_checked int32_def)

lemma Sub32to64_checked: "int32 a \<Longrightarrow> int64 b \<Longrightarrow> Sub32to64WithOverflow a b = (if int32 b then checked int32 (a - b) else (0, False))"
  unfolding Sub32to64WithOverflow_def by (auto simp: Sub32_checked int32_def)

lemma mult_le_iff_div: "0 < b \<Longrightarrow> a * b \<le> k \<longleftrightarrow> a \<le> k div (b :: int)"
proof
  assume b: "0 < b" and "a * b \<le> k"
  then have "a * b div b \<le> k div b" by (intro zdiv_mono1) auto
  then show "a \<le> k div b" using b by simp
next
  assume b: "0 < b" and "a \<le> k div b"
  then have "a * b \<le> (k div b) * b" by simp
  also have "\<dots> \<le> k" using b by (simp add: minus_mod_eq_div_mult [symmetric])
  finally show "a * b \<le> k" .
qed

lemma MulHalfPositive_checked:
  assumes a: "int64 a" and b: "0 < b"
  shows "MulHalfPositiveWithOverflow a b = checked int64 (a * b)"
proof (cases "0 \<le> a")
  case True
  then have "int64 (a * b) \<longleftrightarrow> \<not> a > MaxInt64 sdiv b"
    using b mult_le_iff_div [OF b, of a MaxInt64] by (simp add: int64_def sdiv_pos not_less order_trans [of _ 0])
  then show ?thesis using True by (auto simp: MulHalfPositiveWithOverflow_def checked_def)
next
  case False
  then have "int64 (a * b) \<longleftrightarrow> \<not> a < MinInt64 sdiv b"
    using b mult_le_iff_div [OF b, of "- a" "- MinInt64"] mult_nonpos_nonneg [of a b]
    by (simp add: int64_def sdiv_pos not_less) linarith
  then show ?thesis using False by (auto simp: MulHalfPositiveWithOverflow_def checked_def)
qed

text \<open>
  C21: the checked additions, subtractions and the multiplication by a positive number report
  success exactly when the mathematical result is in range, and then return it; the mixed
  operations also reject a 64-bit operand that is not a 32-bit number.
\<close>

theorem arith_exact:
  assumes "int64 a" "int64 b" "int32 c" "int32 d" "0 < k"
  shows "AddWithOverflow a b = checked int64 (a + b) \<and>
    SubWithOverflow a b = checked int64 (a - b) \<and>
    Add32WithOverflow c d = checked int32 (c + d) \<and>
    Sub32WithOverflow c d = checked int32 (c - d) \<and>
    Add32to64WithOverflow c b = (if int32 b then checked int32 (c + b) else (0, False)) \<and>
    Sub32to64WithOverflow c b = (if int32 b then checked int32 (c - b) else (0, False)) \<and>
    MulHalfPositiveWithOverflow a k = checked int64 (a * k)"
  using assms by (simp add: Add_checked Sub_checked Add32_checked Sub32_checked Add32to64_checked
      Sub32to64_checked MulHalfPositive_checked)

theorem arith_exact_witness:
  "AddWithOverflow MaxInt64 1 = (0, False) \<and> SubWithOverflow MaxInt64 1 = (MaxInt64 - 1, True) \<and>
   MulHalfPositiveWithOverflow MaxInt64 2 = (0, False)"
  using arith_exact [of MaxInt64 1 MaxInt32 1 2] by (simp add: int64_def int32_def checked_def)

end
