(* ===== verification/Durations.thy ===== *)
theory Durations
  imports Int_Arith
begin

text \<open>
  \<open>utils/duration\<close>: a duration of months, days and nanoseconds, its normal form, its order and
  the integers it is stored as. The fields are \<open>int64\<close>; every operation wraps.
\<close>

abbreviation DaysPerMonth :: int where "DaysPerMonth \<equiv> 30"
abbreviation nanosInDay :: int where "nanosInDay \<equiv> 86400000000000"
abbreviation nanosInMonth :: int where "nanosInMonth \<equiv> 2592000000000000"
abbreviation nanosInSecond :: int where "nanosInSecond \<equiv> 1000000000"
abbreviation nanosInMicro :: int where "nanosInMicro \<equiv> 1000"

definition maxYearsInDuration :: int where "maxYearsInDuration = MaxInt64 sdiv nanosInMonth"
definition minYearsInDuration :: int where "minYearsInDuration = MinInt64 sdiv nanosInMonth"

record Duration =
  Months :: int
  Days :: int
  nanos :: int

definition int64Max :: "int \<Rightarrow> int \<Rightarrow> int" where
  "int64Max a b = (if a > b then a else b)"

definition int64Min :: "int \<Rightarrow> int \<Rightarrow> int" where
  "int64Min a b = (if a < b then a else b)"

subsection \<open>Rounding to microseconds\<close>

text \<open>\<open>time.Duration.Round\<close>: to the nearest multiple, halves away from zero, saturating.\<close>

definition duration_Round :: "int \<Rightarrow> int \<Rightarrow> int" where
  "duration_Round d m =
     (if m \<le> 0 then d
      else if d < 0 then
        (let r = - (d smod m) in
         if r + r < m then i64 (d + r)
         else (let d1 = i64 (i64 (d - m) + r) in if d1 < d then d1 else MinInt64))
      else
        (let r = d smod m in
         if r + r < m then i64 (d - r)
         else (let d1 = i64 (i64 (d + m) - r) in if d1 > d then d1 else MaxInt64)))"

definition rounded :: "int \<Rightarrow> int" where
  "rounded n =
     (let v = duration_Round n nanosInMicro; m = v smod nanosInMicro
      in if m \<noteq> 0 then i64 (v - m) else v)"

definition round_nanos :: "Duration \<Rightarrow> Duration" where
  "round_nanos d = d\<lparr>nanos := rounded (nanos d)\<rparr>"

definition SetNanos :: "Duration \<Rightarrow> int \<Rightarrow> Duration" where
  "SetNanos d n = d\<lparr>nanos := rounded n\<rparr>"

definition MakeDuration :: "int \<Rightarrow> int \<Rightarrow> int \<Rightarrow> Duration" where
  "MakeDuration n days months = \<lparr>Months = months, Days = days, nanos = rounded n\<rparr>"

definition DecodeDuration :: "int \<Rightarrow> int \<Rightarrow> int \<Rightarrow> Duration" where
  "DecodeDuration months days n = \<lparr>Months = months, Days = days, nanos = n\<rparr>"

subsection \<open>Normal form and order\<close>

definition shiftPosDaysToMonths :: "Duration \<Rightarrow> Duration" where
  "shiftPosDaysToMonths d =
     (let maxMonths = (if Months d > 0 then i64 (MaxInt64 - Months d) else MaxInt64);
          monthsFromDays = int64Min (Days d sdiv DaysPerMonth) maxMonths
      in d\<lparr>Months := i64 (Months d + monthsFromDays), Days := i64 (Days d - i64 (monthsFromDays * DaysPerMonth))\<rparr>)"

definition shiftPosNanosToDays :: "Duration \<Rightarrow> Duration" where
  "shiftPosNanosToDays d =
     (let maxDays = (if Days d > 0 then i64 (MaxInt64 - Days d) else MaxInt64);
          daysFromNanos = int64Min (nanos d sdiv nanosInDay) maxDays
      in d\<lparr>Days := i64 (Days d + daysFromNanos), nanos := i64 (nanos d - i64 (daysFromNanos * nanosInDay))\<rparr>)"

definition shiftNegDaysToMonths :: "Duration \<Rightarrow> Duration" where
  "shiftNegDaysToMonths d =
     (let minMonths = (if Months d < 0 then i64 (MinInt64 - Months d) else MinInt64);
          monthsFromDays = int64Max (Days d sdiv DaysPerMonth) minMonths
      in d\<lparr>Months := i64 (Months d + monthsFromDays), Days := i64 (Days d - i64 (monthsFromDays * DaysPerMonth))\<rparr>)"

definition shiftNegNanosToDays :: "Duration \<Rightarrow> Duration" where
  "shiftNegNanosToDays d =
     (let minDays = (if Days d < 0 then i64 (MinInt64 - Days d) else MinInt64);
          daysFromNanos = int64Max (nanos d sdiv nanosInDay) minDays
      in d\<lparr>Days := i64 (Days d + daysFromNanos), nanos := i64 (nanos d - i64 (daysFromNanos * nanosInDay))\<rparr>)"

definition normalize :: "Duration \<Rightarrow> Duration" where
  "normalize d =
     (let d1 = (if Days d > 0 then shiftPosDaysToMonths d
                else if Days d < 0 then shiftNegDaysToMonths d else d)
      in if nanos d1 > 0 then shiftPosDaysToMonths (shiftPosNanosToDays d1)
         else if nanos d1 < 0 then shiftNegDaysToMonths (shiftNegNanosToDays d1)
         else d1)"

definition MakeNormalizedDuration :: "int \<Rightarrow> int \<Rightarrow> int \<Rightarrow> Duration" where
  "MakeNormalizedDuration n days months = normalize \<lparr>Months = months, Days = days, nanos = rounded n\<rparr>"

definition Duration_Compare :: "Duration \<Rightarrow> Duration \<Rightarrow> int" where
  "Duration_Compare d x =
     (let normD = normalize d; normX = normalize x in
      if Months normD < Months normX then - 1
      else if Months normD > Months normX then 1
      else if Days normD < Days normX then - 1
      else if Days normD > Days normX then 1
      else if nanos normD < nanos normX then - 1
      else if nanos normD > nanos normX then 1
      else 0)"

subsection \<open>Conversions and arithmetic\<close>

definition FromInt64 :: "int \<Rightarrow> Duration" where
  "FromInt64 x =
     (let days = x sdiv (nanosInDay sdiv nanosInSecond);
          seconds = x smod (nanosInDay sdiv nanosInSecond)
      in normalize \<lparr>Months = 0, Days = days, nanos = i64 (seconds * nanosInSecond)\<rparr>)"

definition FromBigInt :: "int \<Rightarrow> Duration option" where
  "FromBigInt src =
     (let monthsDec = src sdiv nanosInMonth; rem = src smod nanosInMonth in
      if \<not> int64 monthsDec then None
      else
        (let daysDec = rem sdiv nanosInDay; nanosRem = rem smod nanosInDay
         in Some (round_nanos (normalize \<lparr>Months = monthsDec, Days = i64 daysDec, nanos = i64 nanosRem\<rparr>))))"

definition AsBigInt :: "Duration \<Rightarrow> int" where
  "AsBigInt d = (Months d * DaysPerMonth + Days d) * nanosInDay + rounded (nanos d)"

definition Duration_Add :: "Duration \<Rightarrow> Duration \<Rightarrow> Duration" where
  "Duration_Add d x = MakeDuration (i64 (nanos d + nanos x)) (i64 (Days d + Days x)) (i64 (Months d + Months x))"

definition Duration_Sub :: "Duration \<Rightarrow> Duration \<Rightarrow> Duration" where
  "Duration_Sub d x = MakeDuration (i64 (nanos d - nanos x)) (i64 (Days d - Days x)) (i64 (Months d - Months x))"

definition Duration_Mul :: "Duration \<Rightarrow> int \<Rightarrow> Duration" where
  "Duration_Mul d x = MakeDuration (i64 (nanos d * x)) (i64 (Days d * x)) (i64 (Months d * x))"

definition Truncate :: "int \<Rightarrow> int \<Rightarrow> int option" where
  "Truncate d r = (if r = 0 then None else Some (i64 (d - d smod r)))"

subsection \<open>Stored integers\<close>

datatype encode_error = EncodeOverflow

definition Duration_Encode :: "Duration \<Rightarrow> encode_error + int \<times> int \<times> int" where
  "Duration_Encode d =
     (let years = i64 (i64 (Months d sdiv 12 + Days d sdiv DaysPerMonth sdiv 12) + nanos d sdiv nanosInMonth sdiv 12) in
      if years > maxYearsInDuration \<or> years < minYearsInDuration then Inl EncodeOverflow
      else Inr (i64 (i64 (i64 (Months d * nanosInMonth) + i64 (Days d * nanosInDay)) + nanos d), Months d, Days d))"

definition EncodeBigInt :: "Duration \<Rightarrow> int \<times> int \<times> int" where
  "EncodeBigInt d = (nanos d + Months d * nanosInMonth + Days d * nanosInDay, Months d, Days d)"

definition Duration_Decode :: "int \<Rightarrow> int \<Rightarrow> int \<Rightarrow> Duration" where
  "Duration_Decode sortNanos months days =
     \<lparr>Months = months, Days = days,
      nanos = i64 (i64 (sortNanos - i64 (months * nanosInMonth)) - i64 (days * nanosInDay))\<rparr>"


subsection \<open>Normal form\<close>

definition wf_duration :: "Duration \<Rightarrow> bool" where
  "wf_duration d \<longleftrightarrow> int64 (Months d) \<and> int64 (Days d) \<and> int64 (nanos d)"

text \<open>The length in nanoseconds, with days of 24 hours and months of 30 days.\<close>

definition total_nanos :: "Duration \<Rightarrow> int" where
  "total_nanos d = Months d * nanosInMonth + Days d * nanosInDay + nanos d"

lemma EncodeBigInt_total: "fst (EncodeBigInt d) = total_nanos d"
  by (simp add: EncodeBigInt_def total_nanos_def)

lemma sdiv_smod: "(a :: int) = b * (a sdiv b) + a smod b"
  by (simp add: mult_sdiv_smod_eq)

lemma sdiv_small [simp]: "\<bar>a\<bar> < b \<Longrightarrow> a sdiv b = (0 :: int)" "\<bar>a\<bar> < b \<Longrightarrow> a smod b = (a :: int)"
  by (cases "0 \<le> a"; simp add: sdiv_pos sdiv_neg smod_int_alt_def sgn_if)+

lemmas month_days = sdiv_smod [of _ 30] smod_bounds(3,4) [of 30, simplified]
lemmas day_nanos = sdiv_smod [of _ nanosInDay] smod_bounds(3,4) [of nanosInDay, simplified]

lemma int64_sdiv_mult:
  assumes "int64 a" "0 < b"
  shows "int64 (a sdiv b * b)" "int64 (a smod b)"
proof -
  have e: "a sdiv b * b + a smod b = a" by (rule sdiv_mult_smod_eq)
  have "0 \<le> a sdiv b * b \<and> 0 \<le> a smod b \<or> a sdiv b * b \<le> 0 \<and> a smod b \<le> 0"
    using assms(2) sdiv_bounds [OF assms(2), of a] smod_bounds(1,2) [OF assms(2), of a]
    by (cases "0 \<le> a") (simp_all add: mult_nonpos_nonneg)
  with e assms(1) show "int64 (a sdiv b * b)" "int64 (a smod b)" unfolding int64_def by linarith+
qed

lemma int64_headroom: "int64 a \<Longrightarrow> 0 < a \<Longrightarrow> int64 (MaxInt64 - a)" "int64 a \<Longrightarrow> a < 0 \<Longrightarrow> int64 (MinInt64 - a)"
  by (simp_all add: int64_def)

lemma shiftDaysToMonths:
  assumes "int64 (Days d)" "\<bar>Months d\<bar> \<le> 6000000000000000000"
  shows "shiftPosDaysToMonths d = d\<lparr>Months := Months d + Days d sdiv 30, Days := Days d smod 30\<rparr>"
    and "shiftNegDaysToMonths d = d\<lparr>Months := Months d + Days d sdiv 30, Days := Days d smod 30\<rparr>"
proof -
  let ?q = "Days d sdiv 30"
  have q: "\<bar>?q\<bar> \<le> 400000000000000000" "Days d - ?q * 30 = Days d smod 30"
    using month_days [of "Days d"] assms(1) unfolding int64_def by linarith+
  have r: "int64 (Months d)" "int64 (Months d + ?q)" using q assms(2) unfolding int64_def by linarith+
  note r = r int64_sdiv_mult [OF assms(1), of 30, simplified]
  show "shiftPosDaysToMonths d = d\<lparr>Months := Months d + ?q, Days := Days d smod 30\<rparr>"
    using q r assms(2) by (auto simp: int64_headroom shiftPosDaysToMonths_def int64Min_def Let_def)
  show "shiftNegDaysToMonths d = d\<lparr>Months := Months d + ?q, Days := Days d smod 30\<rparr>"
    using q r assms(2) by (auto simp: int64_headroom shiftNegDaysToMonths_def int64Max_def Let_def)
qed

lemma shiftNanosToDays:
  assumes "int64 (nanos d)" "\<bar>Days d\<bar> < 30"
  shows "shiftPosNanosToDays d = d\<lparr>Days := Days d + nanos d sdiv nanosInDay, nanos := nanos d smod nanosInDay\<rparr>"
    and "shiftNegNanosToDays d = d\<lparr>Days := Days d + nanos d sdiv nanosInDay, nanos := nanos d smod nanosInDay\<rparr>"
proof -
  let ?q = "nanos d sdiv nanosInDay"
  have q: "\<bar>?q\<bar> \<le> 200000" "nanos d - ?q * nanosInDay = nanos d smod nanosInDay"
    using day_nanos [of "nanos d"] assms(1) unfolding int64_def by linarith+
  have r: "int64 (Days d)" "int64 (Days d + ?q)" using q assms(2) unfolding int64_def by linarith+
  note r = r int64_sdiv_mult [OF assms(1), of nanosInDay, simplified]
  show "shiftPosNanosToDays d = d\<lparr>Days := Days d + ?q, nanos := nanos d smod nanosInDay\<rparr>"
    using q r assms(2) by (auto simp: int64_headroom shiftPosNanosToDays_def int64Min_def Let_def)
  show "shiftNegNanosToDays d = d\<lparr>Days := Days d + ?q, nanos := nanos d smod nanosInDay\<rparr>"
    using q r assms(2) by (auto simp: int64_headroom shiftNegNanosToDays_def int64Max_def Let_def)
qed

lemma normalize_eq:
  assumes "wf_duration d" "\<bar>Months d\<bar> \<le> 5000000000000000000"
  shows "normalize d =
    (let days = Days d smod 30 + nanos d sdiv nanosInDay in
     d\<lparr>Months := Months d + Days d sdiv 30 + days sdiv 30, Days := days smod 30, nanos := nanos d smod nanosInDay\<rparr>)"
proof -
  define d1 where "d1 = d\<lparr>Months := Months d + Days d sdiv 30, Days := Days d smod 30\<rparr>"
  have d1: "(if Days d > 0 then shiftPosDaysToMonths d else if Days d < 0 then shiftNegDaysToMonths d else d) = d1"
    using assms shiftDaysToMonths [of d] by (simp add: wf_duration_def d1_def)
  have i: "int64 (Days d)" "int64 (nanos d)" using assms(1) by (simp_all add: wf_duration_def)
  then have "\<bar>Days d smod 30\<bar> < 30" "\<bar>Months d + Days d sdiv 30\<bar> \<le> 6000000000000000000"
    using assms(2) month_days [of "Days d"] unfolding int64_def by linarith+
  with i have b: "int64 (nanos d1)" "\<bar>Days d1\<bar> < 30" "\<bar>Months d1\<bar> \<le> 6000000000000000000"
    by (simp_all add: d1_def)
  let ?d2 = "d1\<lparr>Days := Days d1 + nanos d1 sdiv nanosInDay, nanos := nanos d1 smod nanosInDay\<rparr>"
  have "int64 (Days d1 + nanos d1 sdiv nanosInDay)"
    using b(1,2) day_nanos [of "nanos d1"] unfolding int64_def by linarith
  with b(3) have c: "int64 (Days ?d2)" "\<bar>Months ?d2\<bar> \<le> 6000000000000000000" by simp_all
  note n = shiftNanosToDays [OF b(1,2)] shiftDaysToMonths [OF c]
  have z: "?d2 = d1" "Days d1 sdiv 30 = 0" "Days d1 smod 30 = Days d1" if "nanos d1 = 0"
    using that b(2) by simp_all
  show ?thesis
    unfolding normalize_def Let_def d1
    using n z by (auto simp: d1_def)
qed


lemma carry_total:
  fixes m :: int
  assumes "days = 30 * q1 + r1" "n = nanosInDay * q2 + r2" "r1 + q2 = 30 * q + r"
  shows "(m + q1 + q) * nanosInMonth + r * nanosInDay + r2 = m * nanosInMonth + days * nanosInDay + n"
proof -
  have "q2 = 30 * q + r - r1" using assms(3) by linarith
  then show ?thesis unfolding assms(1,2) by (simp add: algebra_simps)
qed

lemma normalize_normal:
  assumes "wf_duration d" "\<bar>Months d\<bar> \<le> 5000000000000000000"
  shows "\<bar>Days (normalize d)\<bar> < 30" "\<bar>nanos (normalize d)\<bar> < nanosInDay" "total_nanos (normalize d) = total_nanos d"
proof -
  let ?e = "Days d smod 30 + nanos d sdiv nanosInDay"
  have n: "Months (normalize d) = Months d + Days d sdiv 30 + ?e sdiv 30" "Days (normalize d) = ?e smod 30"
    "nanos (normalize d) = nanos d smod nanosInDay"
    by (simp_all add: normalize_eq [OF assms] Let_def)
  show "\<bar>Days (normalize d)\<bar> < 30" "\<bar>nanos (normalize d)\<bar> < nanosInDay"
    using month_days [of ?e] day_nanos [of "nanos d"] unfolding n by linarith+
  show "total_nanos (normalize d) = total_nanos d"
    unfolding total_nanos_def n
    by (rule carry_total [OF month_days(1) [of "Days d"] day_nanos(1) [of "nanos d"] month_days(1) [of ?e]])
qed

text \<open>All fields of one sign.\<close>

definition uniform :: "Duration \<Rightarrow> bool" where
  "uniform d \<longleftrightarrow> 0 \<le> Months d \<and> 0 \<le> Days d \<and> 0 \<le> nanos d \<or> Months d \<le> 0 \<and> Days d \<le> 0 \<and> nanos d \<le> 0"

lemma uniform_normalize:
  assumes "wf_duration d" "\<bar>Months d\<bar> \<le> 5000000000000000000" "uniform d"
  shows "uniform (normalize d)"
proof -
  let ?e = "Days d smod 30 + nanos d sdiv nanosInDay"
  have "0 \<le> Days d \<Longrightarrow> 0 \<le> nanos d \<Longrightarrow> 0 \<le> ?e" "Days d \<le> 0 \<Longrightarrow> nanos d \<le> 0 \<Longrightarrow> ?e \<le> 0"
    using smod_bounds(1,2) [of 30 "Days d"] sdiv_bounds [of nanosInDay "nanos d"] by simp_all
  then show ?thesis
    using assms(3) smod_bounds(1,2) [of 30 ?e] smod_bounds(1,2) [of nanosInDay "nanos d"] sdiv_bounds [of 30 "Days d"]
      sdiv_bounds [of 30 ?e]
    by (auto simp: uniform_def normalize_eq [OF assms(1,2)] Let_def)
qed

lemma lex_total:
  assumes "uniform d" "uniform x" "\<bar>Days d\<bar> < 30" "\<bar>nanos d\<bar> < nanosInDay" "\<bar>Days x\<bar> < 30" "\<bar>nanos x\<bar> < nanosInDay"
    and "Months d < Months x \<or> Months d = Months x \<and> (Days d < Days x \<or> Days d = Days x \<and> nanos d < nanos x)"
  shows "total_nanos d < total_nanos x"
  using assms unfolding uniform_def total_nanos_def by linarith

lemma Duration_Compare_total_aux:
  assumes "wf_duration d" "\<bar>Months d\<bar> \<le> 5000000000000000000" "uniform d"
    and "wf_duration x" "\<bar>Months x\<bar> \<le> 5000000000000000000" "uniform x"
  shows "Duration_Compare d x = (if total_nanos d < total_nanos x then - 1 else if total_nanos d > total_nanos x then 1 else 0)"
proof -
  note t = normalize_normal [OF assms(1,2)] normalize_normal [OF assms(4,5)]
  note u = uniform_normalize [OF assms(1-3)] uniform_normalize [OF assms(4-6)]
  note l = lex_total [OF u t(1,2,4,5)] lex_total [OF u(2,1) t(4,5,1,2)]
  let ?lt = "\<lambda>d x. Months d < Months x \<or> Months d = Months x \<and> (Days d < Days x \<or> Days d = Days x \<and> nanos d < nanos x)"
  consider (lt) "?lt (normalize d) (normalize x)" | (gt) "?lt (normalize x) (normalize d)"
    | (eq) "Months (normalize d) = Months (normalize x)" "Days (normalize d) = Days (normalize x)"
        "nanos (normalize d) = nanos (normalize x)"
    by linarith
  then show ?thesis
  proof cases
    case lt
    then have "total_nanos d < total_nanos x" using l(1) t(3,6) by simp
    then show ?thesis using lt by (simp add: Duration_Compare_def Let_def) linarith
  next
    case gt
    then have "total_nanos x < total_nanos d" using l(2) t(3,6) by simp
    then show ?thesis using gt by (simp add: Duration_Compare_def Let_def) linarith
  next
    case eq
    then have "total_nanos d = total_nanos x" using t(3,6) by (simp add: total_nanos_def)
    then show ?thesis using eq by (simp add: Duration_Compare_def)
  qed
qed

subsection \<open>Stored integers\<close>

lemma Duration_Encode_total:
  assumes "wf_duration d" "int64 (total_nanos d)"
  shows "Duration_Encode d = Inr (total_nanos d, Months d, Days d)"
proof -
  let ?a = "Months d sdiv 12" and ?b = "Days d sdiv 30 sdiv 12" and ?c = "nanos d sdiv nanosInMonth sdiv 12"
  note f = sdiv_smod [of _ 12] smod_bounds(3,4) [of 12, simplified]
    sdiv_smod [of _ nanosInMonth] smod_bounds(3,4) [of nanosInMonth, simplified]
  have w: "int64 (Months d)" "int64 (Days d)" "int64 (nanos d)" using assms(1) by (simp_all add: wf_duration_def)
  have m: "12 * ?a - 12 < Months d" "Months d < 12 * ?a + 12" using f(1-3) [of "Months d"] by linarith+
  have dd: "360 * ?b - 360 < Days d" "Days d < 360 * ?b + 360"
    using month_days [of "Days d"] f(1-3) [of "Days d sdiv 30"] by linarith+
  have n: "12 * nanosInMonth * ?c - 12 * nanosInMonth < nanos d" "nanos d < 12 * nanosInMonth * ?c + 12 * nanosInMonth"
    using f(4-6) [of "nanos d"] f(1-3) [of "nanos d sdiv nanosInMonth"] by linarith+
  have y: "\<bar>?a + ?b + ?c\<bar> \<le> 300" and i: "int64 (?a + ?b)" "int64 (?a + ?b + ?c)"
    using m dd n w assms(2) unfolding int64_def total_nanos_def by linarith+
  then show ?thesis
    using assms(2) unfolding total_nanos_def
    by (simp add: Duration_Encode_def Let_def maxYearsInDuration_def minYearsInDuration_def) linarith
qed

lemma Duration_Decode_Encode:
  assumes "wf_duration d" "Duration_Encode d = Inr (s, m, k)"
  shows "Duration_Decode s m k = d"
  using assms by (cases d) (auto simp: Duration_Encode_def Duration_Decode_def Let_def wf_duration_def diff_diff_eq split: if_splits)


subsection \<open>Rounding\<close>

lemma i64_over: "MaxInt64 < x \<Longrightarrow> x \<le> MaxInt64 + 1000 \<Longrightarrow> i64 x = x - 18446744073709551616"
  using mod_pos_geq [of 18446744073709551616 "x + 9223372036854775808"] by (simp add: i64_def)

lemma i64_under: "x < MinInt64 \<Longrightarrow> MinInt64 - 1000 \<le> x \<Longrightarrow> i64 x = x + 18446744073709551616"
proof -
  assume "x < MinInt64" "MinInt64 - 1000 \<le> x"
  then have "(x + 9223372036854775808 + 18446744073709551616) mod 18446744073709551616 = x + 9223372036854775808 + 18446744073709551616"
    by (intro mod_pos_pos_trivial) simp_all
  then show ?thesis by (simp only: mod_add_self2 i64_def)
qed

lemma duration_Round_micro:
  assumes "int64 n"
  defines "v \<equiv> duration_Round n nanosInMicro"
  shows "int64 v" "v smod 1000 = 0 \<and> \<bar>v - n\<bar> \<le> 500 \<or> v = MaxInt64 \<and> MaxInt64 - 500 < n \<or> v = MinInt64 \<and> n < MinInt64 + 500"
proof -
  have m: "(k * 1000) smod 1000 = 0" for k :: int by (simp add: smod_int_alt_def abs_mult)
  define q r where "q = n sdiv 1000" and "r = n smod 1000"
  have n: "n = q * 1000 + r" "- 1000 < r" "r < 1000" "0 \<le> n \<Longrightarrow> 0 \<le> r" "n < 0 \<Longrightarrow> r \<le> 0"
    using sdiv_smod [of n 1000] smod_bounds [of 1000 n] by (simp_all add: q_def r_def)
  have i: "MinInt64 \<le> n" "n \<le> MaxInt64" using assms(1) by (simp_all add: int64_def)
  have z: "(n - r) smod 1000 = 0" "(n + 1000 - r) smod 1000 = 0" "(n - 1000 - r) smod 1000 = 0"
    using m [of q] m [of "q + 1"] m [of "q - 1"] n(1) by (simp_all add: algebra_simps)
  have "int64 v \<and> (v smod 1000 = 0 \<and> \<bar>v - n\<bar> \<le> 500 \<or> v = MaxInt64 \<and> MaxInt64 - 500 < n \<or> v = MinInt64 \<and> n < MinInt64 + 500)"
  proof (cases "n < 0")
    case True
    have e: "v = (if - r - r < 1000 then i64 (n - r) else if i64 (n - 1000 - r) < n then i64 (n - 1000 - r) else MinInt64)"
      using True unfolding v_def duration_Round_def r_def [symmetric] by (simp add: Let_def)
    consider "- r - r < 1000" | "1000 \<le> - r - r" "MinInt64 \<le> n - 1000 - r" | "1000 \<le> - r - r" "n - 1000 - r < MinInt64" by linarith
    then show ?thesis
    proof cases
      case 1
      then have "int64 (n - r)" using True n i by (simp add: int64_def)
      then show ?thesis using 1 e z n True by simp
    next
      case 2
      then have "int64 (n - 1000 - r)" using True n i by (simp add: int64_def)
      then show ?thesis using 2 e z n by simp
    next
      case 3
      then show ?thesis using e i64_under [of "n - 1000 - r"] n i True by (simp add: int64_def)
    qed
  next
    case False
    have e: "v = (if r + r < 1000 then i64 (n - r) else if i64 (n + 1000 - r) > n then i64 (n + 1000 - r) else MaxInt64)"
      using False unfolding v_def duration_Round_def r_def [symmetric] by (simp add: Let_def)
    consider "r + r < 1000" | "1000 \<le> r + r" "n + 1000 - r \<le> MaxInt64" | "1000 \<le> r + r" "MaxInt64 < n + 1000 - r" by linarith
    then show ?thesis
    proof cases
      case 1
      then have "int64 (n - r)" using False n i by (simp add: int64_def)
      then show ?thesis using 1 e z n False by simp
    next
      case 2
      then have "int64 (n + 1000 - r)" using False n i by (simp add: int64_def)
      then show ?thesis using 2 e z n by simp
    next
      case 3
      then show ?thesis using e i64_over [of "n + 1000 - r"] n i False by (simp add: int64_def)
    qed
  qed
  then show "int64 v" "v smod 1000 = 0 \<and> \<bar>v - n\<bar> \<le> 500 \<or> v = MaxInt64 \<and> MaxInt64 - 500 < n \<or> v = MinInt64 \<and> n < MinInt64 + 500"
    by blast+
qed

lemma rounded_micro:
  assumes "int64 n"
  shows "rounded n smod nanosInMicro = 0" "\<bar>rounded n - n\<bar> < nanosInMicro" "int64 (rounded n)"
proof -
  let ?v = "duration_Round n nanosInMicro"
  note v = duration_Round_micro [OF assms]
  have r: "rounded n = (?v sdiv 1000) * 1000"
    using int64_sdiv_mult [OF v(1), of 1000] minus_smod_eq_sdiv_mult [of ?v 1000] by (simp add: rounded_def Let_def)
  show "rounded n smod nanosInMicro = 0" by (simp add: r smod_int_alt_def abs_mult)
  show "int64 (rounded n)" unfolding r using v(1) by (simp add: int64_sdiv_mult)
  have "?v = MaxInt64 \<Longrightarrow> (?v sdiv 1000) * 1000 = MaxInt64 - 807" "?v = MinInt64 \<Longrightarrow> (?v sdiv 1000) * 1000 = MinInt64 + 808"
    "?v smod 1000 = 0 \<Longrightarrow> (?v sdiv 1000) * 1000 = ?v"
    using sdiv_smod [of ?v 1000] by simp_all
  then show "\<bar>rounded n - n\<bar> < nanosInMicro" unfolding r using v(2) assms unfolding int64_def by auto
qed

lemma rounded_id: "int64 n \<Longrightarrow> n smod nanosInMicro = 0 \<Longrightarrow> rounded n = n"
  by (simp add: rounded_def duration_Round_def Let_def)

lemma normalize_id:
  assumes "wf_duration d" "\<bar>Days d\<bar> < 30" "\<bar>nanos d\<bar> < nanosInDay"
  shows "normalize d = d"
proof -
  have w: "int64 (Months d)" "int64 (Days d)" "int64 (nanos d)" using assms(1) by (simp_all add: wf_duration_def)
  have "int64Min 0 (if 0 < x then i64 (MaxInt64 - x) else MaxInt64) = 0"
      "int64Max 0 (if x < 0 then i64 (MinInt64 - x) else MinInt64) = 0" if "int64 x" for x
    using int64_headroom [OF that] that by (auto simp: int64_def int64Min_def int64Max_def)
  then have "shiftPosDaysToMonths d = d" "shiftNegDaysToMonths d = d" "shiftPosNanosToDays d = d" "shiftNegNanosToDays d = d"
    using w assms(2,3) by (simp_all add: shiftPosDaysToMonths_def shiftNegDaysToMonths_def shiftPosNanosToDays_def
      shiftNegNanosToDays_def Let_def)
  then show ?thesis by (simp add: normalize_def)
qed

lemma smod_0_iff: "a smod b = 0 \<longleftrightarrow> b dvd (a :: int)"
  by (auto simp: smod_int_alt_def sgn_0_0 dvd_eq_mod_eq_0 [symmetric])

lemma FromBigInt_AsBigInt:
  assumes "src smod nanosInMicro = 0" "FromBigInt src = Some d"
  shows "AsBigInt d = src"
proof -
  define m b where "m = src sdiv nanosInMonth" and "b = src smod nanosInMonth"
  define k n where "k = b sdiv nanosInDay" and "n = b smod nanosInDay"
  have s: "src = nanosInMonth * m + b" "- nanosInMonth < b" "b < nanosInMonth"
    using sdiv_smod [of src nanosInMonth] smod_bounds(3,4) [of nanosInMonth src] by (simp_all add: m_def b_def)
  have b: "b = nanosInDay * k + n" "- nanosInDay < n" "n < nanosInDay"
    using sdiv_smod [of b nanosInDay] smod_bounds(3,4) [of nanosInDay b] by (simp_all add: k_def n_def)
  moreover have "0 \<le> b \<Longrightarrow> 0 \<le> n" "b \<le> 0 \<Longrightarrow> n \<le> 0" using smod_bounds(1,2) [of nanosInDay b] by (simp_all add: n_def)
  ultimately have k: "\<bar>k\<bar> < 30" "int64 k" "int64 n" using s(2,3) unfolding int64_def by linarith+
  have i: "int64 m" and d: "d = round_nanos (normalize \<lparr>Months = m, Days = k, nanos = n\<rparr>)"
    using assms(2) k(2,3) by (auto simp: FromBigInt_def Let_def m_def b_def k_def n_def split: if_splits)
  have "normalize \<lparr>Months = m, Days = k, nanos = n\<rparr> = \<lparr>Months = m, Days = k, nanos = n\<rparr>"
    using i k b by (intro normalize_id) (auto simp: wf_duration_def)
  moreover have "rounded n = n" 
  proof (rule rounded_id [OF k(3)])
    have "n = src - 1000 * (2592000000000 * m + 86400000000 * k)" using s(1) b(1) by simp
    then show "n smod 1000 = 0" using assms(1) unfolding smod_0_iff by simp
  qed
  ultimately show ?thesis using s(1) b(1) by (simp add: d round_nanos_def AsBigInt_def)
qed


subsection \<open>Properties\<close>

text \<open>
  C14: for durations whose fields do not differ in sign (months up to five quintillion) \<open>Compare\<close> is
  the order of the lengths in nanoseconds; \<open>normalize\<close> keeps the length and leaves less than a
  month of days and less than a day of nanoseconds. When the length fits an \<open>int64\<close>, \<open>Encode\<close>
  returns it as the sort key, so encoded durations sort as \<open>Compare\<close> says.
\<close>

theorem Duration_Compare_total:
  assumes "wf_duration d" "\<bar>Months d\<bar> \<le> 5000000000000000000" "wf_duration x" "\<bar>Months x\<bar> \<le> 5000000000000000000"
  shows "total_nanos (normalize d) = total_nanos d \<and> \<bar>Days (normalize d)\<bar> < DaysPerMonth \<and> \<bar>nanos (normalize d)\<bar> < nanosInDay \<and>
    (uniform d \<longrightarrow> uniform x \<longrightarrow>
      Duration_Compare d x = (if total_nanos d < total_nanos x then - 1 else if total_nanos d > total_nanos x then 1 else 0)) \<and>
    (int64 (total_nanos d) \<longrightarrow> Duration_Encode d = Inr (total_nanos d, Months d, Days d)) \<and>
    (case Duration_Encode d of Inr (s, m, k) \<Rightarrow> Duration_Decode s m k = d | Inl _ \<Rightarrow> True)"
  using normalize_normal [OF assms(1,2)] Duration_Compare_total_aux [OF assms(1,2) _ assms(3,4)]
    Duration_Encode_total [OF assms(1)] Duration_Decode_Encode [OF assms(1)]
  by (auto split: sum.split)

theorem Duration_Compare_total_witness:
  "Duration_Compare \<lparr>Months = 0, Days = 31, nanos = 0\<rparr> \<lparr>Months = 1, Days = 0, nanos = nanosInDay\<rparr> = 0 \<and>
   Duration_Encode \<lparr>Months = 0, Days = 31, nanos = 0\<rparr> = Inr (31 * nanosInDay, 0, 31)"
  using Duration_Compare_total [of "\<lparr>Months = 0, Days = 31, nanos = 0\<rparr>" "\<lparr>Months = 1, Days = 0, nanos = nanosInDay\<rparr>"]
  by (simp add: wf_duration_def int64_def uniform_def total_nanos_def)


end
