(* ===== verification/Go_Time.thy ===== *)
theory Go_Time
  imports Durations
begin

text \<open>
  Instants and times of day: the parts of \<open>utils/timeutil\<close>, \<open>utils/timeofday\<close>, \<open>utils/timetz\<close> and
  \<open>utils/duration\<close> that compute with them. An instant (\<open>time.Time\<close>) is its number of
  nanoseconds since the Unix epoch; a zone is its offset in seconds.
\<close>

subsection \<open>Instants\<close>

type_synonym gotime = int

text \<open>\<open>t.Unix()\<close>, \<open>t.Nanosecond()\<close>, \<open>time.Unix(sec, nsec)\<close>, \<open>t.Add(d)\<close> and \<open>t.Sub(u)\<close> of the standard library.\<close>

definition Unix :: "gotime \<Rightarrow> int" where "Unix t = t div 1000000000"
definition Nanosecond :: "gotime \<Rightarrow> int" where "Nanosecond t = t mod 1000000000"
definition time_Unix :: "int \<Rightarrow> int \<Rightarrow> gotime" where "time_Unix sec nsec = sec * 1000000000 + nsec"
definition time_Add :: "gotime \<Rightarrow> int \<Rightarrow> gotime" where "time_Add t d = t + d"

definition time_Sub :: "gotime \<Rightarrow> gotime \<Rightarrow> int" where
  "time_Sub t u = (if int64 (t - u) then t - u else if t < u then MinInt64 else MaxInt64)"

text \<open>\<open>t.Round(d)\<close>: to the nearest multiple of \<open>d\<close> since year 1, halves up.\<close>

definition time_Round :: "gotime \<Rightarrow> int \<Rightarrow> gotime" where
  "time_Round t d =
     (if d \<le> 0 then t
      else
        (let r = (t + 62135596800000000000) mod d
         in if r + r < d then time_Add t (- r) else time_Add t (d - r)))"

text \<open>\<open>t.Day()\<close> in UTC: the day of the month in the Gregorian calendar, counted in eras of 400 years from 1 March of year 0.\<close>

definition Day :: "gotime \<Rightarrow> int" where
  "Day t =
     (let z = t div 86400000000000 + 719468; doe = z mod 146097;
          yoe = (doe - doe div 1460 + doe div 36524 - doe div 146096) div 365;
          doy = doe - (365 * yoe + yoe div 4 - yoe div 100);
          mp = (5 * doy + 2) div 153
      in doy - (153 * mp + 2) div 5 + 1)"

subsection \<open>Microseconds\<close>

definition FromUnixMicros :: "int \<Rightarrow> gotime" where
  "FromUnixMicros us = time_Unix (us sdiv 1000000) (i64 ((us smod 1000000) * 1000))"

definition ToUnixMicros :: "gotime \<Rightarrow> int" where
  "ToUnixMicros t = i64 (i64 (Unix t * 1000000) + Nanosecond (time_Round t 1000) sdiv 1000)"

abbreviation minTimeDuration :: int where "minTimeDuration \<equiv> MinInt64"
abbreviation maxTimeDuration :: int where "maxTimeDuration \<equiv> MaxInt64"

lemma time_Sub_limit:
  "time_Sub t u = MinInt64 \<Longrightarrow> t - u \<le> MinInt64" "time_Sub t u = MaxInt64 \<Longrightarrow> MaxInt64 \<le> t - u"
  unfolding time_Sub_def int64_def by (simp_all split: if_splits)

lemma time_Sub_exact: "time_Sub t u \<noteq> MinInt64 \<Longrightarrow> time_Sub t u \<noteq> MaxInt64 \<Longrightarrow> time_Sub t u = t - u"
  unfolding time_Sub_def by (simp split: if_splits)

text \<open>The loop of \<open>DiffMicros\<close>: each turn moves \<open>t1\<close> towards \<open>t2\<close> by the largest duration.\<close>

function DiffMicros_loop :: "gotime \<Rightarrow> gotime \<Rightarrow> int \<Rightarrow> int \<Rightarrow> int \<times> int" where
  "DiffMicros_loop t1 t2 micros ns =
     (let d0 = time_Sub t1 t2;
          overflow = (d0 = minTimeDuration \<or> d0 = maxTimeDuration);
          d = (if d0 = minTimeDuration then - maxTimeDuration else d0);
          micros' = i64 (micros + d sdiv 1000);
          ns' = i64 (ns + d smod 1000)
      in if \<not> overflow then (micros', ns') else DiffMicros_loop (time_Add t1 (- d)) t2 micros' ns')"
  by pat_completeness auto
termination
proof (relation "measure (\<lambda>(t1, t2, _, _). nat \<bar>t1 - t2\<bar>)")
  fix t1 t2 micros ns d0 overflow d micros' ns'
  assume a: "d0 = time_Sub t1 t2" "overflow = (d0 = minTimeDuration \<or> d0 = maxTimeDuration)"
    "d = (if d0 = minTimeDuration then - maxTimeDuration else d0)" "\<not> \<not> overflow"
  then have "d0 = minTimeDuration \<or> d0 = maxTimeDuration" by simp
  then have "d = - maxTimeDuration \<and> t1 - t2 \<le> minTimeDuration \<or> d = maxTimeDuration \<and> maxTimeDuration \<le> t1 - t2"
    using time_Sub_limit [of t1 t2] a(1,3) by (elim disjE) simp_all
  then have "\<bar>time_Add t1 (- d) - t2\<bar> < \<bar>t1 - t2\<bar>" unfolding time_Add_def by (elim disjE conjE) simp_all
  then show "((time_Add t1 (- d), t2, micros', ns'), t1, t2, micros, ns) \<in> measure (\<lambda>(t1, t2, _, _). nat \<bar>t1 - t2\<bar>)"
    by simp
qed simp

declare DiffMicros_loop.simps [simp del]

definition DiffMicros :: "gotime \<Rightarrow> gotime \<Rightarrow> int" where
  "DiffMicros t1 t2 =
     (let (micros, ns) = DiffMicros_loop t1 t2 0 0;
          micros' = i64 (micros + ns sdiv 1000);
          nanoRem = ns smod 1000
      in if nanoRem \<ge> 500 then i64 (micros' + 1)
         else if nanoRem \<le> - 500 then i64 (micros' - 1)
         else micros')"

abbreviation maxMicroDur :: int where "maxMicroDur \<equiv> 9223372036854775"

lemma i64_le: "MinInt64 \<le> x \<Longrightarrow> i64 x \<le> x"
  using zmod_le_nonneg_dividend [of "x + 9223372036854775808" 18446744073709551616] by (simp add: i64_def)

function AddMicros_loop :: "gotime \<Rightarrow> int \<Rightarrow> int \<Rightarrow> gotime \<times> int" where
  "AddMicros_loop t d negMult =
     (if d > maxMicroDur
      then AddMicros_loop (time_Add t (i64 (negMult * i64 (maxMicroDur * 1000)))) (i64 (d - maxMicroDur)) negMult
      else (t, d))"
  by pat_completeness auto
termination
proof (relation "measure (\<lambda>(t, d, _). nat d)")
  fix t d negMult :: int
  assume "d > maxMicroDur"
  then have "i64 (d - maxMicroDur) \<le> d - maxMicroDur" by (intro i64_le) simp
  then show "((time_Add t (i64 (negMult * i64 (maxMicroDur * 1000))), i64 (d - maxMicroDur), negMult), t, d, negMult)
      \<in> measure (\<lambda>(t, d, _). nat d)"
    using \<open>d > maxMicroDur\<close> by simp
qed simp

declare AddMicros_loop.simps [simp del]

definition AddMicros :: "gotime \<Rightarrow> int \<Rightarrow> gotime" where
  "AddMicros t d =
     (let negMult = (if d < 0 then - 1 else 1);
          d' = (if d < 0 then i64 (- d) else d);
          (t', rest) = AddMicros_loop t d' negMult
      in time_Add t' (i64 (i64 (negMult * rest) * 1000)))"


subsection \<open>Time of day\<close>

text \<open>A \<open>TimeOfDay\<close> is its number of microseconds since midnight.\<close>

abbreviation microsecondsPerSecond :: int where "microsecondsPerSecond \<equiv> 1000000"
abbreviation microsecondsPerMinute :: int where "microsecondsPerMinute \<equiv> 60000000"
abbreviation microsecondsPerHour :: int where "microsecondsPerHour \<equiv> 3600000000"
abbreviation microsecondsPerDay :: int where "microsecondsPerDay \<equiv> 86400000000"
abbreviation nanosPerMicro :: int where "nanosPerMicro \<equiv> 1000"
abbreviation Time2400 :: int where "Time2400 \<equiv> microsecondsPerDay"

definition positiveMod :: "int \<Rightarrow> int \<Rightarrow> int" where
  "positiveMod x y = (if x < 0 then i64 (x smod y + y) else x smod y)"

definition FromInt :: "int \<Rightarrow> int" where
  "FromInt i = positiveMod i microsecondsPerDay"

definition New :: "int \<Rightarrow> int \<Rightarrow> int \<Rightarrow> int \<Rightarrow> int" where
  "New hour mins sec micro =
     (let hours = i64 (hour * 3600000000000); minutes = i64 (mins * 60000000000);
          seconds = i64 (sec * 1000000000); micros = i64 (micro * 1000)
      in FromInt (i64 (i64 (i64 (hours + minutes) + seconds) + micros) sdiv 1000))"

definition FromTime :: "gotime \<Rightarrow> int \<Rightarrow> int" where
  "FromTime t offset =
     (let unixSeconds = i64 (Unix t + offset);
          ns = i64 (i64 ((unixSeconds smod 86400) * 1000000000) + Nanosecond t)
      in FromInt (ns sdiv nanosPerMicro))"

definition ToTime :: "int \<Rightarrow> gotime" where
  "ToTime t = time_Unix 0 (i64 (t * nanosPerMicro))"

definition TimeOfDay_Round :: "int \<Rightarrow> int \<Rightarrow> int" where
  "TimeOfDay_Round t precision =
     (if t = Time2400 then t
      else (let ret = time_Round (ToTime t) precision
            in if Day ret \<noteq> Day (ToTime t) then Time2400 else FromTime ret 0))"

definition TimeOfDay_Add :: "int \<Rightarrow> Duration \<Rightarrow> int" where
  "TimeOfDay_Add t d = FromInt (i64 (t + nanos d sdiv nanosPerMicro))"

definition Difference :: "int \<Rightarrow> int \<Rightarrow> Duration" where
  "Difference t1 t2 = MakeDuration (i64 (i64 (t1 - t2) * nanosPerMicro)) 0 0"

definition Hour :: "int \<Rightarrow> int" where
  "Hour t = (if t = Time2400 then 24 else (t smod microsecondsPerDay) sdiv microsecondsPerHour)"

definition Minute :: "int \<Rightarrow> int" where
  "Minute t = (t smod microsecondsPerHour) sdiv microsecondsPerMinute"

definition Second :: "int \<Rightarrow> int" where
  "Second t = (t smod microsecondsPerMinute) sdiv microsecondsPerSecond"

definition Microsecond :: "int \<Rightarrow> int" where
  "Microsecond t = t smod microsecondsPerSecond"

subsection \<open>Time of day with a zone\<close>

record TimeTZ =
  TimeOfDay :: int
  OffsetSecs :: int

definition MakeTimeTZ :: "int \<Rightarrow> int \<Rightarrow> TimeTZ" where
  "MakeTimeTZ t offsetSecs = \<lparr>TimeOfDay = t, OffsetSecs = offsetSecs\<rparr>"

definition TimeTZ_ToTime :: "TimeTZ \<Rightarrow> gotime" where
  "TimeTZ_ToTime t = time_Add (ToTime (TimeOfDay t)) (i64 (OffsetSecs t * 1000000000))"

definition TimeTZ_Round :: "TimeTZ \<Rightarrow> int \<Rightarrow> TimeTZ" where
  "TimeTZ_Round t precision = MakeTimeTZ (TimeOfDay_Round (TimeOfDay t) precision) (OffsetSecs t)"

definition ToDuration :: "TimeTZ \<Rightarrow> int" where
  "ToDuration t = time_Sub (TimeTZ_ToTime t) (time_Unix 0 0)"

definition Before :: "TimeTZ \<Rightarrow> TimeTZ \<Rightarrow> bool" where
  "Before t other \<longleftrightarrow> TimeTZ_ToTime t < TimeTZ_ToTime other \<or>
     TimeTZ_ToTime t = TimeTZ_ToTime other \<and> OffsetSecs t < OffsetSecs other"

definition After :: "TimeTZ \<Rightarrow> TimeTZ \<Rightarrow> bool" where
  "After t other \<longleftrightarrow> TimeTZ_ToTime t > TimeTZ_ToTime other \<or>
     TimeTZ_ToTime t = TimeTZ_ToTime other \<and> OffsetSecs t > OffsetSecs other"

definition TimeTZ_Equal :: "TimeTZ \<Rightarrow> TimeTZ \<Rightarrow> bool" where
  "TimeTZ_Equal t other \<longleftrightarrow> TimeOfDay t = TimeOfDay other \<and> OffsetSecs t = OffsetSecs other"

subsection \<open>Exactness of the loops\<close>

lemma sdiv_carry:
  fixes a r :: int
  assumes "0 \<le> a \<and> 0 \<le> r \<or> a \<le> 0 \<and> r \<le> 0"
  shows "(a * 1000 + r) sdiv 1000 = a + r sdiv 1000" "(a * 1000 + r) smod 1000 = r smod 1000"
proof -
  show q: "(a * 1000 + r) sdiv 1000 = a + r sdiv 1000"
  proof (cases "0 \<le> a \<and> 0 \<le> r")
    case True
    then show ?thesis by (simp add: sdiv_pos)
  next
    case False
    then have "a \<le> 0" "r \<le> 0" using assms by auto
    moreover have "(- a * 1000 + - r) div 1000 = - a + (- r) div 1000" by simp
    ultimately show ?thesis by (simp add: sdiv_neg)
  qed
  show "(a * 1000 + r) smod 1000 = r smod 1000"
    using minus_sdiv_mult_eq_smod [of "a * 1000 + r" 1000] minus_sdiv_mult_eq_smod [of r 1000] unfolding q
    by (simp add: algebra_simps)
qed

lemma sdiv_smod_sign:
  "0 < b \<Longrightarrow> 0 \<le> a sdiv b \<and> 0 \<le> a smod b \<or> a sdiv b \<le> 0 \<and> a smod b \<le> (0 :: int)"
  using sdiv_bounds [of b a] smod_bounds(1,2) [of b a] by (cases "0 \<le> a") auto

lemma DiffMicros_loop_exact:
  "\<exists>a r. DiffMicros_loop t1 t2 m n = (i64 (m + a), i64 (n + r)) \<and> a * 1000 + r = t1 - t2 \<and>
     (0 \<le> a \<and> 0 \<le> r \<or> a \<le> 0 \<and> r \<le> 0) \<and> \<bar>r\<bar> * 1000000000000 \<le> 1000000000000000 + \<bar>t1 - t2\<bar>"
proof (induction t1 t2 m n rule: DiffMicros_loop.induct)
  case (1 t1 t2 m n)
  define d0 where "d0 = time_Sub t1 t2"
  define d where "d = (if d0 = MinInt64 then - MaxInt64 else d0)"
  define q r where "q = d sdiv 1000" and "r = d smod 1000"
  have qr: "d = q * 1000 + r" "0 \<le> q \<and> 0 \<le> r \<or> q \<le> 0 \<and> r \<le> 0" "- 1000 < r" "r < 1000"
    using sdiv_smod [of d 1000] sdiv_smod_sign [of 1000 d] smod_bounds(3,4) [of 1000 d] by (simp_all add: q_def r_def)
  show ?case
  proof (cases "d0 = MinInt64 \<or> d0 = MaxInt64")
    case False
    then have d: "d = t1 - t2" using time_Sub_exact [of t1 t2] by (simp add: d_def d0_def)
    have "DiffMicros_loop t1 t2 m n = (i64 (m + q), i64 (n + r))"
      using False by (subst DiffMicros_loop.simps) (simp add: Let_def d0_def [symmetric] d_def q_def r_def)
    moreover have "\<bar>r\<bar> * 1000000000000 \<le> 1000000000000000 + \<bar>t1 - t2\<bar>" using qr(3,4) by linarith
    ultimately show ?thesis using qr(1,2) d by metis
  next
    case True
    have "\<not> \<not> (d0 = minTimeDuration \<or> d0 = maxTimeDuration)" using True by simp
    from "1.IH" [OF d0_def refl d_def refl refl this]
    obtain a r' where ih: "DiffMicros_loop (time_Add t1 (- d)) t2 (i64 (m + q)) (i64 (n + r)) = (i64 (i64 (m + q) + a), i64 (i64 (n + r) + r'))"
      "a * 1000 + r' = time_Add t1 (- d) - t2" "0 \<le> a \<and> 0 \<le> r' \<or> a \<le> 0 \<and> r' \<le> 0"
      "\<bar>r'\<bar> * 1000000000000 \<le> 1000000000000000 + \<bar>time_Add t1 (- d) - t2\<bar>"
      unfolding q_def r_def by blast
    have "DiffMicros_loop t1 t2 m n = DiffMicros_loop (time_Add t1 (- d)) t2 (i64 (m + q)) (i64 (n + r))"
      using True by (subst DiffMicros_loop.simps) (auto simp: Let_def d0_def [symmetric] d_def q_def r_def)
    then have e: "DiffMicros_loop t1 t2 m n = (i64 (m + (q + a)), i64 (n + (r + r')))" using ih(1) by (simp add: add.assoc)
    have l: "d = - MaxInt64 \<and> t1 - t2 \<le> MinInt64 \<or> d = MaxInt64 \<and> MaxInt64 \<le> t1 - t2"
      using True time_Sub_limit [of t1 t2] unfolding d_def d0_def by (elim disjE) simp_all
    have s: "(q + a) * 1000 + (r + r') = t1 - t2" using ih(2) qr(1) by (simp add: time_Add_def)
    have "0 \<le> q + a \<and> 0 \<le> r + r' \<or> q + a \<le> 0 \<and> r + r' \<le> 0" "\<bar>r + r'\<bar> * 1000000000000 \<le> 1000000000000000 + \<bar>t1 - t2\<bar>"
      using l
    proof -
      have "0 \<le> q \<and> 0 \<le> r \<and> 0 \<le> a \<and> 0 \<le> r' \<and> \<bar>t1 - d - t2\<bar> \<le> \<bar>t1 - t2\<bar> - MaxInt64 \<or>
          q \<le> 0 \<and> r \<le> 0 \<and> a \<le> 0 \<and> r' \<le> 0 \<and> \<bar>t1 - d - t2\<bar> \<le> \<bar>t1 - t2\<bar> - MaxInt64"
        using l ih(2,3) qr unfolding time_Add_def by linarith
      then have "\<bar>t1 - d - t2\<bar> \<le> \<bar>t1 - t2\<bar> - MaxInt64" and sign: "0 \<le> q + a \<and> 0 \<le> r + r' \<or> q + a \<le> 0 \<and> r + r' \<le> 0"
        by linarith+
      moreover have "\<bar>r + r'\<bar> \<le> 1000 + \<bar>r'\<bar>" using qr(3,4) by linarith
      moreover have "\<bar>r'\<bar> * 1000000000000 \<le> 1000000000000000 + \<bar>t1 - d - t2\<bar>" using ih(4) by (simp add: time_Add_def)
      moreover have "x * 1000000000000 \<le> 1000000000000000 + e"
        if "f \<le> e - MaxInt64" "x \<le> 1000 + y" "y * 1000000000000 \<le> 1000000000000000 + f" for e f x y :: int
        using that by linarith
      ultimately show "\<bar>r + r'\<bar> * 1000000000000 \<le> 1000000000000000 + \<bar>t1 - t2\<bar>" by blast
      show "0 \<le> q + a \<and> 0 \<le> r + r' \<or> q + a \<le> 0 \<and> r + r' \<le> 0" by (rule sign)
    qed
    with e s show ?thesis by blast
  qed
qed

definition round_micros :: "int \<Rightarrow> int" where
  "round_micros x = sgn x * ((\<bar>x\<bar> + 500) div 1000)"

lemma round_micros_eq:
  "round_micros x = (if x smod 1000 \<ge> 500 then x sdiv 1000 + 1 else if x smod 1000 \<le> - 500 then x sdiv 1000 - 1 else x sdiv 1000)"
proof -
  define q r where "q = x sdiv 1000" and "r = x smod 1000"
  have qr: "x = q * 1000 + r" "0 \<le> q \<and> 0 \<le> r \<or> q \<le> 0 \<and> r \<le> 0" "- 1000 < r" "r < 1000"
    using sdiv_smod [of x 1000] sdiv_smod_sign [of 1000 x] smod_bounds(3,4) [of 1000 x] by (simp_all add: q_def r_def)
  have p: "(b * 1000 + c) div 1000 = b + of_bool (1000 \<le> c)" if "0 \<le> c" "c < 2000" for b c :: int
    using that by auto
  have "round_micros x = (if r \<ge> 500 then q + 1 else if r \<le> - 500 then q - 1 else q)"
  proof (cases "0 \<le> q \<and> 0 \<le> r")
    case True
    then have e: "\<bar>x\<bar> + 500 = q * 1000 + (r + 500)" and x: "sgn x = of_bool (x \<noteq> 0)" using qr(1) by (auto simp: sgn_if)
    have "round_micros x = of_bool (x \<noteq> 0) * (q + of_bool (500 \<le> r))"
      unfolding round_micros_def e x by (subst p) (use True qr(4) in simp_all)
    then show ?thesis using True qr(1) by (cases "x = 0") auto
  next
    case False
    then have s: "q \<le> 0" "r \<le> 0" using qr(2) by auto
    then have e: "\<bar>x\<bar> + 500 = - q * 1000 + (- r + 500)" and x: "sgn x = - of_bool (x \<noteq> 0)" using qr(1) by (auto simp: sgn_if)
    have "1000 \<le> - r + 500 \<longleftrightarrow> r \<le> - 500" by linarith
    then have "round_micros x = - of_bool (x \<noteq> 0) * (- q + of_bool (r \<le> - 500))"
      unfolding round_micros_def e x by (subst p) (use s qr(3) in simp_all)
    then show ?thesis using s qr(1) by (cases "x = 0") auto
  qed
  then show ?thesis by (simp only: q_def r_def)
qed

lemma DiffMicros_exact_aux:
  assumes "\<bar>t1 - t2\<bar> \<le> 9000000000000000000000"
  shows "DiffMicros t1 t2 = round_micros (t1 - t2)"
proof -
  obtain a r where l: "DiffMicros_loop t1 t2 0 0 = (i64 a, i64 r)" "a * 1000 + r = t1 - t2"
    "0 \<le> a \<and> 0 \<le> r \<or> a \<le> 0 \<and> r \<le> 0" "\<bar>r\<bar> * 1000000000000 \<le> 1000000000000000 + \<bar>t1 - t2\<bar>"
    using DiffMicros_loop_exact [of t1 t2 0 0] by auto
  have "int64 r" using l(4) assms unfolding int64_def by linarith
  note c = sdiv_carry [OF l(3), unfolded l(2)]
  have q: "\<bar>(t1 - t2) sdiv 1000\<bar> \<le> 9200000000000000000"
    using assms sdiv_smod [of "t1 - t2" 1000] smod_bounds(3,4) [of 1000 "t1 - t2"] by linarith
  then have "int64 (a + r sdiv 1000)" "int64 (a + r sdiv 1000 + 1)" "int64 (a + r sdiv 1000 - 1)"
    unfolding c(1) int64_def by linarith+
  then show ?thesis
    unfolding round_micros_eq c DiffMicros_def l(1) using \<open>int64 r\<close> by simp
qed

lemma AddMicros_loop_exact:
  "0 \<le> d \<Longrightarrow> int64 d \<Longrightarrow> k = 1 \<or> k = - 1 \<Longrightarrow>
   \<exists>t' r. AddMicros_loop t d k = (t', r) \<and> t' + k * r * 1000 = t + k * d * 1000 \<and> 0 \<le> r \<and> r \<le> maxMicroDur"
proof (induction t d k rule: AddMicros_loop.induct)
  case (1 t d k)
  show ?case
  proof (cases "d > maxMicroDur")
    case True
    have i: "int64 (d - maxMicroDur)" "int64 (k * (maxMicroDur * 1000))" "int64 (maxMicroDur * 1000)"
      using 1(2-4) True unfolding int64_def by auto
    then obtain t' r where "AddMicros_loop (time_Add t (i64 (k * i64 (maxMicroDur * 1000)))) (i64 (d - maxMicroDur)) k = (t', r)"
      "t' + k * r * 1000 = time_Add t (k * (maxMicroDur * 1000)) + k * (d - maxMicroDur) * 1000" "0 \<le> r" "r \<le> maxMicroDur"
      using "1.IH" [OF True] 1(2-4) True by auto
    then show ?thesis
      using True by (subst AddMicros_loop.simps) (auto simp: time_Add_def algebra_simps)
  next
    case False
    then show ?thesis using 1(2-4) by (subst AddMicros_loop.simps) auto
  qed
qed

lemma AddMicros_exact_aux:
  assumes "int64 d"
  shows "AddMicros t d = (if d = MinInt64 then t else t + d * 1000)"
proof (cases "d = MinInt64")
  case True
  have "AddMicros_loop t MinInt64 k = (t, MinInt64)" for k by (subst AddMicros_loop.simps) simp
  then show ?thesis using True by (simp add: AddMicros_def i64_def time_Add_def)
next
  case False
  define k where "k = (if d < 0 then - 1 else 1 :: int)"
  have d: "(if d < 0 then i64 (- d) else d) = \<bar>d\<bar>" "int64 \<bar>d\<bar>" "k * \<bar>d\<bar> = d"
    using False assms by (auto simp: int64_def k_def)
  have k: "k = 1 \<or> k = - 1" by (simp add: k_def)
  obtain t' r where l: "AddMicros_loop t \<bar>d\<bar> k = (t', r)" "t' + k * r * 1000 = t + k * \<bar>d\<bar> * 1000" "0 \<le> r" "r \<le> maxMicroDur"
    using AddMicros_loop_exact [OF _ d(2) k, of t] by auto
  have "int64 (k * r)" "int64 (k * r * 1000)" using l(3,4) by (auto simp: int64_def k_def)
  then show ?thesis
    using False l(1,2) d by (simp add: AddMicros_def k_def [symmetric] time_Add_def)
qed


subsection \<open>Microseconds since the epoch\<close>

lemma FromUnixMicros_exact: "int64 us \<Longrightarrow> FromUnixMicros us = us * 1000"
proof -
  assume "int64 us"
  have "int64 ((us smod 1000000) * 1000)"
    using smod_bounds(3,4) [of 1000000 us] unfolding int64_def by simp
  then show ?thesis
    using sdiv_smod [of us 1000000] by (simp add: FromUnixMicros_def time_Unix_def)
qed

lemma time_Round_micro: "time_Round t 1000 = (if t mod 1000 < 500 then t - t mod 1000 else t + 1000 - t mod 1000)"
proof -
  have "(t + 62135596800000000000) mod 1000 = t mod 1000" by (simp add: mod_add_eq [symmetric])
  then show ?thesis by (simp add: time_Round_def time_Add_def Let_def)
qed

lemma Nanosecond_round:
  "Nanosecond (time_Round t 1000) sdiv 1000 = (if Nanosecond t < 999999500 then (Nanosecond t + 500) div 1000 else 0)"
proof -
  define k a r where "k = t div 1000000000" and "a = t mod 1000000000 div 1000" and "r = t mod 1000"
  have r: "0 \<le> r" "r < 1000" and "0 \<le> t mod 1000000000" "t mod 1000000000 < 1000000000" by (simp_all add: r_def)
  moreover have n: "t mod 1000000000 = a * 1000 + r"
    using div_mult_mod_eq [of "t mod 1000000000" 1000] by (simp add: a_def r_def mod_mod_cancel)
  ultimately have a: "0 \<le> a" "a < 1000000" by linarith+
  have t: "t = k * 1000000000 + (a * 1000 + r)"
    using div_mult_mod_eq [of t 1000000000] n by (simp add: k_def)
  have R: "time_Round t 1000 = (if r < 500 then t - r else t + 1000 - r)" by (simp add: time_Round_micro r_def)
  have m: "(k * 1000000000 + x) mod 1000000000 = x" if "0 \<le> x" "x < 1000000000" for x using that by simp
  show ?thesis
  proof (cases "r < 500")
    case True
    then have "time_Round t 1000 = k * 1000000000 + a * 1000" unfolding R using t by simp
    then have "Nanosecond (time_Round t 1000) = a * 1000" using a m [of "a * 1000"] by (simp add: Nanosecond_def)
    then show ?thesis using True r a n by (simp add: sdiv_pos Nanosecond_def)
  next
    case False
    then have e: "time_Round t 1000 = k * 1000000000 + (a + 1) * 1000" unfolding R using t by simp
    show ?thesis
    proof (cases "a = 999999")
      case True
      then show ?thesis using False e n by (simp add: Nanosecond_def)
    next
      case False
      then have "Nanosecond (time_Round t 1000) = (a + 1) * 1000" using e a m [of "(a + 1) * 1000"] by (simp add: Nanosecond_def)
      then show ?thesis using False \<open>\<not> r < 500\<close> r a n by (simp add: sdiv_pos Nanosecond_def)
    qed
  qed
qed

lemma ToUnixMicros_eq:
  "ToUnixMicros t = i64 (Unix t * 1000000 + (if Nanosecond t < 999999500 then (Nanosecond t + 500) div 1000 else 0))"
  by (simp add: ToUnixMicros_def Nanosecond_round)

lemma ToUnixMicros_floor:
  "ToUnixMicros t = i64 ((t + 500) div 1000 - (if Nanosecond t < 999999500 then 0 else 1000000))"
proof -
  define k n where "k = t div 1000000000" and "n = t mod 1000000000"
  have "t + 500 = (n + 500) + k * 1000000 * 1000" "n < 1000000000"
    using div_mult_mod_eq [of t 1000000000] by (simp_all add: k_def n_def)
  then have "(t + 500) div 1000 = (n + 500) div 1000 + k * 1000000" "\<not> n < 999999500 \<Longrightarrow> (n + 500) div 1000 = 1000000"
    using int_div_pos_eq [of "n + 500" 1000 1000000 "n - 999999500"] by simp_all
  then show ?thesis unfolding ToUnixMicros_eq Unix_def Nanosecond_def k_def [symmetric] n_def [symmetric] by (simp add: add.commute)
qed

lemma ToUnixMicros_FromUnixMicros: "int64 us \<Longrightarrow> ToUnixMicros (FromUnixMicros us) = us"
proof -
  assume "int64 us"
  have d: "us * 1000 div 1000000000 = us div 1000000" "us * 1000 mod 1000000000 = us mod 1000000 * 1000"
    using div_mult_mult1 [of 1000 us 1000000] mod_mult_mult1 [of 1000 us 1000000] by (simp_all add: mult.commute)
  have "(us mod 1000000 * 1000 + 500) div 1000 = us mod 1000000" by simp
  moreover have "us mod 1000000 * 1000 < 999999500" by (simp; linarith)
  ultimately show ?thesis
    using \<open>int64 us\<close> div_mult_mod_eq [of us 1000000]
    by (simp add: FromUnixMicros_exact ToUnixMicros_eq Unix_def Nanosecond_def d)
qed


subsection \<open>Fields of a time of day\<close>

lemma FromInt_eq: "FromInt i = (if i < 0 \<and> microsecondsPerDay dvd i then Time2400 else i mod microsecondsPerDay)"
proof (cases "i < 0")
  case True
  have m: "i smod microsecondsPerDay = (if microsecondsPerDay dvd i then 0 else i mod microsecondsPerDay - microsecondsPerDay)"
    using True by (simp add: signed_modulo_int_eq_modulo_int)
  have "0 \<le> i mod microsecondsPerDay" "i mod microsecondsPerDay < microsecondsPerDay" by simp_all
  then have "int64 (i mod microsecondsPerDay)" unfolding int64_def by linarith
  then show ?thesis using True m by (simp add: FromInt_def positiveMod_def int64_def)
qed (simp add: FromInt_def positiveMod_def smod_mod_positive)

lemma TimeOfDay_fields_aux:
  assumes "0 \<le> t" "t < microsecondsPerDay"
  shows "Hour t = t div microsecondsPerHour" "Minute t = t mod microsecondsPerHour div microsecondsPerMinute"
    "Second t = t mod microsecondsPerMinute div microsecondsPerSecond" "Microsecond t = t mod microsecondsPerSecond"
  using assms by (simp_all add: Hour_def Minute_def Second_def Microsecond_def smod_mod_positive sdiv_pos)

lemma fields_range:
  assumes "0 \<le> t" "t < microsecondsPerDay"
  shows "Hour t * microsecondsPerHour + Minute t * microsecondsPerMinute + Second t * microsecondsPerSecond + Microsecond t = t"
    and "Hour t \<in> {0..23}" "Minute t \<in> {0..59}" "Second t \<in> {0..59}" "Microsecond t \<in> {0..999999}"
proof -
  define h m s u where "h = Hour t" and "m = Minute t" and "s = Second t" and "u = Microsecond t"
  define th tm where "th = t mod microsecondsPerHour" and "tm = t mod microsecondsPerMinute"
  have "h * microsecondsPerHour + th = t" "m * microsecondsPerMinute + tm = th" "s * microsecondsPerSecond + u = tm"
    using div_mult_mod_eq [of t microsecondsPerHour] div_mult_mod_eq [of th microsecondsPerMinute]
      div_mult_mod_eq [of tm microsecondsPerSecond]
    by (simp_all add: h_def m_def s_def u_def th_def tm_def TimeOfDay_fields_aux [OF assms] mod_mod_cancel)
  moreover have "0 \<le> th" "th < microsecondsPerHour" "0 \<le> tm" "tm < microsecondsPerMinute" "0 \<le> u" "u < 1000000"
    by (simp_all add: th_def tm_def u_def TimeOfDay_fields_aux [OF assms])
  ultimately have e: "h * microsecondsPerHour + m * microsecondsPerMinute + s * microsecondsPerSecond + u = t"
    and b: "0 \<le> h" "h \<le> 23" "0 \<le> m" "m \<le> 59" "0 \<le> s" "s \<le> 59" "0 \<le> u" "u \<le> 999999"
    using assms by linarith+
  then show "Hour t * microsecondsPerHour + Minute t * microsecondsPerMinute + Second t * microsecondsPerSecond + Microsecond t = t"
    "Hour t \<in> {0..23}" "Minute t \<in> {0..59}" "Second t \<in> {0..59}" "Microsecond t \<in> {0..999999}"
    by (simp_all add: h_def m_def s_def u_def)
qed

lemma New_fields:
  assumes "0 \<le> t" "t < microsecondsPerDay"
  shows "New (Hour t) (Minute t) (Second t) (Microsecond t) = t"
proof -
  define h m s u where "h = Hour t" and "m = Minute t" and "s = Second t" and "u = Microsecond t"
  have f: "h * microsecondsPerHour + m * microsecondsPerMinute + s * microsecondsPerSecond + u = t"
    "0 \<le> h" "h \<le> 23" "0 \<le> m" "m \<le> 59" "0 \<le> s" "s \<le> 59" "0 \<le> u" "u \<le> 999999"
    using fields_range [OF assms] by (simp_all add: h_def m_def s_def u_def)
  then have "int64 (h * 3600000000000)" "int64 (m * 60000000000)" "int64 (s * 1000000000)" "int64 (u * 1000)"
    "int64 (h * 3600000000000 + m * 60000000000)" "int64 (h * 3600000000000 + m * 60000000000 + s * 1000000000)"
    "int64 (h * 3600000000000 + m * 60000000000 + s * 1000000000 + u * 1000)"
    unfolding int64_def by linarith+
  moreover have "h * 3600000000000 + m * 60000000000 + s * 1000000000 + u * 1000 = t * 1000" using f(1) by simp
  ultimately have "New h m s u = FromInt (t * 1000 sdiv 1000)" unfolding New_def Let_def by simp
  then show ?thesis using assms unfolding h_def m_def s_def u_def by (simp add: sdiv_pos FromInt_eq)
qed

lemma FromTime_ToTime:
  assumes "0 \<le> t" "t < microsecondsPerDay"
  shows "FromTime (ToTime t) 0 = t"
proof -
  define k n where "k = t * 1000 div 1000000000" and "n = t * 1000 mod 1000000000"
  have kn: "k * 1000000000 + n = t * 1000" "0 \<le> n" "n < 1000000000"
    using div_mult_mod_eq [of "t * 1000" 1000000000] by (simp_all add: k_def n_def)
  then have k: "0 \<le> k" "k < 86400" using assms by linarith+
  have i: "int64 (t * 1000)" "int64 k" "int64 (k * 1000000000)" using assms k unfolding int64_def by auto
  then have t: "ToTime t = t * 1000" by (simp add: ToTime_def time_Unix_def)
  have "FromTime (t * 1000) 0 = FromInt (t * 1000 sdiv 1000)"
    unfolding FromTime_def Let_def Unix_def Nanosecond_def k_def [symmetric] n_def [symmetric]
    using i k kn(1) by (simp add: smod_mod_positive)
  then show ?thesis using assms t by (simp add: sdiv_pos FromInt_eq)
qed

text \<open>Zones up to fifteen hours and fifty-nine minutes, as \<open>ParseTimeTZ\<close> accepts them.\<close>

definition wf_timetz :: "TimeTZ \<Rightarrow> bool" where
  "wf_timetz t \<longleftrightarrow> 0 \<le> TimeOfDay t \<and> TimeOfDay t \<le> Time2400 \<and> \<bar>OffsetSecs t\<bar> \<le> 57540"

lemma TimeTZ_ToTime_exact:
  "wf_timetz t \<Longrightarrow> TimeTZ_ToTime t = (TimeOfDay t + OffsetSecs t * 1000000) * 1000"
proof -
  assume "wf_timetz t"
  then have "int64 (TimeOfDay t * 1000)" "int64 (OffsetSecs t * 1000000000)" by (auto simp: wf_timetz_def int64_def)
  then show ?thesis by (simp add: TimeTZ_ToTime_def ToTime_def time_Add_def time_Unix_def)
qed

lemma TimeTZ_eq_iff: "t = u \<longleftrightarrow> TimeOfDay t = TimeOfDay u \<and> OffsetSecs t = OffsetSecs u" for t u :: TimeTZ
  by (cases t; cases u) simp

lemma TimeTZ_trichotomy:
  assumes "wf_timetz t" "wf_timetz u"
  shows "After t u \<longleftrightarrow> Before u t" "TimeTZ_Equal t u \<longleftrightarrow> t = u" "Before t u \<or> t = u \<or> Before u t" "\<not> (Before t u \<and> Before u t)" "\<not> Before t t"
  using assms by (auto simp: Before_def After_def TimeTZ_Equal_def TimeTZ_ToTime_exact TimeTZ_eq_iff)


subsection \<open>Properties\<close>

text \<open>
  C15: the loops that count microseconds between instants more than 290 years apart end, and their
  results are exact: \<open>DiffMicros\<close> rounds the difference to microseconds, halves away from zero,
  and \<open>AddMicros\<close> adds the microseconds, except for the smallest \<open>int64\<close>, which its negation
  leaves negative: the loop is skipped and the instant is returned unchanged.
\<close>

theorem micros_loops_exact:
  assumes "\<bar>t1 - t2\<bar> \<le> 9000000000000000000000" "int64 d"
  shows "DiffMicros t1 t2 = round_micros (t1 - t2) \<and> AddMicros t d = (if d = MinInt64 then t else t + d * 1000)"
  using DiffMicros_exact_aux [OF assms(1)] AddMicros_exact_aux [OF assms(2)] by blast

theorem micros_loops_exact_witness:
  "DiffMicros 8999999999999999999500 0 = 9000000000000000000 \<and> AddMicros 0 MinInt64 = 0"
  using micros_loops_exact [of 8999999999999999999500 0 MinInt64 0] by (simp add: int64_def round_micros_def)

text \<open>
  C38: microseconds since the epoch are read back from the instant made of them. The converse
  conversion rounds the nanoseconds but not the seconds: in the last half microsecond of a
  second the carry is lost and the result is a whole second too small.
\<close>

theorem UnixMicros_roundtrip:
  "(int64 us \<longrightarrow> FromUnixMicros us = us * 1000 \<and> ToUnixMicros (FromUnixMicros us) = us) \<and>
   ToUnixMicros t = i64 ((t + 500) div 1000 - (if Nanosecond t < 999999500 then 0 else 1000000))"
  using FromUnixMicros_exact ToUnixMicros_FromUnixMicros ToUnixMicros_floor by blast

theorem UnixMicros_roundtrip_witness:
  "FromUnixMicros (- 1) = - 1000 \<and> ToUnixMicros 1999999500 = 1000000"
  using UnixMicros_roundtrip [of "- 1" 1999999500] by (simp add: int64_def Nanosecond_def)

text \<open>
  C39: a time of day has the fields it is made of, in their ranges, and is read back from its
  instant. \<open>FromInt\<close> reduces modulo a day, except that a negative multiple of a day becomes 24:00
  and not midnight.
\<close>

theorem TimeOfDay_fields:
  "FromInt i = (if i < 0 \<and> microsecondsPerDay dvd i then Time2400 else i mod microsecondsPerDay) \<and>
   (0 \<le> t \<and> t < microsecondsPerDay \<longrightarrow>
      New (Hour t) (Minute t) (Second t) (Microsecond t) = t \<and> FromTime (ToTime t) 0 = t \<and>
      Hour t \<in> {0..23} \<and> Minute t \<in> {0..59} \<and> Second t \<in> {0..59} \<and> Microsecond t \<in> {0..999999})"
  using FromInt_eq New_fields FromTime_ToTime fields_range(2-) by blast

theorem TimeOfDay_fields_witness:
  "FromInt (- microsecondsPerDay) = Time2400 \<and> FromTime (ToTime 1) 0 = 1"
  using TimeOfDay_fields [of "- microsecondsPerDay" 1] by simp

end
