(* ===== verification/Key_Values.thy ===== *)
theory Key_Values
  imports Key_Bytes Go_Time
begin

text \<open>
  The other values of a key in \<open>utils/encoding/encoding.go\<close> and \<open>float.go\<close>: the type of an encoded
  value, markers, instants, times of day with a zone, durations and floating-point numbers.
\<close>

subsection \<open>Types\<close>

type_synonym Type = int

abbreviation Unknown :: Type where "Unknown \<equiv> 0"
abbreviation Null :: Type where "Null \<equiv> 1"
abbreviation NotNull :: Type where "NotNull \<equiv> 2"
abbreviation IntType :: Type where "IntType \<equiv> 3"
abbreviation Float :: Type where "Float \<equiv> 4"
abbreviation Decimal :: Type where "Decimal \<equiv> 5"
abbreviation Bytes :: Type where "Bytes \<equiv> 6"
abbreviation BytesDesc :: Type where "BytesDesc \<equiv> 7"
abbreviation Time :: Type where "Time \<equiv> 8"
abbreviation DurationType :: Type where "DurationType \<equiv> 9"
abbreviation TrueType :: Type where "TrueType \<equiv> 10"
abbreviation FalseType :: Type where "FalseType \<equiv> 11"
abbreviation UUID :: Type where "UUID \<equiv> 12"
abbreviation Array :: Type where "Array \<equiv> 13"
abbreviation IPAddr :: Type where "IPAddr \<equiv> 14"
abbreviation SentinelType :: Type where "SentinelType \<equiv> 15"
abbreviation JSON :: Type where "JSON \<equiv> 15"
abbreviation Tuple :: Type where "Tuple \<equiv> 16"
abbreviation BitArrayType :: Type where "BitArrayType \<equiv> 17"
abbreviation BitArrayDesc :: Type where "BitArrayDesc \<equiv> 18"
abbreviation TimeTZType :: Type where "TimeTZType \<equiv> 19"
abbreviation Geo :: Type where "Geo \<equiv> 20"
abbreviation GeoDesc :: Type where "GeoDesc \<equiv> 21"
abbreviation ArrayKeyAsc :: Type where "ArrayKeyAsc \<equiv> 22"
abbreviation ArrayKeyDesc :: Type where "ArrayKeyDesc \<equiv> 23"

abbreviation encodedNull :: byte where "encodedNull \<equiv> 0x00"
abbreviation encodedNotNull :: byte where "encodedNotNull \<equiv> 0x01"
abbreviation floatNaN :: byte where "floatNaN \<equiv> 2"
abbreviation floatNeg :: byte where "floatNeg \<equiv> 3"
abbreviation floatZero :: byte where "floatZero \<equiv> 4"
abbreviation floatPos :: byte where "floatPos \<equiv> 5"
abbreviation floatNaNDesc :: byte where "floatNaNDesc \<equiv> 6"
abbreviation timeMarker :: byte where "timeMarker \<equiv> 0x14"
abbreviation durationBigNegMarker :: byte where "durationBigNegMarker \<equiv> 0x15"
abbreviation durationMarker :: byte where "durationMarker \<equiv> 0x16"
abbreviation durationBigPosMarker :: byte where "durationBigPosMarker \<equiv> 0x17"
abbreviation decimalNaN :: byte where "decimalNaN \<equiv> 24"
abbreviation decimalNegativeInfinity :: byte where "decimalNegativeInfinity \<equiv> 25"
abbreviation decimalNegLarge :: byte where "decimalNegLarge \<equiv> 26"
abbreviation decimalNegMedium :: byte where "decimalNegMedium \<equiv> 37"
abbreviation decimalNegSmall :: byte where "decimalNegSmall \<equiv> 38"
abbreviation decimalZero :: byte where "decimalZero \<equiv> 39"
abbreviation decimalPosSmall :: byte where "decimalPosSmall \<equiv> 40"
abbreviation decimalPosMedium :: byte where "decimalPosMedium \<equiv> 41"
abbreviation decimalPosLarge :: byte where "decimalPosLarge \<equiv> 52"
abbreviation decimalInfinity :: byte where "decimalInfinity \<equiv> 53"
abbreviation decimalNaNDesc :: byte where "decimalNaNDesc \<equiv> 54"
abbreviation decimalTerminator :: byte where "decimalTerminator \<equiv> 0x00"
abbreviation jsonInvertedIndex :: byte where "jsonInvertedIndex \<equiv> 55"
abbreviation jsonEmptyArray :: byte where "jsonEmptyArray \<equiv> 56"
abbreviation jsonEmptyObject :: byte where "jsonEmptyObject \<equiv> 57"
abbreviation bitArrayMarker :: byte where "bitArrayMarker \<equiv> 58"
abbreviation bitArrayDescMarker :: byte where "bitArrayDescMarker \<equiv> 59"
abbreviation bitArrayDataTerminator :: byte where "bitArrayDataTerminator \<equiv> 0x00"
abbreviation bitArrayDataDescTerminator :: byte where "bitArrayDataDescTerminator \<equiv> 0xff"
abbreviation timeTZMarker :: byte where "timeTZMarker \<equiv> 60"
abbreviation geoMarker :: byte where "geoMarker \<equiv> 61"
abbreviation geoDescMarker :: byte where "geoDescMarker \<equiv> 62"
abbreviation arrayKeyMarker :: byte where "arrayKeyMarker \<equiv> 63"
abbreviation arrayKeyDescendingMarker :: byte where "arrayKeyDescendingMarker \<equiv> 64"
abbreviation arrayKeyTerminator :: byte where "arrayKeyTerminator \<equiv> 0x00"
abbreviation arrayKeyDescendingTerminator :: byte where "arrayKeyDescendingTerminator \<equiv> 0xFF"
abbreviation ascendingNullWithinArrayKey :: byte where "ascendingNullWithinArrayKey \<equiv> 0x01"
abbreviation descendingNullWithinArrayKey :: byte where "descendingNullWithinArrayKey \<equiv> 0xFE"
abbreviation encodedNotNullDesc :: byte where "encodedNotNullDesc \<equiv> 0xfe"
abbreviation interleavedSentinel :: byte where "interleavedSentinel \<equiv> 0xfe"
abbreviation encodedNullDesc :: byte where "encodedNullDesc \<equiv> 0xff"
abbreviation offsetSecsToMicros :: int where "offsetSecsToMicros \<equiv> 1000000"

definition slowPeekType :: "bytes \<Rightarrow> Type" where
  "slowPeekType b =
     (if length b \<ge> 1 then
        (let m = hd b in
         if m = encodedNull \<or> m = encodedNullDesc then Null
         else if m = encodedNotNull \<or> m = encodedNotNullDesc then NotNull
         else if m = arrayKeyMarker then ArrayKeyAsc
         else if m = arrayKeyDescendingMarker then ArrayKeyDesc
         else if m = bytesMarker then Bytes
         else if m = bytesDescMarker then BytesDesc
         else if m = bitArrayMarker then BitArrayType
         else if m = bitArrayDescMarker then BitArrayDesc
         else if m = timeMarker then Time
         else if m = timeTZMarker then TimeTZType
         else if m = geoMarker then Geo
         else if m = geoDescMarker then GeoDesc
         else if m = word_of_int Array then Array
         else if m = word_of_int TrueType then TrueType
         else if m = word_of_int FalseType then FalseType
         else if m = durationBigNegMarker \<or> m = durationMarker \<or> m = durationBigPosMarker then DurationType
         else if m \<ge> IntMin \<and> m \<le> IntMax then IntType
         else if m \<ge> floatNaN \<and> m \<le> floatNaNDesc then Float
         else if m \<ge> decimalNaN \<and> m \<le> decimalNaNDesc then Decimal
         else Unknown)
      else Unknown)"

definition typMap :: "Type list" where
  "typMap = map (\<lambda>i. slowPeekType [word_of_nat i]) [0..<256]"

definition PeekType :: "bytes \<Rightarrow> Type" where
  "PeekType b = (if length b \<ge> 1 then typMap ! unat (hd b) else Unknown)"

lemma PeekType_slow: "PeekType b = slowPeekType b"
proof (cases b)
  case (Cons m r)
  have "unat m < 256" using unsigned_less [of m] by simp
  then have "typMap ! unat m = slowPeekType [m]" by (simp add: typMap_def)
  then show ?thesis using Cons by (simp add: PeekType_def slowPeekType_def)
qed (simp add: PeekType_def slowPeekType_def)

subsection \<open>Markers\<close>

definition EncodeJSONEmptyArray :: "bytes \<Rightarrow> bytes" where
  "EncodeJSONEmptyArray b = b @ [escape, escapedTerm, jsonEmptyArray]"

definition AddJSONPathTerminator :: "bytes \<Rightarrow> bytes" where
  "AddJSONPathTerminator b = b @ [escape, escapedTerm]"

definition EncodeJSONEmptyObject :: "bytes \<Rightarrow> bytes" where
  "EncodeJSONEmptyObject b = b @ [escape, escapedTerm, jsonEmptyObject]"

definition EncodeNullAscending :: "bytes \<Rightarrow> bytes" where
  "EncodeNullAscending b = b @ [encodedNull]"

definition EncodeJSONAscending :: "bytes \<Rightarrow> bytes" where
  "EncodeJSONAscending b = b @ [jsonInvertedIndex]"

definition EncodeNullDescending :: "bytes \<Rightarrow> bytes" where
  "EncodeNullDescending b = b @ [encodedNullDesc]"

definition EncodeNotNullAscending :: "bytes \<Rightarrow> bytes" where
  "EncodeNotNullAscending b = b @ [encodedNotNull]"

definition EncodeArrayAscending :: "bytes \<Rightarrow> bytes" where
  "EncodeArrayAscending b = b @ [escape, escapedJSONArray]"

definition EncodeTrueAscending :: "bytes \<Rightarrow> bytes" where
  "EncodeTrueAscending b = b @ [word_of_int TrueType]"

definition EncodeFalseAscending :: "bytes \<Rightarrow> bytes" where
  "EncodeFalseAscending b = b @ [word_of_int FalseType]"

definition EncodeNotNullDescending :: "bytes \<Rightarrow> bytes" where
  "EncodeNotNullDescending b = b @ [encodedNotNullDesc]"

definition EncodeInterleavedSentinel :: "bytes \<Rightarrow> bytes" where
  "EncodeInterleavedSentinel b = b @ [interleavedSentinel]"

definition DecodeIfNull :: "bytes \<Rightarrow> bytes \<times> bool" where
  "DecodeIfNull b = (if PeekType b = Null then (tl b, True) else (b, False))"

definition DecodeIfNotNull :: "bytes \<Rightarrow> bytes \<times> bool" where
  "DecodeIfNotNull b = (if PeekType b = NotNull then (tl b, True) else (b, False))"

definition DecodeIfNotNullDescending :: "bytes \<Rightarrow> bytes \<times> bool" where
  "DecodeIfNotNullDescending b =
     (if length b = 0 then (b, False) else if hd b = encodedNotNullDesc then (tl b, True) else (b, False))"

definition DecodeIfInterleavedSentinel :: "bytes \<Rightarrow> bytes \<times> bool" where
  "DecodeIfInterleavedSentinel b = DecodeIfNotNullDescending b"

text \<open>A Go string is its bytes; the unsafe conversions do not copy them.\<close>

definition encodeStringAscendingWithTerminatorAndPrefix :: "bytes \<Rightarrow> bytes \<Rightarrow> byte \<Rightarrow> byte \<Rightarrow> bytes" where
  "encodeStringAscendingWithTerminatorAndPrefix b s terminator prefix =
     encodeBytesAscendingWithTerminatorAndPrefix b s terminator prefix"

definition EncodeStringAscending :: "bytes \<Rightarrow> bytes \<Rightarrow> bytes" where
  "EncodeStringAscending b s =
     encodeStringAscendingWithTerminatorAndPrefix b s (esc_escapedTerm ascendingBytesEscapes) bytesMarker"

definition EncodeStringDescending :: "bytes \<Rightarrow> bytes \<Rightarrow> bytes" where
  "EncodeStringDescending b s = (if length s = 0 then EncodeBytesDescending b [] else EncodeBytesDescending b s)"

definition DecodeUnsafeStringAscending :: "bytes \<Rightarrow> bytes \<Rightarrow> key_error + bytes \<times> bytes" where
  "DecodeUnsafeStringAscending b r = DecodeBytesAscending b r"

definition DecodeUnsafeStringDescending :: "bytes \<Rightarrow> bytes \<Rightarrow> key_error + bytes \<times> bytes" where
  "DecodeUnsafeStringDescending b r = DecodeBytesDescending b r"

lemma EncodeString_bytes:
  "EncodeStringAscending b s = EncodeBytesAscending b s" "EncodeStringDescending b s = EncodeBytesDescending b s"
  by (simp_all add: EncodeStringAscending_def EncodeStringDescending_def EncodeBytesAscending_def
      encodeStringAscendingWithTerminatorAndPrefix_def)

datatype Direction = Ascending | Descending

definition EncodeArrayKeyMarker :: "bytes \<Rightarrow> Direction \<Rightarrow> bytes" where
  "EncodeArrayKeyMarker buf dir = (case dir of Ascending \<Rightarrow> buf @ [arrayKeyMarker] | Descending \<Rightarrow> buf @ [arrayKeyDescendingMarker])"

definition EncodeArrayKeyTerminator :: "bytes \<Rightarrow> Direction \<Rightarrow> bytes" where
  "EncodeArrayKeyTerminator buf dir =
     (case dir of Ascending \<Rightarrow> buf @ [arrayKeyTerminator] | Descending \<Rightarrow> buf @ [arrayKeyDescendingTerminator])"

definition EncodeNullWithinArrayKey :: "bytes \<Rightarrow> Direction \<Rightarrow> bytes" where
  "EncodeNullWithinArrayKey buf dir =
     (case dir of Ascending \<Rightarrow> buf @ [ascendingNullWithinArrayKey] | Descending \<Rightarrow> buf @ [descendingNullWithinArrayKey])"

definition IsNextByteArrayEncodedNull :: "bytes \<Rightarrow> Direction \<Rightarrow> bool option" where
  "IsNextByteArrayEncodedNull buf dir =
     (if buf = [] then None
      else Some (hd buf = (if dir = Descending then descendingNullWithinArrayKey else ascendingNullWithinArrayKey)))"

definition ValidateAndConsumeArrayKeyMarker :: "bytes \<Rightarrow> Direction \<Rightarrow> key_error + bytes" where
  "ValidateAndConsumeArrayKeyMarker buf dir =
     (if PeekType buf \<noteq> (if dir = Descending then ArrayKeyDesc else ArrayKeyAsc)
      then Inl (OtherError ''invalid type found'') else Inr (tl buf))"

definition IsArrayKeyDone :: "bytes \<Rightarrow> Direction \<Rightarrow> bool option" where
  "IsArrayKeyDone buf dir =
     (if buf = [] then None
      else Some (hd buf = (if dir = Descending then arrayKeyDescendingTerminator else arrayKeyTerminator)))"

definition UndoPrefixEnd :: "bytes \<Rightarrow> bytes option" where
  "UndoPrefixEnd b =
     (if length b = 0 \<or> last b = 0 then None else Some (b[length b - 1 := last b - 1]))"


subsection \<open>Instants\<close>

definition encodeTime :: "bytes \<Rightarrow> 64 word \<Rightarrow> 64 word \<Rightarrow> bytes" where
  "encodeTime b unix ns = EncodeVarintAscending (EncodeVarintAscending (b @ [timeMarker]) unix) ns"

definition EncodeTimeAscending :: "bytes \<Rightarrow> gotime \<Rightarrow> bytes" where
  "EncodeTimeAscending b t = encodeTime b (word_of_int (Unix t)) (word_of_int (Nanosecond t))"

definition EncodeTimeDescending :: "bytes \<Rightarrow> gotime \<Rightarrow> bytes" where
  "EncodeTimeDescending b t = encodeTime b (NOT (word_of_int (Unix t))) (NOT (word_of_int (Nanosecond t)))"

definition decodeTime :: "bytes \<Rightarrow> key_error + bytes \<times> 64 word \<times> 64 word" where
  "decodeTime b =
     (if PeekType b \<noteq> Time then Inl (OtherError ''did not find marker'')
      else bind_result (DecodeVarintAscending (tl b))
        (\<lambda>(b1, sec). bind_result (DecodeVarintAscending b1) (\<lambda>(b2, nsec). Inr (b2, sec, nsec))))"

definition DecodeTimeAscending :: "bytes \<Rightarrow> key_error + bytes \<times> gotime" where
  "DecodeTimeAscending b = bind_result (decodeTime b) (\<lambda>(b', sec, nsec). Inr (b', time_Unix (sint sec) (sint nsec)))"

definition DecodeTimeDescending :: "bytes \<Rightarrow> key_error + bytes \<times> gotime" where
  "DecodeTimeDescending b = bind_result (decodeTime b) (\<lambda>(b', sec, nsec). Inr (b', time_Unix (sint (NOT sec)) (sint (NOT nsec))))"

subsection \<open>Times of day with a zone\<close>

definition encodeTimeTZ :: "bytes \<Rightarrow> 64 word \<Rightarrow> 32 word \<Rightarrow> bytes" where
  "encodeTimeTZ b unixMicros offsetSecs =
     EncodeVarintAscending (EncodeVarintAscending (b @ [timeTZMarker]) unixMicros) (scast offsetSecs)"

definition timetz_micros :: "TimeTZ \<Rightarrow> 64 word" where
  "timetz_micros t = word_of_int (TimeOfDay t) + word_of_int (OffsetSecs t) * word_of_int offsetSecsToMicros"

definition EncodeTimeTZAscending :: "bytes \<Rightarrow> TimeTZ \<Rightarrow> bytes" where
  "EncodeTimeTZAscending b t = encodeTimeTZ b (timetz_micros t) (word_of_int (OffsetSecs t))"

definition EncodeTimeTZDescending :: "bytes \<Rightarrow> TimeTZ \<Rightarrow> bytes" where
  "EncodeTimeTZDescending b t = encodeTimeTZ b (NOT (timetz_micros t)) (NOT (word_of_int (OffsetSecs t)))"

definition decodeTimeTZ :: "bytes \<Rightarrow> key_error + bytes \<times> 64 word \<times> 32 word" where
  "decodeTimeTZ b =
     (if PeekType b \<noteq> TimeTZType then Inl (OtherError ''did not find marker'')
      else bind_result (DecodeVarintAscending (tl b))
        (\<lambda>(b1, unixMicros). bind_result (DecodeVarintAscending b1) (\<lambda>(b2, offsetSecs). Inr (b2, unixMicros, ucast offsetSecs))))"

definition DecodeTimeTZAscending :: "bytes \<Rightarrow> key_error + bytes \<times> TimeTZ" where
  "DecodeTimeTZAscending b =
     bind_result (decodeTimeTZ b)
       (\<lambda>(b', unixMicros, offsetSecs).
          Inr (b', \<lparr>TimeOfDay = sint (unixMicros - scast offsetSecs * word_of_int offsetSecsToMicros),
                    OffsetSecs = sint offsetSecs\<rparr>))"

definition DecodeTimeTZDescending :: "bytes \<Rightarrow> key_error + bytes \<times> TimeTZ" where
  "DecodeTimeTZDescending b =
     bind_result (decodeTimeTZ b)
       (\<lambda>(b', unixMicros, offsetSecs).
          Inr (b', \<lparr>TimeOfDay = sint (NOT unixMicros - scast (NOT offsetSecs) * word_of_int offsetSecsToMicros),
                    OffsetSecs = sint (NOT offsetSecs)\<rparr>))"

subsection \<open>Durations\<close>

definition EncodeDurationAscending :: "bytes \<Rightarrow> Duration \<Rightarrow> encode_error + bytes" where
  "EncodeDurationAscending b d =
     bind_result (Duration_Encode d)
       (\<lambda>(sortNanos, months, days).
          Inr (EncodeVarintAscending (EncodeVarintAscending (EncodeVarintAscending (b @ [durationMarker])
            (word_of_int sortNanos)) (word_of_int months)) (word_of_int days)))"

definition EncodeDurationDescending :: "bytes \<Rightarrow> Duration \<Rightarrow> encode_error + bytes" where
  "EncodeDurationDescending b d =
     bind_result (Duration_Encode d)
       (\<lambda>(sortNanos, months, days).
          Inr (EncodeVarintDescending (EncodeVarintDescending (EncodeVarintDescending (b @ [durationMarker])
            (word_of_int sortNanos)) (word_of_int months)) (word_of_int days)))"

definition DecodeDurationAscending :: "bytes \<Rightarrow> key_error + bytes \<times> Duration" where
  "DecodeDurationAscending b =
     (if PeekType b \<noteq> DurationType then Inl (NoMarker None b)
      else bind_result (DecodeVarintAscending (tl b))
        (\<lambda>(b1, sortNanos). bind_result (DecodeVarintAscending b1)
          (\<lambda>(b2, months). bind_result (DecodeVarintAscending b2)
            (\<lambda>(b3, days). Inr (b3, Duration_Decode (sint sortNanos) (sint months) (sint days))))))"

definition DecodeDurationDescending :: "bytes \<Rightarrow> key_error + bytes \<times> Duration" where
  "DecodeDurationDescending b =
     (if PeekType b \<noteq> DurationType then Inl (OtherError ''did not find marker'')
      else bind_result (DecodeVarintDescending (tl b))
        (\<lambda>(b1, sortNanos). bind_result (DecodeVarintDescending b1)
          (\<lambda>(b2, months). bind_result (DecodeVarintDescending b2)
            (\<lambda>(b3, days). Inr (b3, Duration_Decode (sint sortNanos) (sint months) (sint days))))))"

subsection \<open>Floating-point numbers\<close>

text \<open>
  A \<open>float64\<close> is its IEEE 754 representation (\<open>math.Float64bits\<close>): a sign bit above a magnitude.
  Not-a-number has a magnitude above infinity; the value of any other number grows with the
  magnitude, and zero has both signs.
\<close>

abbreviation sign_bit :: "64 word" where "sign_bit \<equiv> 0x8000000000000000"
abbreviation infinity_bits :: "64 word" where "infinity_bits \<equiv> 0x7FF0000000000000"
abbreviation nan_bits :: "64 word" where "nan_bits \<equiv> 0x7FF8000000000001"

definition magnitude :: "64 word \<Rightarrow> 64 word" where
  "magnitude f = f AND 0x7FFFFFFFFFFFFFFF"

definition IsNaN :: "64 word \<Rightarrow> bool" where
  "IsNaN f \<longleftrightarrow> magnitude f > infinity_bits"

definition float_neg :: "64 word \<Rightarrow> 64 word" where
  "float_neg f = f XOR sign_bit"

definition float_rank :: "64 word \<Rightarrow> int" where
  "float_rank f = (if f AND sign_bit \<noteq> 0 then - uint (magnitude f) else uint (magnitude f))"

definition EncodeFloatAscending :: "bytes \<Rightarrow> 64 word \<Rightarrow> bytes" where
  "EncodeFloatAscending b f =
     (if IsNaN f then b @ [floatNaN]
      else if float_rank f = 0 then b @ [floatZero]
      else if f AND sign_bit \<noteq> 0 then EncodeUint64Ascending (b @ [floatNeg]) (NOT f)
      else EncodeUint64Ascending (b @ [floatPos]) f)"

definition EncodeFloatDescending :: "bytes \<Rightarrow> 64 word \<Rightarrow> bytes" where
  "EncodeFloatDescending b f =
     (if IsNaN f then b @ [floatNaNDesc] else EncodeFloatAscending b (float_neg f))"

definition DecodeFloatAscending :: "bytes \<Rightarrow> key_error + bytes \<times> 64 word" where
  "DecodeFloatAscending buf =
     (if PeekType buf \<noteq> Float then Inl (OtherError ''did not find marker'')
      else if hd buf = floatNaN \<or> hd buf = floatNaNDesc then Inr (tl buf, nan_bits)
      else if hd buf = floatNeg then bind_result (DecodeUint64Ascending (tl buf)) (\<lambda>(b, u). Inr (b, NOT u))
      else if hd buf = floatZero then Inr (tl buf, 0)
      else if hd buf = floatPos then DecodeUint64Ascending (tl buf)
      else Inl (OtherError ''unknown prefix''))"

definition DecodeFloatDescending :: "bytes \<Rightarrow> key_error + bytes \<times> 64 word" where
  "DecodeFloatDescending buf = bind_result (DecodeFloatAscending buf) (\<lambda>(b, r). Inr (b, float_neg r))"


subsection \<open>Codecs\<close>

lemma PeekType_markers [simp]:
  "PeekType (timeMarker # r) = Time" "PeekType (timeTZMarker # r) = TimeTZType" "PeekType (durationMarker # r) = DurationType"
  "PeekType (floatNaN # r) = Float" "PeekType (floatNeg # r) = Float" "PeekType (floatZero # r) = Float"
  "PeekType (floatPos # r) = Float" "PeekType (floatNaNDesc # r) = Float"
  "PeekType (encodedNull # r) = Null" "PeekType (encodedNullDesc # r) = Null"
  "PeekType (encodedNotNull # r) = NotNull" "PeekType (encodedNotNullDesc # r) = NotNull"
  "PeekType (bytesMarker # r) = Bytes" "PeekType (bytesDescMarker # r) = BytesDesc"
  by (simp_all add: PeekType_slow slowPeekType_def)

abbreviation sless :: "64 word \<Rightarrow> 64 word \<Rightarrow> bool" where "sless v w \<equiv> sint v < sint w"
abbreviation sgreater :: "64 word \<Rightarrow> 64 word \<Rightarrow> bool" where "sgreater v w \<equiv> sint w < sint v"

interpretation varint2: key_pair "EncodeVarintAscending []" DecodeVarintAscending "\<lambda>_. True" sless
    "EncodeVarintAscending []" DecodeVarintAscending "\<lambda>_. True" sless ..

interpretation varint3: key_pair "EncodeVarintAscending []" DecodeVarintAscending "\<lambda>_. True" sless
    "\<lambda>(v, w). EncodeVarintAscending [] v @ EncodeVarintAscending [] w"
    "\<lambda>b. bind_result (DecodeVarintAscending b) (\<lambda>(r1, v). bind_result (DecodeVarintAscending r1) (\<lambda>(r2, w). Inr (r2, (v, w))))"
    "\<lambda>(v, w). True \<and> True" "\<lambda>(v, w) (v', w'). sless v v' \<or> v = v' \<and> sless w w'" ..

interpretation varint2_desc: key_pair "EncodeVarintDescending []" DecodeVarintDescending "\<lambda>_. True" sgreater
    "EncodeVarintDescending []" DecodeVarintDescending "\<lambda>_. True" sgreater ..

interpretation varint3_desc: key_pair "EncodeVarintDescending []" DecodeVarintDescending "\<lambda>_. True" sgreater
    "\<lambda>(v, w). EncodeVarintDescending [] v @ EncodeVarintDescending [] w"
    "\<lambda>b. bind_result (DecodeVarintDescending b) (\<lambda>(r1, v). bind_result (DecodeVarintDescending r1) (\<lambda>(r2, w). Inr (r2, (v, w))))"
    "\<lambda>(v, w). True \<and> True" "\<lambda>(v, w) (v', w'). sgreater v v' \<or> v = v' \<and> sgreater w w'" ..

lemma Encode_append_ne:
  "b \<noteq> [] \<Longrightarrow> EncodeVarintAscending b v = b @ EncodeVarintAscending [] v"
  "b \<noteq> [] \<Longrightarrow> EncodeVarintDescending b v = b @ EncodeVarintDescending [] v"
  "b \<noteq> [] \<Longrightarrow> EncodeUvarintAscending b v = b @ EncodeUvarintAscending [] v"
  "b \<noteq> [] \<Longrightarrow> EncodeUvarintDescending b v = b @ EncodeUvarintDescending [] v"
  by (rule Encode_append)+

lemma encodeTime_append: "encodeTime b u n = b @ timeMarker # EncodeVarintAscending [] u @ EncodeVarintAscending [] n"
  by (simp add: encodeTime_def Encode_append_ne)

lemma decodeTime_enc: "decodeTime (encodeTime [] u n @ r) = Inr (r, u, n)"
  by (simp add: decodeTime_def encodeTime_append varint_asc.dec_enc)

lemma encodeTime_less: "sless u u' \<or> u = u' \<and> sless n n' \<Longrightarrow> encodeTime [] u n @ x < encodeTime [] u' n' @ y"
  using varint2.enc_pair_less [OF TrueI TrueI TrueI TrueI, of u u' n n' x y] by (simp add: encodeTime_append)

lemma sint_Nanosecond: "sint (word_of_int (Nanosecond t) :: 64 word) = Nanosecond t"
proof -
  have "0 \<le> Nanosecond t" "Nanosecond t < 1000000000" by (simp_all add: Nanosecond_def)
  then show ?thesis by (intro word_of_int_sint64) (simp add: int64_def)
qed

lemma time_parts: "time_Unix (Unix t) (Nanosecond t) = t"
  using div_mult_mod_eq [of t 1000000000] by (simp add: time_Unix_def Unix_def Nanosecond_def)

lemma time_less_parts: "t < u \<Longrightarrow> Unix t < Unix u \<or> Unix t = Unix u \<and> Nanosecond t < Nanosecond u"
  using zdiv_mono1 [of t u 1000000000] time_parts [of t] time_parts [of u]
  by (auto simp: Unix_def time_Unix_def)

definition wf_time :: "gotime \<Rightarrow> bool" where
  "wf_time t \<longleftrightarrow> int64 (Unix t)"

interpretation time_asc: key_codec "EncodeTimeAscending []" DecodeTimeAscending wf_time "(<)"
proof unfold_locales
  show "DecodeTimeAscending (EncodeTimeAscending [] t @ r) = Inr (r, t)" if "wf_time t" for t r
    using that by (simp add: DecodeTimeAscending_def EncodeTimeAscending_def decodeTime_enc wf_time_def word_of_int_sint64
      sint_Nanosecond time_parts)
  show "EncodeTimeAscending [] t @ x < EncodeTimeAscending [] u @ y" if "wf_time t" "wf_time u" "t < u" for t u x y
    unfolding EncodeTimeAscending_def
    using time_less_parts [OF that(3)] that(1,2)
    by (intro encodeTime_less) (auto simp: wf_time_def word_of_int_sint64 sint_Nanosecond)
qed

interpretation time_desc: key_codec "EncodeTimeDescending []" DecodeTimeDescending wf_time "(>)"
proof unfold_locales
  show "DecodeTimeDescending (EncodeTimeDescending [] t @ r) = Inr (r, t)" if "wf_time t" for t r
    using that by (simp add: DecodeTimeDescending_def EncodeTimeDescending_def decodeTime_enc wf_time_def word_of_int_sint64
      sint_Nanosecond time_parts)
  show "EncodeTimeDescending [] t @ x < EncodeTimeDescending [] u @ y" if "wf_time t" "wf_time u" "t > u" for t u x y
    unfolding EncodeTimeDescending_def
    using time_less_parts [OF that(3)] that(1,2)
    by (intro encodeTime_less) (auto simp: wf_time_def word_of_int_sint64 sint_Nanosecond sint_not)
qed


lemma sint32_word_of_int: "int32 x \<Longrightarrow> sint (word_of_int x :: 32 word) = x"
  by (simp add: int_word_sint int32_def)

lemma scast_word_of_int32: "int32 x \<Longrightarrow> (scast (word_of_int x :: 32 word) :: 64 word) = word_of_int x"
  by (metis of_int_sint sint32_word_of_int)

lemma ucast_scast32: "ucast (scast c :: 64 word) = (c :: 32 word)"
  by (rule bit_word_eqI) (auto simp: bit_simps)

lemma scast_not32: "(scast (NOT c) :: 64 word) = NOT (scast c)" for c :: "32 word"
  by (rule bit_word_eqI) (auto simp: bit_simps)

lemma encodeTimeTZ_append:
  "encodeTimeTZ b m c = b @ timeTZMarker # EncodeVarintAscending [] m @ EncodeVarintAscending [] (scast c)"
  by (simp add: encodeTimeTZ_def Encode_append_ne)

lemma decodeTimeTZ_enc: "decodeTimeTZ (encodeTimeTZ [] m c @ r) = Inr (r, m, c)"
  by (simp add: decodeTimeTZ_def encodeTimeTZ_append varint_asc.dec_enc ucast_scast32)

lemma encodeTimeTZ_less:
  "sless m m' \<or> m = m' \<and> sless (scast c) (scast c') \<Longrightarrow> encodeTimeTZ [] m c @ x < encodeTimeTZ [] m' c' @ y"
  using varint2.enc_pair_less [OF TrueI TrueI TrueI TrueI, of m m' "scast c" "scast c'" x y] by (simp add: encodeTimeTZ_append)

lemma wf_timetz_words:
  assumes "wf_timetz t"
  shows "timetz_micros t = word_of_int (TimeOfDay t + OffsetSecs t * offsetSecsToMicros)"
    "sint (timetz_micros t) = TimeOfDay t + OffsetSecs t * offsetSecsToMicros"
    "(scast (word_of_int (OffsetSecs t) :: 32 word) :: 64 word) = word_of_int (OffsetSecs t)"
    "sint (word_of_int (OffsetSecs t) :: 64 word) = OffsetSecs t" "sint (word_of_int (OffsetSecs t) :: 32 word) = OffsetSecs t"
    "sint (word_of_int (TimeOfDay t) :: 64 word) = TimeOfDay t"
proof -
  have i: "int32 (OffsetSecs t)" "int64 (OffsetSecs t)" "int64 (TimeOfDay t)" "int64 (TimeOfDay t + OffsetSecs t * offsetSecsToMicros)"
    using assms by (auto simp: wf_timetz_def int32_def int64_def)
  show e: "timetz_micros t = word_of_int (TimeOfDay t + OffsetSecs t * offsetSecsToMicros)"
    by (simp add: timetz_micros_def)
  show "sint (timetz_micros t) = TimeOfDay t + OffsetSecs t * offsetSecsToMicros"
    unfolding e by (rule word_of_int_sint64 [OF i(4)])
qed (use assms in \<open>auto simp: wf_timetz_def int32_def int64_def intro!: scast_word_of_int32 word_of_int_sint64 sint32_word_of_int\<close>)

lemma Before_micros:
  "wf_timetz t \<Longrightarrow> wf_timetz u \<Longrightarrow> Before t u \<longleftrightarrow>
     sless (timetz_micros t) (timetz_micros u) \<or> timetz_micros t = timetz_micros u \<and> OffsetSecs t < OffsetSecs u"
proof -
  assume w: "wf_timetz t" "wf_timetz u"
  have "timetz_micros t = timetz_micros u \<longleftrightarrow> sint (timetz_micros t) = sint (timetz_micros u)" by (metis of_int_sint scast_id)
  moreover have "a * 1000 < b * 1000 \<longleftrightarrow> a < b" "a * 1000 = b * 1000 \<longleftrightarrow> a = b" for a b :: int by simp_all
  ultimately show ?thesis
    by (simp only: Before_def TimeTZ_ToTime_exact [OF w(1)] TimeTZ_ToTime_exact [OF w(2)] wf_timetz_words(2) [OF w(1)]
      wf_timetz_words(2) [OF w(2)])
qed

interpretation timetz_asc: key_codec "EncodeTimeTZAscending []" DecodeTimeTZAscending wf_timetz Before
proof unfold_locales
  show "DecodeTimeTZAscending (EncodeTimeTZAscending [] t @ r) = Inr (r, t)" if "wf_timetz t" for t r
    using wf_timetz_words [OF that]
    by (simp add: DecodeTimeTZAscending_def EncodeTimeTZAscending_def decodeTimeTZ_enc TimeTZ_eq_iff)
  show "EncodeTimeTZAscending [] t @ x < EncodeTimeTZAscending [] u @ y" if "wf_timetz t" "wf_timetz u" "Before t u" for t u x y
    unfolding EncodeTimeTZAscending_def
    using that by (intro encodeTimeTZ_less) (simp add: Before_micros wf_timetz_words(3,4))
qed

interpretation timetz_desc: key_codec "EncodeTimeTZDescending []" DecodeTimeTZDescending wf_timetz "\<lambda>t u. Before u t"
proof unfold_locales
  show "DecodeTimeTZDescending (EncodeTimeTZDescending [] t @ r) = Inr (r, t)" if "wf_timetz t" for t r
    using wf_timetz_words [OF that]
    by (simp add: DecodeTimeTZDescending_def EncodeTimeTZDescending_def decodeTimeTZ_enc TimeTZ_eq_iff)
  show "EncodeTimeTZDescending [] t @ x < EncodeTimeTZDescending [] u @ y" if "wf_timetz t" "wf_timetz u" "Before u t" for t u x y
    unfolding EncodeTimeTZDescending_def
    using that by (intro encodeTimeTZ_less) (auto simp: Before_micros wf_timetz_words(3,4) scast_not32 sint_not)
qed


text \<open>Durations by their length, then months, then days; a length out of the range of \<open>int64\<close> has no faithful key.\<close>

definition wf_duration_key :: "Duration \<Rightarrow> bool" where
  "wf_duration_key d \<longleftrightarrow> wf_duration d \<and> int64 (total_nanos d)"

definition duration_before :: "Duration \<Rightarrow> Duration \<Rightarrow> bool" where
  "duration_before d x \<longleftrightarrow> total_nanos d < total_nanos x \<or> total_nanos d = total_nanos x \<and> (Months d < Months x \<or> Months d = Months x \<and> Days d < Days x)"

definition result_bytes :: "'e + bytes \<Rightarrow> bytes" where
  "result_bytes r = (case r of Inr b \<Rightarrow> b | Inl _ \<Rightarrow> [])"

abbreviation vari :: "int \<Rightarrow> bytes" where "vari x \<equiv> EncodeVarintAscending [] (word_of_int x)"
abbreviation vari_desc :: "int \<Rightarrow> bytes" where "vari_desc x \<equiv> EncodeVarintDescending [] (word_of_int x)"

lemma EncodeDuration_append:
  assumes "wf_duration_key d"
  shows "EncodeDurationAscending b d = Inr (b @ durationMarker # vari (total_nanos d) @ vari (Months d) @ vari (Days d))"
    and "EncodeDurationDescending b d = Inr (b @ durationMarker # vari_desc (total_nanos d) @ vari_desc (Months d) @ vari_desc (Days d))"
proof -
  have e: "Duration_Encode d = Inr (total_nanos d, Months d, Days d)"
    using assms by (intro Duration_Encode_total) (simp_all add: wf_duration_key_def)
  show "EncodeDurationAscending b d = Inr (b @ durationMarker # vari (total_nanos d) @ vari (Months d) @ vari (Days d))"
    by (simp add: EncodeDurationAscending_def e Encode_append_ne)
  show "EncodeDurationDescending b d = Inr (b @ durationMarker # vari_desc (total_nanos d) @ vari_desc (Months d) @ vari_desc (Days d))"
    by (simp add: EncodeDurationDescending_def e Encode_append_ne)
qed

lemma Duration_Decode_total: "wf_duration_key d \<Longrightarrow> Duration_Decode (total_nanos d) (Months d) (Days d) = d"
  using Duration_Decode_Encode [of d] Duration_Encode_total [of d] by (simp add: wf_duration_key_def)

lemma wf_duration_words:
  "wf_duration_key d \<Longrightarrow> sint (word_of_int (total_nanos d) :: 64 word) = total_nanos d \<and>
    sint (word_of_int (Months d) :: 64 word) = Months d \<and> sint (word_of_int (Days d) :: 64 word) = Days d"
  by (simp add: wf_duration_key_def wf_duration_def word_of_int_sint64)

interpretation duration_asc: key_codec "\<lambda>d. result_bytes (EncodeDurationAscending [] d)" DecodeDurationAscending
    wf_duration_key duration_before
proof unfold_locales
  show "DecodeDurationAscending (result_bytes (EncodeDurationAscending [] d) @ r) = Inr (r, d)" if "wf_duration_key d" for d r
    using that wf_duration_words [OF that]
    by (simp add: result_bytes_def EncodeDuration_append DecodeDurationAscending_def varint_asc.dec_enc Duration_Decode_total)
  show "result_bytes (EncodeDurationAscending [] d) @ x < result_bytes (EncodeDurationAscending [] e) @ y"
    if "wf_duration_key d" "wf_duration_key e" "duration_before d e" for d e x y
    using that(3) wf_duration_words [OF that(1)] wf_duration_words [OF that(2)]
      varint3.enc_pair_less [where v = "word_of_int (total_nanos d)" and w = "(word_of_int (Months d), word_of_int (Days d))"
        and v' = "word_of_int (total_nanos e)" and w' = "(word_of_int (Months e), word_of_int (Days e))", of x y]
    by (simp add: result_bytes_def EncodeDuration_append that(1,2) duration_before_def) metis
qed

interpretation duration_desc: key_codec "\<lambda>d. result_bytes (EncodeDurationDescending [] d)" DecodeDurationDescending
    wf_duration_key "\<lambda>d x. duration_before x d"
proof unfold_locales
  show "DecodeDurationDescending (result_bytes (EncodeDurationDescending [] d) @ r) = Inr (r, d)" if "wf_duration_key d" for d r
    using that wf_duration_words [OF that]
    by (simp add: result_bytes_def EncodeDuration_append DecodeDurationDescending_def varint_desc.dec_enc Duration_Decode_total)
  show "result_bytes (EncodeDurationDescending [] d) @ x < result_bytes (EncodeDurationDescending [] e) @ y"
    if "wf_duration_key d" "wf_duration_key e" "duration_before e d" for d e x y
    using that(3) wf_duration_words [OF that(1)] wf_duration_words [OF that(2)]
      varint3_desc.enc_pair_less [where v = "word_of_int (total_nanos d)" and w = "(word_of_int (Months d), word_of_int (Days d))"
        and v' = "word_of_int (total_nanos e)" and w' = "(word_of_int (Months e), word_of_int (Days e))", of x y]
    by (simp add: result_bytes_def EncodeDuration_append that(1,2) duration_before_def) metis
qed


subsection \<open>Order of floating-point numbers\<close>

lemma sign_bit_iff: "f AND sign_bit \<noteq> 0 \<longleftrightarrow> bit f 63"
  using and_exp_eq_0_iff_not_bit [of f 63] by simp

lemma magnitude_take_bit: "magnitude f = take_bit 63 f"
  by (simp add: magnitude_def take_bit_eq_mask mask_eq_exp_minus_1)

lemma bit63_iff: "bit f 63 \<longleftrightarrow> 2 ^ 63 \<le> uint f" for f :: "64 word"
proof -
  have r: "0 \<le> uint f" "uint f < 2 ^ 64" using uint_lt2p [of f] by simp_all
  then have "uint f div 2 ^ 63 = (if uint f < 2 ^ 63 then 0 else 1)"
    by (auto simp: div_pos_pos_trivial intro: int_div_pos_eq [of _ _ _ "uint f - 2 ^ 63"])
  then have "bit (uint f) 63 \<longleftrightarrow> 2 ^ 63 \<le> uint f" by (simp add: bit_iff_odd not_less)
  then show ?thesis by (simp only: bit_uint_iff) simp
qed

lemma uint_magnitude: "uint (magnitude f) = (if bit f 63 then uint f - 2 ^ 63 else uint f)"
proof -
  have "uint f < 2 ^ 64" "0 \<le> uint f" using uint_lt2p [of f] by simp_all
  moreover have "uint (magnitude f) = uint f mod 2 ^ 63"
    unfolding magnitude_take_bit unsigned_take_bit_eq by (rule take_bit_eq_mod)
  ultimately show ?thesis unfolding bit63_iff
    using int_mod_pos_eq [of "uint f" "2 ^ 63" 1 "uint f - 2 ^ 63"] by auto
qed

lemma bit_float_neg: "bit (float_neg f) n \<longleftrightarrow> bit f n \<noteq> (n = 63)"
  using bit_imp_le_length [of f n] bit_exp_iff [where 'a = "64 word", of 63 n] by (auto simp: float_neg_def bit_xor_iff)

lemma float_neg_neg [simp]: "float_neg (float_neg f) = f"
  by (rule bit_word_eqI) (auto simp: bit_float_neg)

lemma magnitude_neg [simp]: "magnitude (float_neg f) = magnitude f"
  by (rule bit_word_eqI) (auto simp: magnitude_take_bit bit_take_bit_iff bit_float_neg)

lemma float_neg_simps [simp]: "IsNaN (float_neg f) = IsNaN f" "float_rank (float_neg f) = - float_rank f"
  by (simp_all add: IsNaN_def float_rank_def sign_bit_iff bit_float_neg)

definition wf_float :: "64 word \<Rightarrow> bool" where
  "wf_float f \<longleftrightarrow> \<not> IsNaN f \<and> f \<noteq> sign_bit"

lemma float_rank_0: "float_rank f = 0 \<longleftrightarrow> f = 0 \<or> f = sign_bit"
proof -
  have "float_rank f = 0 \<longleftrightarrow> uint f = (if bit f 63 then 2 ^ 63 else 0)"
    by (simp add: float_rank_def sign_bit_iff uint_magnitude)
  also have "\<dots> \<longleftrightarrow> f = 0 \<or> f = sign_bit"
    by (auto simp: bit63_iff word_uint_eq_iff)
  finally show ?thesis .
qed

lemma EncodeFloatAscending_eq:
  "\<not> IsNaN f \<Longrightarrow> EncodeFloatAscending [] f =
     (if float_rank f = 0 then [floatZero] else if float_rank f < 0 then floatNeg # EncodeUint64Ascending [] (NOT f)
      else floatPos # EncodeUint64Ascending [] f)"
proof -
  assume "\<not> IsNaN f"
  have "float_rank f \<noteq> 0 \<Longrightarrow> float_rank f < 0 \<longleftrightarrow> bit f 63"
    unfolding float_rank_def sign_bit_iff by (simp add: less_le split: if_splits)
  then show ?thesis using \<open>\<not> IsNaN f\<close>
    by (auto simp: EncodeFloatAscending_def sign_bit_iff EncodeUint64Ascending_def)
qed

lemma EncodeFloatAscending_less:
  assumes "\<not> IsNaN f" "\<not> IsNaN g" "float_rank f < float_rank g"
  shows "EncodeFloatAscending [] f @ x < EncodeFloatAscending [] g @ y"
proof -
  have r: "float_rank h = (if bit h 63 then 2 ^ 63 - uint h else uint h)" for h
    by (simp add: float_rank_def sign_bit_iff uint_magnitude)
  consider "float_rank f < 0" "float_rank g < 0" | "float_rank f > 0" "float_rank g > 0" | "float_rank f \<le> 0" "float_rank g \<ge> 0"
    using assms(3) by linarith
  then show ?thesis
  proof cases
    case 1
    then have "bit f 63" "bit g 63" by (auto simp: r split: if_splits)
    then have "NOT f < NOT g" using assms(3) by (simp add: r word_less_def uint_not)
    then show ?thesis using 1 assms uint64_asc.enc_less [OF TrueI TrueI, of "NOT f" "NOT g"] by (simp add: EncodeFloatAscending_eq)
  next
    case 2
    then have "\<not> bit f 63" "\<not> bit g 63" using uint_lt2p [of f] uint_lt2p [of g] by (auto simp: r bit63_iff split: if_splits)
    then have "f < g" using assms(3) by (simp add: r word_less_def)
    then show ?thesis using 2 assms uint64_asc.enc_less [OF TrueI TrueI, of f g] by (simp add: EncodeFloatAscending_eq)
  next
    case 3
    then show ?thesis using assms by (auto simp: EncodeFloatAscending_eq)
  qed
qed

interpretation float_asc: key_codec "EncodeFloatAscending []" DecodeFloatAscending wf_float "\<lambda>f g. float_rank f < float_rank g"
proof unfold_locales
  show "DecodeFloatAscending (EncodeFloatAscending [] f @ r) = Inr (r, f)" if "wf_float f" for f r
    using that by (auto simp: wf_float_def EncodeFloatAscending_eq DecodeFloatAscending_def uint64_asc.dec_enc float_rank_0)
qed (simp add: wf_float_def EncodeFloatAscending_less)

interpretation float_desc: key_codec "EncodeFloatDescending []" DecodeFloatDescending "\<lambda>f. wf_float (float_neg f)"
    "\<lambda>f g. float_rank f > float_rank g"
  by unfold_locales (simp_all add: DecodeFloatDescending_def EncodeFloatDescending_def wf_float_def float_asc.dec_enc
      EncodeFloatAscending_less)

lemma float_zero: "\<not> IsNaN 0" "float_rank 0 = 0" "float_neg 0 = sign_bit"
  by (simp_all add: IsNaN_def magnitude_def float_rank_def float_neg_def)

lemma float_specials:
  "IsNaN f \<Longrightarrow> DecodeFloatAscending (EncodeFloatAscending [] f @ r) = Inr (r, nan_bits)"
  "IsNaN f \<Longrightarrow> \<not> IsNaN g \<Longrightarrow> EncodeFloatAscending [] f @ x < EncodeFloatAscending [] g @ y"
  "IsNaN f \<Longrightarrow> \<not> IsNaN g \<Longrightarrow> EncodeFloatDescending [] g @ x < EncodeFloatDescending [] f @ y"
  "DecodeFloatDescending (EncodeFloatDescending [] 0 @ r) = Inr (r, sign_bit)"
  by (simp_all add: EncodeFloatAscending_eq EncodeFloatDescending_def DecodeFloatDescending_def)
    (simp_all add: EncodeFloatAscending_def DecodeFloatAscending_def float_zero)

end
