(* ===== verification/Bit_Array.thy ===== *)
theory Bit_Array
  imports Utf8 Int_Arith "HOL-Library.List_Lexorder"
begin

unbundle bit_operations_syntax

text \<open>
  \<open>utils/bitarray\<close>: bit strings packed into 64-bit words, the first bit in the most significant
  bit of the first word, the last word padded with zeros on the right. \<open>uint\<close> values are
  natural numbers; the operations are shown to be those of the list of bits.
\<close>

abbreviation numBitsPerWord :: nat where "numBitsPerWord \<equiv> 64"

record BitArray =
  words :: "64 word list"
  lastBitsUsed :: nat

definition empty_array :: BitArray where
  "empty_array = \<lparr>words = [], lastBitsUsed = 0\<rparr>"

definition nonEmptyBitLen :: "BitArray \<Rightarrow> nat" where
  "nonEmptyBitLen d = (length (words d) - 1) * numBitsPerWord + lastBitsUsed d"

definition BitLen :: "BitArray \<Rightarrow> nat" where
  "BitLen d = (if length (words d) = 0 then 0 else nonEmptyBitLen d)"

definition IsEmpty :: "BitArray \<Rightarrow> bool" where
  "IsEmpty d \<longleftrightarrow> lastBitsUsed d = 0"

subsection \<open>Parts\<close>

datatype bitarray_error = LastBitsUsedExceeds nat | NotBinaryDigit nat | IndexOutOfRange int nat

definition EncodingParts :: "BitArray \<Rightarrow> 64 word list \<times> nat" where
  "EncodingParts d = (words d, lastBitsUsed d)"

definition FromEncodingParts :: "64 word list \<Rightarrow> nat \<Rightarrow> bitarray_error + BitArray" where
  "FromEncodingParts ws lastBits =
     (if lastBits > numBitsPerWord then Inl (LastBitsUsedExceeds lastBits) else Inr \<lparr>words = ws, lastBitsUsed = lastBits\<rparr>)"

definition mustFromEncodingParts :: "64 word list \<Rightarrow> nat \<Rightarrow> BitArray option" where
  "mustFromEncodingParts ws lastBits = (case FromEncodingParts ws lastBits of Inr ba \<Rightarrow> Some ba | Inl _ \<Rightarrow> None)"

definition SizesForBitLen :: "nat \<Rightarrow> nat \<times> nat" where
  "SizesForBitLen bitLen =
     (let numWords = ((bitLen + numBitsPerWord - 1) mod 2 ^ 64) div numBitsPerWord;
          lastBits = bitLen mod numBitsPerWord
      in (numWords, if lastBits = 0 then numBitsPerWord else lastBits))"

definition EncodingPartsForBitLen :: "nat \<Rightarrow> 64 word list \<times> nat" where
  "EncodingPartsForBitLen bitLen =
     (if bitLen = 0 then ([], 0)
      else (let (numWords, lastBits) = SizesForBitLen bitLen in (replicate numWords 0, lastBits)))"

definition MakeZeroBitArray :: "nat \<Rightarrow> BitArray option" where
  "MakeZeroBitArray bitLen = (let (a, b) = EncodingPartsForBitLen bitLen in mustFromEncodingParts a b)"

text \<open>\<open>^word(0) << (numBitsPerWord - k)\<close>: the \<open>k\<close> most significant bits.\<close>

definition high_mask :: "nat \<Rightarrow> 64 word" where
  "high_mask k = push_bit (numBitsPerWord - k) (NOT 0)"

text \<open>\<open>beyond\<close> is what the backing array holds between the length and the capacity of the slice.\<close>

definition ToWidth :: "BitArray \<Rightarrow> 64 word list \<Rightarrow> nat \<Rightarrow> BitArray option" where
  "ToWidth d beyond desiredLen =
     (let bitlen = BitLen d in
      if bitlen = desiredLen then Some d
      else if desiredLen = 0 then Some empty_array
      else if desiredLen < bitlen then
        (let (zs, lastBits) = EncodingPartsForBitLen desiredLen;
             ws = take (length zs) (words d);
             ws' = ws[length ws - 1 := (ws ! (length ws - 1)) AND high_mask lastBits]
         in mustFromEncodingParts ws' lastBits)
      else
        (let (numWords, lastBits) = SizesForBitLen desiredLen;
             ws = (if numWords \<le> length (words d) + length beyond then take numWords (words d @ beyond)
                   else words d @ replicate (numWords - length (words d)) 0)
         in mustFromEncodingParts ws lastBits))"

subsection \<open>Integers\<close>

text \<open>
  \<open>v << (a - b)\<close> and the arithmetic \<open>v >> (a - b)\<close> for unsigned \<open>a\<close> and \<open>b\<close>: when \<open>b\<close> is the greater,
  the difference wraps around to a count that shifts every bit out.
\<close>

definition shl_diff :: "64 word \<Rightarrow> nat \<Rightarrow> nat \<Rightarrow> 64 word" where
  "shl_diff v a b = (if b \<le> a then push_bit (a - b) v else 0)"

definition sar_diff :: "64 word \<Rightarrow> nat \<Rightarrow> nat \<Rightarrow> 64 word" where
  "sar_diff v a b = signed_drop_bit (if b \<le> a then a - b else 64) v"

definition MakeBitArrayFromInt64 :: "nat \<Rightarrow> 64 word \<Rightarrow> nat \<Rightarrow> BitArray option" where
  "MakeBitArrayFromInt64 bitLen val valWidth =
     (if bitLen = 0 then Some empty_array
      else case MakeZeroBitArray bitLen of None \<Rightarrow> None | Some d \<Rightarrow>
        (let n = length (words d) in
         if bitLen < valWidth then Some (d\<lparr>words := (words d)[n - 1 := shl_diff val numBitsPerWord bitLen]\<rparr>)
         else
           (let ws = (if val AND shl_diff 1 valWidth 1 \<noteq> 0
                      then replicate (n - 1) (NOT 0) @ drop (n - 1) (words d) else words d);
                v = sar_diff (shl_diff val numBitsPerWord valWidth) numBitsPerWord valWidth;
                ws1 = ws[n - 1 := push_bit (numBitsPerWord - lastBitsUsed d) v]
            in if valWidth > lastBitsUsed d
               then (if n < 2 then None else Some (d\<lparr>words := ws1[n - 2 := signed_drop_bit (lastBitsUsed d) v]\<rparr>))
               else Some (d\<lparr>words := ws1\<rparr>))))"

definition AsInt64 :: "BitArray \<Rightarrow> nat \<Rightarrow> 64 word" where
  "AsInt64 d nbits =
     (if lastBitsUsed d = 0 then 0
      else
        (let n = length (words d);
             lowPart = drop_bit (numBitsPerWord - lastBitsUsed d) (words d ! (n - 1));
             highPart = (if nbits > lastBitsUsed d \<and> n > 1 then push_bit (lastBitsUsed d) (words d ! (n - 2)) else 0);
             combined = lowPart OR highPart
         in sar_diff (shl_diff combined numBitsPerWord nbits) numBitsPerWord nbits))"

subsection \<open>Shifts\<close>

text \<open>The loops of \<open>LeftShiftAny\<close>: one assigns shifted words of the source, the other adds the bits of the neighbour.\<close>

function shift_assign :: "(64 word \<Rightarrow> 64 word) \<Rightarrow> nat \<Rightarrow> 64 word list \<Rightarrow> nat \<Rightarrow> nat \<Rightarrow> 64 word list \<Rightarrow> 64 word list" where
  "shift_assign f stop ws i j r =
     (if stop \<le> i \<or> length ws \<le> i then r else shift_assign f stop ws (i + 1) (j + 1) (r[j := f (ws ! i)]))"
  by pat_completeness auto
termination by (relation "measure (\<lambda>(f, stop, ws, i, j, r). length ws - i)") auto

declare shift_assign.simps [simp del]

function shift_or :: "(64 word \<Rightarrow> 64 word) \<Rightarrow> nat \<Rightarrow> 64 word list \<Rightarrow> nat \<Rightarrow> nat \<Rightarrow> 64 word list \<Rightarrow> 64 word list" where
  "shift_or f stop ws i j r =
     (if stop \<le> i \<or> length ws \<le> i then r else shift_or f stop ws (i + 1) (j + 1) (r[j := (r ! j) OR f (ws ! i)]))"
  by pat_completeness auto
termination by (relation "measure (\<lambda>(f, stop, ws, i, j, r). length ws - i)") auto

declare shift_or.simps [simp del]

definition LeftShiftAny :: "BitArray \<Rightarrow> int \<Rightarrow> BitArray option" where
  "LeftShiftAny d n =
     (let bitlen = BitLen d in
      if n = 0 \<or> bitlen = 0 then Some d
      else case MakeZeroBitArray bitlen of None \<Rightarrow> None | Some r \<Rightarrow>
        if n > 0 \<and> n > int bitlen \<or> n < 0 \<and> i64 (- n) > int bitlen then Some r
        else if n > 0 then
          (let srcWord = nat n div numBitsPerWord; srcShift = nat n mod numBitsPerWord;
               len = length (words d);
               r1 = shift_assign (push_bit srcShift) len (words d) srcWord 0 (words r);
               r2 = shift_or (drop_bit (numBitsPerWord - srcShift)) len (words d) (srcWord + 1) 0 r1
           in Some (r\<lparr>words := r2\<rparr>))
        else
          (let m = nat (i64 (- n) mod 2 ^ 64);
               dstWord = m div numBitsPerWord; srcShift = m mod numBitsPerWord;
               len = length (words r);
               r1 = shift_assign (drop_bit srcShift) (len - dstWord) (words d) 0 dstWord (words r);
               r2 = shift_or (push_bit (numBitsPerWord - srcShift)) (len - (dstWord + 1)) (words d) 0 (dstWord + 1) r1;
               r3 = (if length r2 > 0 then r2[length r2 - 1 := (r2 ! (length r2 - 1)) AND high_mask (lastBitsUsed r)] else r2)
           in Some (r\<lparr>words := r3\<rparr>)))"


subsection \<open>Text\<close>

text \<open>\<open>byteReprs[i]\<close> is \<open>fmt.Sprintf("%08b", i)\<close>.\<close>

definition bit_char :: "bool \<Rightarrow> char" where
  "bit_char b = (if b then CHR ''1'' else CHR ''0'')"

definition byteReprs :: "nat \<Rightarrow> string" where
  "byteReprs i = map (\<lambda>k. bit_char (bit i (7 - k))) [0..<8]"

definition Format_word :: "64 word \<Rightarrow> string" where
  "Format_word w =
     concat (map (\<lambda>s. byteReprs (unat (drop_bit s w AND 0xff))) [56, 48, 40, 32, 24, 16, 8, 0])"

definition Format :: "BitArray \<Rightarrow> string" where
  "Format d =
     (let bitLen = BitLen d; full = bitLen div numBitsPerWord; remainingBits = bitLen mod numBitsPerWord
      in concat (map Format_word (take full (words d))) @
         (if remainingBits > 0
          then map (\<lambda>i. if drop_bit i (words d ! full) AND 1 = 1 then CHR ''1'' else CHR ''0'')
                 (rev [numBitsPerWord - remainingBits..<numBitsPerWord])
          else []))"

fun Parse_loop :: "nat list \<Rightarrow> 64 word list \<Rightarrow> nat \<Rightarrow> nat \<Rightarrow> 64 word \<Rightarrow> bitarray_error + 64 word list \<times> nat \<times> nat \<times> 64 word" where
  "Parse_loop [] ws wordIdx bitIdx curWord = Inr (ws, wordIdx, bitIdx, curWord)"
| "Parse_loop (c # cs) ws wordIdx bitIdx curWord =
     (let val = word_of_int (int c - 48) :: 64 word; bitVal = val AND 1 in
      if bitVal \<noteq> val then Inl (NotBinaryDigit c)
      else
        (let curWord' = curWord OR push_bit (63 - bitIdx) bitVal;
             bitIdx' = (bitIdx + 1) mod numBitsPerWord
         in if bitIdx' = 0 then Parse_loop cs (ws[wordIdx := curWord']) (wordIdx + 1) bitIdx' 0
            else Parse_loop cs ws wordIdx bitIdx' curWord'))"

definition Parse :: "string \<Rightarrow> bitarray_error + BitArray" where
  "Parse s =
     (if length s = 0 then Inr empty_array
      else
        (let (zs, lastBits) = EncodingPartsForBitLen (length s) in
         case Parse_loop (runes s) zs 0 0 0 of
           Inl e \<Rightarrow> Inl e
         | Inr (ws, wordIdx, bitIdx, curWord) \<Rightarrow>
             FromEncodingParts (if bitIdx > 0 then ws[wordIdx := curWord] else ws) lastBits))"

subsection \<open>Bitwise operations\<close>

fun Concat_loop :: "64 word list \<Rightarrow> nat \<Rightarrow> 64 word list \<Rightarrow> nat \<Rightarrow> 64 word \<Rightarrow> 64 word list \<times> nat \<times> 64 word" where
  "Concat_loop [] rhsShift ws targetWordIdx trailingBits = (ws, targetWordIdx, trailingBits)"
| "Concat_loop (w # rs) rhsShift ws targetWordIdx trailingBits =
     (let headingBits = drop_bit rhsShift w; combinedBits = trailingBits OR headingBits
      in Concat_loop rs rhsShift (ws[targetWordIdx := combinedBits]) (targetWordIdx + 1)
           (push_bit (numBitsPerWord - rhsShift) w))"

definition Concat :: "BitArray \<Rightarrow> BitArray \<Rightarrow> BitArray" where
  "Concat lhs rhs =
     (if lastBitsUsed lhs = 0 then rhs
      else if lastBitsUsed rhs = 0 then lhs
      else
        (let n = (nonEmptyBitLen lhs + nonEmptyBitLen rhs + numBitsPerWord - 1) div numBitsPerWord;
             ws = take n (words lhs) @ replicate (n - length (words lhs)) 0
         in if lastBitsUsed lhs = numBitsPerWord
            then \<lparr>words = take n (take (length (words lhs)) ws @ words rhs), lastBitsUsed = lastBitsUsed rhs\<rparr>
            else
              (let (ws1, idx, trailingBits) =
                     Concat_loop (words rhs) (lastBitsUsed lhs) ws (length (words lhs) - 1) (ws ! (length (words lhs) - 1));
                   sum = (lastBitsUsed lhs + lastBitsUsed rhs) mod 256;
                   ws2 = (if sum > numBitsPerWord then ws1[idx := trailingBits] else ws1);
                   lastBits = sum mod numBitsPerWord
               in \<lparr>words = ws2, lastBitsUsed = (if lastBits = 0 then numBitsPerWord else lastBits)\<rparr>)))"

definition Not_array :: "BitArray \<Rightarrow> BitArray" where
  "Not_array d =
     (let ws = map NOT (words d) in
      d\<lparr>words := (if lastBitsUsed d > 0
                  then ws[length ws - 1 := (ws ! (length ws - 1)) AND high_mask (lastBitsUsed d)] else ws)\<rparr>)"

fun word_loop :: "(64 word \<Rightarrow> 64 word \<Rightarrow> 64 word) \<Rightarrow> 64 word list \<Rightarrow> nat \<Rightarrow> 64 word list \<Rightarrow> 64 word list option" where
  "word_loop f [] i res = Some res"
| "word_loop f (w # ws) i res = (if i < length res then word_loop f ws (i + 1) (res[i := f (res ! i) w]) else None)"

definition And_array :: "BitArray \<Rightarrow> BitArray \<Rightarrow> BitArray option" where
  "And_array lhs rhs = map_option (\<lambda>ws. lhs\<lparr>words := ws\<rparr>) (word_loop (AND) (words rhs) 0 (words lhs))"

definition Or_array :: "BitArray \<Rightarrow> BitArray \<Rightarrow> BitArray option" where
  "Or_array lhs rhs = map_option (\<lambda>ws. lhs\<lparr>words := ws\<rparr>) (word_loop (OR) (words rhs) 0 (words lhs))"

definition Xor_array :: "BitArray \<Rightarrow> BitArray \<Rightarrow> BitArray option" where
  "Xor_array lhs rhs = map_option (\<lambda>ws. lhs\<lparr>words := ws\<rparr>) (word_loop (XOR) (words rhs) 0 (words lhs))"

subsection \<open>Order and single bits\<close>

fun Compare_words :: "64 word list \<Rightarrow> 64 word list \<Rightarrow> int option" where
  "Compare_words (lw # ls) (rw # rs) = (if lw < rw then Some (- 1) else if lw > rw then Some 1 else Compare_words ls rs)"
| "Compare_words [] (rw # rs) = Some (- 1)"
| "Compare_words (lw # ls) [] = Some 1"
| "Compare_words [] [] = None"

definition Compare :: "BitArray \<Rightarrow> BitArray \<Rightarrow> int" where
  "Compare lhs rhs =
     (case Compare_words (words lhs) (words rhs) of
        Some c \<Rightarrow> c
      | None \<Rightarrow>
          if lastBitsUsed lhs < lastBitsUsed rhs then - 1
          else if lastBitsUsed lhs > lastBitsUsed rhs then 1
          else 0)"

definition Next :: "BitArray \<Rightarrow> BitArray" where
  "Next d =
     (if lastBitsUsed d = 0 then \<lparr>words = [0], lastBitsUsed = 1\<rparr>
      else if lastBitsUsed d < numBitsPerWord then d\<lparr>lastBitsUsed := lastBitsUsed d + 1\<rparr>
      else \<lparr>words = words d @ [0], lastBitsUsed = 1\<rparr>)"

definition GetBitAtIndex :: "BitArray \<Rightarrow> int \<Rightarrow> bitarray_error + nat" where
  "GetBitAtIndex d index =
     (if index < 0 \<or> nat index \<ge> BitLen d then Inl (IndexOutOfRange index (BitLen d))
      else if words d ! (nat index div numBitsPerWord) AND push_bit (numBitsPerWord - 1 - nat index mod numBitsPerWord) 1 \<noteq> 0
      then Inr 1 else Inr 0)"

definition SetBitAtIndex :: "BitArray \<Rightarrow> int \<Rightarrow> 64 word \<Rightarrow> bitarray_error + BitArray" where
  "SetBitAtIndex d index toSet =
     (if index < 0 \<or> nat index \<ge> BitLen d then Inl (IndexOutOfRange index (BitLen d))
      else
        (let k = nat index div numBitsPerWord; s = numBitsPerWord - 1 - nat index mod numBitsPerWord;
             ws = (words d)[k := (words d ! k) AND NOT (push_bit s 1)]
         in Inr (d\<lparr>words := ws[k := (ws ! k) OR push_bit s toSet]\<rparr>)))"


subsection \<open>The bits of an array\<close>

definition get_bit :: "64 word list \<Rightarrow> nat \<Rightarrow> bool" where
  "get_bit ws i = bit (ws ! (i div 64)) (63 - i mod 64)"

definition bits :: "BitArray \<Rightarrow> bool list" where
  "bits d = map (get_bit (words d)) [0..<BitLen d]"

definition wf_array :: "BitArray \<Rightarrow> bool" where
  "wf_array d \<longleftrightarrow>
     (if words d = [] then lastBitsUsed d = 0
      else 0 < lastBitsUsed d \<and> lastBitsUsed d \<le> 64 \<and> length (words d) < 2 ^ 57 \<and>
        (\<forall>i \<in> {BitLen d..<64 * length (words d)}. \<not> get_bit (words d) i))"

definition last_for :: "nat \<Rightarrow> nat" where
  "last_for n = (if n mod 64 = 0 then 64 else n mod 64)"

lemma length_bits [simp]: "length (bits d) = BitLen d"
  by (simp add: bits_def)

lemma nth_bits: "i < BitLen d \<Longrightarrow> bits d ! i = get_bit (words d) i"
  by (simp add: bits_def)

lemma words_for: "0 < n \<Longrightarrow> ((n + 63) div 64 - 1) * 64 + last_for n = n" "0 < last_for n" "last_for n \<le> 64"
    "0 < n \<Longrightarrow> 0 < (n + 63) div 64" "n \<le> 64 * ((n + 63) div 64)"
proof -
  define q r where "q = n div 64" and "r = n mod 64"
  have n: "n = 64 * q + r" "r < 64" by (simp_all add: q_def r_def)
  have w: "(n + 63) div 64 = (if r = 0 then q else q + 1)" using n by (cases "r = 0") simp_all
  have l: "last_for n = (if r = 0 then 64 else r)" by (simp add: last_for_def r_def)
  show "0 < n \<Longrightarrow> ((n + 63) div 64 - 1) * 64 + last_for n = n" unfolding w l using n by (cases q) auto
  show "0 < last_for n" "last_for n \<le> 64" unfolding l using n by auto
  show "0 < n \<Longrightarrow> 0 < (n + 63) div 64" "n \<le> 64 * ((n + 63) div 64)" unfolding w using n by auto
qed

lemma sizes_of: "0 < l \<Longrightarrow> l \<le> 64 \<Longrightarrow> last_for (k * 64 + l) = l" "0 < l \<Longrightarrow> l \<le> 64 \<Longrightarrow> (k * 64 + l + 63) div 64 = k + 1"
  by (cases "l = 64"; simp add: last_for_def)+

lemma wf_sizes:
  assumes "wf_array d" "words d \<noteq> []"
  shows "length (words d) = (BitLen d + 63) div 64" "lastBitsUsed d = last_for (BitLen d)" "0 < BitLen d" "BitLen d < 2 ^ 63"
    "BitLen d = (length (words d) - 1) * 64 + lastBitsUsed d" "BitLen d \<le> 64 * length (words d)" "length (words d) < 2 ^ 57"
proof -
  obtain k where k: "length (words d) = Suc k" using assms(2) by (cases "words d") auto
  have l: "0 < lastBitsUsed d" "lastBitsUsed d \<le> 64" "Suc k < 2 ^ 57" using assms k by (simp_all add: wf_array_def)
  have b: "BitLen d = k * 64 + lastBitsUsed d" using k by (simp add: BitLen_def nonEmptyBitLen_def)
  show "length (words d) = (BitLen d + 63) div 64" using l k b by simp
  show "lastBitsUsed d = last_for (BitLen d)" using l b by (cases "lastBitsUsed d = 64") (simp_all add: last_for_def)
  show "0 < BitLen d" "BitLen d < 2 ^ 63" "BitLen d = (length (words d) - 1) * 64 + lastBitsUsed d"
    "BitLen d \<le> 64 * length (words d)" "length (words d) < 2 ^ 57"
    using l k b by simp_all
qed

lemma mk_array:
  assumes "0 < n" "length ws < 2 ^ 57" "length ws = (n + 63) div 64" "\<And>i. n \<le> i \<Longrightarrow> i < 64 * length ws \<Longrightarrow> \<not> get_bit ws i"
  shows "wf_array \<lparr>words = ws, lastBitsUsed = last_for n\<rparr>" "BitLen \<lparr>words = ws, lastBitsUsed = last_for n\<rparr> = n"
    "bits \<lparr>words = ws, lastBitsUsed = last_for n\<rparr> = map (get_bit ws) [0..<n]"
proof -
  have l: "ws \<noteq> []" using words_for(4) [OF assms(1)] assms(3) by auto
  show b: "BitLen \<lparr>words = ws, lastBitsUsed = last_for n\<rparr> = n"
    using l words_for(1,4) [OF assms(1)] assms(3) by (simp add: BitLen_def nonEmptyBitLen_def)
  show "bits \<lparr>words = ws, lastBitsUsed = last_for n\<rparr> = map (get_bit ws) [0..<n]"
    by (simp add: bits_def b)
  show "wf_array \<lparr>words = ws, lastBitsUsed = last_for n\<rparr>"
    using l assms(2,4) words_for(2,3) by (simp add: wf_array_def b)
qed

lemma get_bit_replicate: "i < 64 * k \<Longrightarrow> get_bit (replicate k 0) i = False"
  by (simp add: get_bit_def less_mult_imp_div_less mult.commute)

lemma get_bit_append: "get_bit (xs @ ys) i = (if i < 64 * length xs then get_bit xs i else get_bit ys (i - 64 * length xs))"
proof (cases "i < 64 * length xs")
  case True
  then have "i div 64 < length xs" by (simp add: less_mult_imp_div_less mult.commute)
  then show ?thesis using True by (simp add: get_bit_def nth_append)
next
  case False
  define k where "k = i - 64 * length xs"
  have "i = k + 64 * length xs" using False by (simp add: k_def)
  then show ?thesis by (simp add: get_bit_def nth_append)
qed

lemma bit_high_mask: "bit (high_mask k) n \<longleftrightarrow> n < 64 \<and> 64 - k \<le> n"
  by (auto simp: high_mask_def bit_simps)

lemma SizesForBitLen_eq: "n < 2 ^ 63 \<Longrightarrow> SizesForBitLen n = ((n + 63) div 64, last_for n)"
  by (simp add: SizesForBitLen_def last_for_def add.commute)

lemma mustFromEncodingParts_eq: "k \<le> 64 \<Longrightarrow> mustFromEncodingParts ws k = Some \<lparr>words = ws, lastBitsUsed = k\<rparr>"
  by (simp add: mustFromEncodingParts_def FromEncodingParts_def)

lemma MakeZeroBitArray_eq:
  "0 < n \<Longrightarrow> n < 2 ^ 63 \<Longrightarrow> MakeZeroBitArray n = Some \<lparr>words = replicate ((n + 63) div 64) 0, lastBitsUsed = last_for n\<rparr>"
  using words_for(3) by (simp add: MakeZeroBitArray_def EncodingPartsForBitLen_def SizesForBitLen_eq mustFromEncodingParts_eq)


lemma wf_pad: "wf_array d \<Longrightarrow> BitLen d \<le> i \<Longrightarrow> i < 64 * length (words d) \<Longrightarrow> \<not> get_bit (words d) i"
  by (cases "words d = []") (auto simp: wf_array_def)

lemma wf_eq: "wf_array d \<Longrightarrow> words d \<noteq> [] \<Longrightarrow> d = \<lparr>words = words d, lastBitsUsed = last_for (BitLen d)\<rparr>"
  using wf_sizes(2) [of d] by (cases d) simp

lemma BitLen_0_iff: "wf_array d \<Longrightarrow> BitLen d = 0 \<longleftrightarrow> words d = []"
  using wf_sizes(3) [of d] by (auto simp: BitLen_def)

lemma get_bit_update:
  "k < length ws \<Longrightarrow> get_bit (ws[k := w]) i = (if i div 64 = k then bit w (63 - i mod 64) else get_bit ws i)"
  by (simp add: get_bit_def nth_list_update)

lemma last_word: "0 < n \<Longrightarrow> i < 64 * ((n + 63) div 64) \<Longrightarrow> i div 64 = (n + 63) div 64 - 1 \<or> i < n"
  "0 < n \<Longrightarrow> i div 64 = (n + 63) div 64 - 1 \<Longrightarrow> 64 - last_for n \<le> 63 - i mod 64 \<longleftrightarrow> i < n"
proof -
  define q where "q = (n + 63) div 64 - 1"
  assume n: "0 < n"
  then have e: "n = q * 64 + last_for n" "(n + 63) div 64 = q + 1" using words_for(1,4) [of n] by (simp_all add: q_def)
  define a b where "a = i div 64" and "b = i mod 64"
  have i: "i = a * 64 + b" "b < 64" by (simp_all add: a_def b_def)
  show "i < 64 * ((n + 63) div 64) \<Longrightarrow> i div 64 = (n + 63) div 64 - 1 \<or> i < n"
    unfolding e(2) a_def [symmetric] using i e(1) words_for(2) [of n] by simp linarith
  show "i div 64 = (n + 63) div 64 - 1 \<Longrightarrow> 64 - last_for n \<le> 63 - i mod 64 \<longleftrightarrow> i < n"
    unfolding e(2) a_def [symmetric] b_def [symmetric] using i e(1) words_for(2,3) [of n] by simp linarith
qed

lemma diff_63_less [simp]: "63 - (m :: nat) < 64"
  by linarith

lemma get_bit_masked:
  assumes "0 < n" "length ws = (n + 63) div 64"
  shows "i < 64 * length ws \<Longrightarrow>
    get_bit (ws[length ws - 1 := (ws ! (length ws - 1)) AND high_mask (last_for n)]) i \<longleftrightarrow> i < n \<and> get_bit ws i"
proof -
  assume i: "i < 64 * length ws"
  have k: "length ws - 1 < length ws" using words_for(4) [OF assms(1)] assms(2) by simp
  show ?thesis
    unfolding get_bit_update [OF k]
    using last_word [OF assms(1), of i] i assms(2)
    by (auto simp: bit_and_iff bit_high_mask get_bit_def)
qed

subsection \<open>Refinement of the operations\<close>

lemma MakeZero_bits:
  assumes "n < 2 ^ 62"
  obtains d where "MakeZeroBitArray n = Some d" "wf_array d" "bits d = replicate n False" "BitLen d = n"
    "0 < n \<Longrightarrow> d = \<lparr>words = replicate ((n + 63) div 64) 0, lastBitsUsed = last_for n\<rparr>"
proof (cases "n = 0")
  case True
  show ?thesis
    by (rule that [of "\<lparr>words = [], lastBitsUsed = 0\<rparr>"])
      (use True in \<open>simp_all add: MakeZeroBitArray_def EncodingPartsForBitLen_def mustFromEncodingParts_eq wf_array_def bits_def BitLen_def\<close>)
next
  case False
  let ?ws = "replicate ((n + 63) div 64) (0 :: 64 word)"
  have z: "\<not> get_bit ?ws i" if "i < 64 * ((n + 63) div 64)" for i using that by (simp add: get_bit_replicate)
  note m = mk_array [of n ?ws]
  have "get_bit ?ws i = False" if "i < n" for i using z [of i] that words_for(5) [of n] by simp
  then have "map (get_bit ?ws) [0..<n] = replicate n False" by (intro nth_equalityI) simp_all
  then show ?thesis
    using False assms z m by (intro that [of "\<lparr>words = ?ws, lastBitsUsed = last_for n\<rparr>"]) (simp_all add: MakeZeroBitArray_eq)
qed

lemma bitsI:
  assumes "d = \<lparr>words = ws, lastBitsUsed = last_for n\<rparr>" "0 < n" "length ws < 2 ^ 57" "length ws = (n + 63) div 64"
    and "\<And>i. i < 64 * length ws \<Longrightarrow> get_bit ws i \<longleftrightarrow> i < n \<and> f i"
  shows "wf_array d" "bits d = map f [0..<n]" "BitLen d = n"
proof -
  have p: "\<not> get_bit ws i" if "n \<le> i" "i < 64 * length ws" for i using assms(5) [OF that(2)] that(1) by simp
  have "get_bit ws i = f i" if "i < n" for i using assms(5) [of i] that words_for(5) [of n] assms(4) by simp
  then have "map (get_bit ws) [0..<n] = map f [0..<n]" by simp
  then show "wf_array d" "bits d = map f [0..<n]" "BitLen d = n"
    using mk_array [OF assms(2-4) p] assms(1) by simp_all
qed

lemma div_64_less: "i < 64 * n \<Longrightarrow> i div 64 < n" for i n :: nat
  by (simp add: less_mult_imp_div_less mult.commute)

lemma empty_bits: "wf_array empty_array" "bits empty_array = []" "BitLen empty_array = 0"
  by (simp_all add: empty_array_def wf_array_def bits_def BitLen_def)

lemma wf_Nil: "wf_array d \<Longrightarrow> words d = [] \<Longrightarrow> d = empty_array"
  by (cases d) (simp add: wf_array_def empty_array_def)

lemma Not_bits:
  assumes "wf_array d"
  shows "wf_array (Not_array d) \<and> bits (Not_array d) = map Not (bits d)"
proof (cases "words d = []")
  case True
  then show ?thesis using assms wf_Nil [of d] by (simp add: Not_array_def empty_array_def wf_array_def bits_def BitLen_def)
next
  case False
  note z = wf_sizes [OF assms(1) False]
  let ?ws = "map NOT (words d)"
  have l: "length ?ws = (BitLen d + 63) div 64" using z(1) by simp
  have e: "Not_array d = \<lparr>words = ?ws[length ?ws - 1 := (?ws ! (length ?ws - 1)) AND high_mask (last_for (BitLen d))],
      lastBitsUsed = last_for (BitLen d)\<rparr>"
    using z(2) words_for(2) [of "BitLen d"] by (cases d) (simp add: Not_array_def Let_def)
  have "get_bit (?ws[length ?ws - 1 := (?ws ! (length ?ws - 1)) AND high_mask (last_for (BitLen d))]) i \<longleftrightarrow>
      i < BitLen d \<and> \<not> get_bit (words d) i" if "i < 64 * length ?ws" for i
    using get_bit_masked [OF z(3) l that] that div_64_less [of i "length (words d)"]
    by (auto simp: get_bit_def bit_not_iff)
  from bitsI [OF e z(3) _ _ this] l z(7) show ?thesis by (simp add: bits_def)
qed


lemma word_loop_eq:
  "i + length ws \<le> length res \<Longrightarrow>
   \<exists>r. word_loop f ws i res = Some r \<and> length r = length res \<and>
     (\<forall>k < length res. r ! k = (if i \<le> k \<and> k < i + length ws then f (res ! k) (ws ! (k - i)) else res ! k))"
proof (induction ws arbitrary: i res)
  case (Cons w ws)
  obtain r where r: "word_loop f ws (i + 1) (res[i := f (res ! i) w]) = Some r" "length r = length res"
    "\<And>k. k < length res \<Longrightarrow> r ! k = (if i + 1 \<le> k \<and> k < i + 1 + length ws then f (res[i := f (res ! i) w] ! k) (ws ! (k - (i + 1)))
       else res[i := f (res ! i) w] ! k)"
    using Cons.IH [of "i + 1" "res[i := f (res ! i) w]"] Cons.prems by auto
  have "r ! k = (if i \<le> k \<and> k < i + length (w # ws) then f (res ! k) ((w # ws) ! (k - i)) else res ! k)" if "k < length res" for k
    using r(3) [OF that] that by (cases "k = i") (auto simp: nth_Cons')
  then show ?case using r Cons.prems by auto
qed auto

lemma bitwise_bits:
  assumes "wf_array a" "wf_array b" "BitLen a = BitLen b"
    and "\<And>x y n. bit (f x y) n \<longleftrightarrow> n < 64 \<and> g (bit x n) (bit y n)" "\<not> g False False"
  shows "\<exists>d. map_option (\<lambda>ws. a\<lparr>words := ws\<rparr>) (word_loop f (words b) 0 (words a)) = Some d \<and>
    wf_array d \<and> bits d = map2 g (bits a) (bits b)"
proof (cases "words a = []")
  case True
  then have "words b = []" using assms(1-3) BitLen_0_iff [of a] BitLen_0_iff [of b] by simp
  then show ?thesis using True wf_Nil [OF assms(1)] assms(1) by (simp add: bits_def BitLen_def empty_array_def)
next
  case False
  then have "words b \<noteq> []" using assms(1-3) BitLen_0_iff [of a] BitLen_0_iff [of b] by simp
  note z = wf_sizes [OF assms(1) False] and zb = wf_sizes [OF assms(2) this]
  have l: "length (words b) = length (words a)" using z(1) zb(1) assms(3) by simp
  obtain ws where ws: "word_loop f (words b) 0 (words a) = Some ws" "length ws = length (words a)"
    "\<And>k. k < length (words a) \<Longrightarrow> ws ! k = f (words a ! k) (words b ! k)"
    using word_loop_eq [of 0 "words b" "words a" f] l by auto
  have e: "a\<lparr>words := ws\<rparr> = \<lparr>words = ws, lastBitsUsed = last_for (BitLen a)\<rparr>" using z(2) by (cases a) simp
  have "get_bit ws i \<longleftrightarrow> i < BitLen a \<and> g (get_bit (words a) i) (get_bit (words b) i)" if "i < 64 * length ws" for i
    using that ws(2,3) div_64_less [of i "length ws"] wf_pad [OF assms(1), of i] wf_pad [OF assms(2), of i] l assms(3-5)
    by (cases "i < BitLen a") (simp_all add: get_bit_def)
  from bitsI [OF e z(3) _ _ this] have "wf_array (a\<lparr>words := ws\<rparr>)" "bits (a\<lparr>words := ws\<rparr>) = map2 g (bits a) (bits b)"
    using z(1,7) ws(2) assms(3) by (simp_all add: bits_def map2_map_map)
  then show ?thesis using ws(1) by simp
qed


lemma get_bit_take: "i < 64 * k \<Longrightarrow> get_bit (take k ws) i = get_bit ws i"
  by (simp add: get_bit_def div_64_less)

lemma words_mono: "m \<le> n \<Longrightarrow> (m + 63) div 64 \<le> (n + 63) div 64" for m n :: nat
  by (simp add: div_le_mono)

lemma wf_get: "wf_array d \<Longrightarrow> i < 64 * length (words d) \<and> get_bit (words d) i \<longleftrightarrow> i < BitLen d \<and> get_bit (words d) i"
proof -
  assume w: "wf_array d"
  have "BitLen d \<le> 64 * length (words d)" using wf_sizes(6) [OF w] by (cases "words d = []") (simp_all add: BitLen_def)
  then show ?thesis using wf_pad [OF w, of i] by (cases "i < BitLen d") auto
qed

lemma ToWidth_bits:
  assumes "wf_array d" "n < 2 ^ 62" "\<forall>w \<in> set beyond. w = 0"
  shows "\<exists>e. ToWidth d beyond n = Some e \<and> wf_array e \<and> bits e = take n (bits d) @ replicate (n - BitLen d) False"
proof -
  consider "n = BitLen d" | "n = 0" "n \<noteq> BitLen d" | "0 < n" "n < BitLen d" | "BitLen d < n" by linarith
  then show ?thesis
  proof cases
    case 1
    then show ?thesis using assms(1) by (simp add: ToWidth_def)
  next
    case 2
    then show ?thesis by (simp add: ToWidth_def empty_bits)
  next
    case 3
    then have "words d \<noteq> []" by (auto simp: BitLen_def)
    note z = wf_sizes [OF assms(1) this]
    let ?ws = "take ((n + 63) div 64) (words d)"
    have l: "length ?ws = (n + 63) div 64" using words_mono [of n "BitLen d"] 3 z(1) by simp
    let ?ws' = "?ws[length ?ws - 1 := (?ws ! (length ?ws - 1)) AND high_mask (last_for n)]"
    have e: "ToWidth d beyond n = Some \<lparr>words = ?ws', lastBitsUsed = last_for n\<rparr>"
      using 3 assms(2) words_for(3) [of n]
      by (simp add: ToWidth_def Let_def EncodingPartsForBitLen_def SizesForBitLen_eq mustFromEncodingParts_eq)
    have "get_bit ?ws' i \<longleftrightarrow> i < n \<and> get_bit (words d) i" if "i < 64 * length ?ws'" for i
      using get_bit_masked [OF 3(1) l, of i] that get_bit_take [of i "(n + 63) div 64" "words d"] l by auto
    from bitsI [OF refl 3(1) _ _ this] show ?thesis
      using e l z(1,7) words_mono [of n "BitLen d"] 3 by (simp add: bits_def take_map take_upt)
  next
    case 4
    then have n: "0 < n" by simp
    define ws where "ws = (if (n + 63) div 64 \<le> length (words d) + length beyond then take ((n + 63) div 64) (words d @ beyond)
        else words d @ replicate ((n + 63) div 64 - length (words d)) 0)"
    have ld: "length (words d) \<le> (n + 63) div 64"
      using wf_sizes(1) [OF assms(1)] words_mono [of "BitLen d" n] 4 by (cases "words d = []") auto
    then have l: "length ws = (n + 63) div 64" by (auto simp: ws_def)
    have e: "ToWidth d beyond n = Some \<lparr>words = ws, lastBitsUsed = last_for n\<rparr>"
      using 4 assms(2) words_for(3) [of n] by (simp add: ToWidth_def Let_def SizesForBitLen_eq mustFromEncodingParts_eq ws_def)
    have "get_bit beyond i = False" if "i < 64 * length beyond" for i
    proof -
      have "beyond ! (i div 64) = 0" using assms(3) nth_mem [OF div_64_less [OF that]] by blast
      then show ?thesis by (simp add: get_bit_def)
    qed
    then have "get_bit ws i \<longleftrightarrow> i < 64 * length (words d) \<and> get_bit (words d) i" if "i < 64 * length ws" for i
      using that l ld by (auto simp: ws_def get_bit_take get_bit_append get_bit_replicate)
    then have g: "get_bit ws i \<longleftrightarrow> i < n \<and> (i < BitLen d \<and> get_bit (words d) i)" if "i < 64 * length ws" for i
      using that wf_get [OF assms(1), of i] 4 by auto
    have "map (\<lambda>i. i < BitLen d \<and> get_bit (words d) i) [0..<n] = bits d @ replicate (n - BitLen d) False"
      using 4 by (intro nth_equalityI) (auto simp: nth_append nth_bits)
    then show ?thesis
      using e bitsI [OF refl n _ l g] l assms(2) 4 by simp
  qed
qed

lemma Next_bits:
  assumes "wf_array d" "BitLen d < 2 ^ 61"
  shows "wf_array (Next d) \<and> bits (Next d) = bits d @ [False]"
proof -
  have m: "map (\<lambda>i. i < BitLen d \<and> get_bit (words d) i) [0..<BitLen d + 1] = bits d @ [False]"
    by (intro nth_equalityI) (auto simp: nth_append nth_bits)
  consider "words d = []" | "words d \<noteq> []" "lastBitsUsed d < 64" | "words d \<noteq> []" "lastBitsUsed d = 64"
  proof -
    have "words d \<noteq> [] \<Longrightarrow> lastBitsUsed d \<le> 64" using assms(1) by (simp add: wf_array_def)
    then show ?thesis using that by (metis nat_less_le)
  qed
  then show ?thesis
  proof cases
    case 1
    then show ?thesis using wf_Nil [OF assms(1)]
      by (simp add: Next_def empty_array_def wf_array_def bits_def BitLen_def nonEmptyBitLen_def get_bit_def)
  next
    case 2
    note z = wf_sizes [OF assms(1) 2(1)]
    have "last_for (BitLen d + 1) = lastBitsUsed d + 1" "(BitLen d + 1 + 63) div 64 = length (words d)"
      using sizes_of [of "lastBitsUsed d + 1" "length (words d) - 1"] 2 unfolding z(5) by (simp_all add: add.assoc)
    moreover have "0 < lastBitsUsed d" using assms(1) 2(1) by (simp add: wf_array_def)
    then have "Next d = d\<lparr>lastBitsUsed := lastBitsUsed d + 1\<rparr>" using 2 by (simp add: Next_def)
    then have "Next d = \<lparr>words = words d, lastBitsUsed = lastBitsUsed d + 1\<rparr>" by (cases d) simp
    ultimately have e: "Next d = \<lparr>words = words d, lastBitsUsed = last_for (BitLen d + 1)\<rparr>" "length (words d) = (BitLen d + 1 + 63) div 64"
      by simp_all
    have "get_bit (words d) i \<longleftrightarrow> i < BitLen d + 1 \<and> (i < BitLen d \<and> get_bit (words d) i)" if "i < 64 * length (words d)" for i
      using that wf_get [OF assms(1), of i] by auto
    from bitsI [OF e(1) _ z(7) e(2) this] m show ?thesis by simp
  next
    case 3
    note z = wf_sizes [OF assms(1) 3(1)]
    have "BitLen d = length (words d) * 64" using z(5) 3 by (cases "words d") simp_all
    then have "last_for (BitLen d + 1) = 1" "(BitLen d + 1 + 63) div 64 = length (words d) + 1"
      using sizes_of [of 1 "length (words d)"] by simp_all
    then have e: "Next d = \<lparr>words = words d @ [0], lastBitsUsed = last_for (BitLen d + 1)\<rparr>"
      "length (words d @ [0]) = (BitLen d + 1 + 63) div 64"
      using 3 by (simp_all add: Next_def)
    have "get_bit (words d @ [0]) i \<longleftrightarrow> i < 64 * length (words d) \<and> get_bit (words d) i" if "i < 64 * length (words d @ [0])" for i
      using that get_bit_replicate [of "i - 64 * length (words d)" 1] by (auto simp: get_bit_append)
    then have "get_bit (words d @ [0]) i \<longleftrightarrow> i < BitLen d + 1 \<and> (i < BitLen d \<and> get_bit (words d) i)" if "i < 64 * length (words d @ [0])" for i
      using that wf_get [OF assms(1), of i] by auto
    moreover have "length (words d @ [0]) < 2 ^ 57" unfolding e(2) using assms(2) by simp
    ultimately show ?thesis using bitsI [OF e(1) _ _ e(2)] m by simp
  qed
qed

lemma GetBitAtIndex_bits:
  assumes "wf_array d"
  shows "GetBitAtIndex d index =
    (if 0 \<le> index \<and> nat index < BitLen d then Inr (of_bool (bits d ! nat index)) else Inl (IndexOutOfRange index (BitLen d)))"
  by (auto simp: GetBitAtIndex_def and_exp_eq_0_iff_not_bit nth_bits get_bit_def)

lemma SetBitAtIndex_bits:
  assumes "wf_array d" "0 \<le> index" "nat index < BitLen d"
  shows "\<exists>e. SetBitAtIndex d index (of_bool b) = Inr e \<and> wf_array e \<and> bits e = (bits d)[nat index := b]"
proof -
  have ne: "words d \<noteq> []" using assms(3) by (auto simp: BitLen_def)
  note z = wf_sizes [OF assms(1) ne]
  define k s where "k = nat index div 64" and "s = 63 - nat index mod 64"
  have k: "k < length (words d)" using assms(3) z(6) by (auto simp: k_def intro!: div_64_less)
  let ?w = "((words d ! k) AND NOT (push_bit s 1)) OR push_bit s (of_bool b)"
  have e: "SetBitAtIndex d index (of_bool b) = Inr \<lparr>words = (words d)[k := ?w], lastBitsUsed = last_for (BitLen d)\<rparr>"
    using assms(2,3) z(2) k by (cases d) (simp add: SetBitAtIndex_def Let_def k_def s_def)
  have w: "bit ?w n \<longleftrightarrow> (if n = s then b else bit (words d ! k) n)" if "n < 64" for n
    using that by (cases b) (auto simp: bit_simps s_def)
  have "get_bit ((words d)[k := ?w]) i \<longleftrightarrow> i < BitLen d \<and> (if i = nat index then b else get_bit (words d) i)"
    if "i < 64 * length ((words d)[k := ?w])" for i
  proof -
    have "63 - i mod 64 = s \<longleftrightarrow> i mod 64 = nat index mod 64"
      using mod_less_divisor [of 64 i] mod_less_divisor [of 64 "nat index"] unfolding s_def by linarith
    moreover have "i = nat index \<longleftrightarrow> i div 64 = k \<and> i mod 64 = nat index mod 64"
      unfolding k_def by (metis div_mult_mod_eq)
    ultimately show ?thesis
      using that assms(3) w [of "63 - i mod 64"] wf_get [OF assms(1), of i] by (auto simp: get_bit_update [OF k]) (auto simp: get_bit_def)
  qed
  note b = bitsI [OF refl z(3) _ _ this]
  have "map (\<lambda>i. if i = nat index then b else get_bit (words d) i) [0..<BitLen d] = (bits d)[nat index := b]"
    by (intro nth_equalityI) (auto simp: nth_bits nth_list_update)
  then show ?thesis using b e z(1,7) by simp
qed

end
