(* ===== verification/Bit_Array_Ops.thy ===== *)
theory Bit_Array_Ops
  imports Bit_Array
begin

unbundle bit_operations_syntax

text \<open>
  Shifts and concatenation of bit arrays. Both move bits across word boundaries; the lemmas show
  that the words they build hold the bits of the shifted or concatenated list.
\<close>

subsection \<open>Shifts\<close>

lemma bit_drop_at: "r < 64 \<Longrightarrow> bit (drop_bit s w) (63 - r) \<longleftrightarrow> s \<le> r \<and> bit w (63 - (r - s))" for w :: "64 word"
  using bit_imp_le_length [of w "s + (63 - r)"] by (cases "s \<le> r") (auto simp: bit_drop_bit_eq add.commute)

lemma bit_push_at: "r < 64 \<Longrightarrow> bit (push_bit s w) (63 - r) \<longleftrightarrow> r + s < 64 \<and> bit w (63 - (r + s))" for w :: "64 word"
  by (auto simp: bit_push_bit_iff diff_diff_eq)

lemma get_bit_at: "c < 64 \<Longrightarrow> get_bit ws (k * 64 + c) = bit (ws ! k) (63 - c)"
  by (simp add: get_bit_def)

lemma less_words: "c < 64 \<Longrightarrow> k * 64 + c < 64 * n \<longleftrightarrow> k < (n :: nat)"
  by linarith

lemma shift_assign_eq:
  "length (shift_assign f stop ws i j r) = length r \<and>
   (\<forall>k < length r. shift_assign f stop ws i j r ! k =
     (if j \<le> k \<and> k + i < j + min stop (length ws) then f (ws ! (i + k - j)) else r ! k))"
proof (induction f stop ws i j r rule: shift_assign.induct)
  case (1 f stop ws i j r)
  show ?case
  proof (cases "stop \<le> i \<or> length ws \<le> i")
    case True
    then show ?thesis by (subst shift_assign.simps) (auto simp: shift_assign.simps)
  next
    case False
    have e: "shift_assign f stop ws i j r = shift_assign f stop ws (i + 1) (j + 1) (r[j := f (ws ! i)])"
      using False by (subst shift_assign.simps) simp
    note ih = "1.IH" [OF False]
    have "shift_assign f stop ws i j r ! k = (if j \<le> k \<and> k + i < j + min stop (length ws) then f (ws ! (i + k - j)) else r ! k)"
      if k: "k < length r" for k
      unfolding e using ih k False by (cases "k = j") auto
    then show ?thesis using ih unfolding e by simp
  qed
qed

lemma shift_or_eq:
  "length (shift_or f stop ws i j r) = length r \<and>
   (\<forall>k < length r. shift_or f stop ws i j r ! k =
     (if j \<le> k \<and> k + i < j + min stop (length ws) then r ! k OR f (ws ! (i + k - j)) else r ! k))"
proof (induction f stop ws i j r rule: shift_or.induct)
  case (1 f stop ws i j r)
  show ?case
  proof (cases "stop \<le> i \<or> length ws \<le> i")
    case True
    then show ?thesis by (subst shift_or.simps) (auto simp: shift_or.simps)
  next
    case False
    have e: "shift_or f stop ws i j r = shift_or f stop ws (i + 1) (j + 1) (r[j := r ! j OR f (ws ! i)])"
      using False by (subst shift_or.simps) simp
    note ih = "1.IH" [OF False]
    have "shift_or f stop ws i j r ! k = (if j \<le> k \<and> k + i < j + min stop (length ws) then r ! k OR f (ws ! (i + k - j)) else r ! k)"
      if k: "k < length r" for k
      unfolding e using ih k False by (cases "k = j") auto
    then show ?thesis using ih unfolding e by simp
  qed
qed

text \<open>The bits of a list of words moved by \<open>n\<close> places.\<close>

lemma shifted_left:
  assumes "i < 64 * length ws"
  shows "get_bit (shift_or (drop_bit (64 - n mod 64)) (length ws) ws (n div 64 + 1) 0
      (shift_assign (push_bit (n mod 64)) (length ws) ws (n div 64) 0 (replicate (length ws) 0))) i \<longleftrightarrow>
    i + n < 64 * length ws \<and> get_bit ws (i + n)"
proof -
  define q c sw ss where "q = i div 64" and "c = i mod 64" and "sw = n div 64" and "ss = n mod 64"
  have i: "i = q * 64 + c" "c < 64" and n: "n = sw * 64 + ss" "ss < 64" by (simp_all add: q_def c_def sw_def ss_def)
  have q: "q < length ws" using assms by (auto simp: q_def intro: div_64_less)
  let ?r1 = "shift_assign (push_bit ss) (length ws) ws sw 0 (replicate (length ws) 0)"
  let ?r2 = "shift_or (drop_bit (64 - ss)) (length ws) ws (sw + 1) 0 ?r1"
  have "?r1 ! q = (if q + sw < length ws then push_bit ss (ws ! (sw + q)) else 0)"
    using shift_assign_eq [of "push_bit ss" "length ws" ws sw 0 "replicate (length ws) 0"] q by simp
  then have w: "?r2 ! q = (if q + sw < length ws then push_bit ss (ws ! (sw + q)) else 0) OR
      (if q + sw + 1 < length ws then drop_bit (64 - ss) (ws ! (sw + q + 1)) else 0)"
    using shift_or_eq [of "drop_bit (64 - ss)" "length ws" ws "sw + 1" 0 ?r1]
      shift_assign_eq [of "push_bit ss" "length ws" ws sw 0 "replicate (length ws) 0"] q by (simp add: add.commute)
  have g: "get_bit ?r2 i = bit (?r2 ! q) (63 - c)" by (simp add: get_bit_def q_def c_def)
  show ?thesis
  proof (cases "c + ss < 64")
    case True
    have e: "i + n = (sw + q) * 64 + (c + ss)" using i n by simp
    have "get_bit ws (i + n) = bit (ws ! (sw + q)) (63 - (c + ss))" "i + n < 64 * length ws \<longleftrightarrow> sw + q < length ws"
      unfolding e using get_bit_at less_words True by blast+
    then show ?thesis
      using g w True i(2) n(2) unfolding sw_def ss_def by (auto simp: bit_or_iff bit_push_at bit_drop_at)
  next
    case False
    then have e: "i + n = (sw + q + 1) * 64 + (c + ss - 64)" using i n by simp
    have l: "c + ss - 64 < 64" using i(2) n(2) by simp
    have "get_bit ws (i + n) = bit (ws ! (sw + q + 1)) (63 - (c + ss - 64))" "i + n < 64 * length ws \<longleftrightarrow> sw + q + 1 < length ws"
      unfolding e using get_bit_at [OF l] less_words [OF l] by blast+
    moreover have "c - (64 - ss) = c + ss - 64" using n(2) by simp
    ultimately show ?thesis
      using g w False i(2) n(2) unfolding sw_def ss_def by (auto simp: bit_or_iff bit_push_at bit_drop_at)
  qed
qed


lemma shifted_right:
  assumes "i < 64 * length ws" "length ws = L"
  shows "get_bit (shift_or (push_bit (64 - n mod 64)) (L - (n div 64 + 1)) ws 0 (n div 64 + 1)
      (shift_assign (drop_bit (n mod 64)) (L - n div 64) ws 0 (n div 64) (replicate L 0))) i \<longleftrightarrow>
    n \<le> i \<and> get_bit ws (i - n)"
proof -
  define q c dw ss where "q = i div 64" and "c = i mod 64" and "dw = n div 64" and "ss = n mod 64"
  have i: "i = q * 64 + c" "c < 64" and n: "n = dw * 64 + ss" "ss < 64" by (simp_all add: q_def c_def dw_def ss_def)
  have q: "q < L" using assms by (auto simp: q_def intro: div_64_less)
  let ?r1 = "shift_assign (drop_bit ss) (L - dw) ws 0 dw (replicate L 0)"
  let ?r2 = "shift_or (push_bit (64 - ss)) (L - (dw + 1)) ws 0 (dw + 1) ?r1"
  have "?r1 ! q = (if dw \<le> q then drop_bit ss (ws ! (q - dw)) else 0)"
    using shift_assign_eq [of "drop_bit ss" "L - dw" ws 0 dw "replicate L 0"] q assms(2) by auto
  then have w: "?r2 ! q = (if dw \<le> q then drop_bit ss (ws ! (q - dw)) else 0) OR
      (if dw + 1 \<le> q then push_bit (64 - ss) (ws ! (q - dw - 1)) else 0)"
    using shift_or_eq [of "push_bit (64 - ss)" "L - (dw + 1)" ws 0 "dw + 1" ?r1]
      shift_assign_eq [of "drop_bit ss" "L - dw" ws 0 dw "replicate L 0"] q assms(2) by auto
  have g: "get_bit ?r2 i = bit (?r2 ! q) (63 - c)" by (simp add: get_bit_def q_def c_def)
  show ?thesis
  proof (cases "ss \<le> c")
    case True
    show ?thesis
    proof (cases "dw \<le> q")
      case t: True
      then have e: "i - n = (q - dw) * 64 + (c - ss)" "n \<le> i" using i n True by (auto simp: diff_mult_distrib)
      have l: "c - ss < 64" using i(2) by simp
      have "get_bit ws (i - n) = bit (ws ! (q - dw)) (63 - (c - ss))" unfolding e(1) by (rule get_bit_at [OF l])
      then show ?thesis using g w True t e(2) i(2) n(2) unfolding dw_def ss_def by (auto simp: bit_or_iff bit_push_at bit_drop_at)
    next
      case f: False
      then have "\<not> n \<le> i" using i n True by linarith
      then show ?thesis using g w f unfolding dw_def ss_def by simp
    qed
  next
    case False
    show ?thesis
    proof (cases "dw + 1 \<le> q")
      case t: True
      then obtain p where p: "q = dw + 1 + p" using le_Suc_ex by blast
      then have e: "i - n = (q - dw - 1) * 64 + (64 + c - ss)" "n \<le> i" using i n False by auto
      have l: "64 + c - ss < 64" using False n(2) by simp
      have "get_bit ws (i - n) = bit (ws ! (q - dw - 1)) (63 - (64 + c - ss))" unfolding e(1) by (rule get_bit_at [OF l])
      then show ?thesis using g w False t e(2) i(2) n(2) unfolding dw_def ss_def by (auto simp: bit_or_iff bit_push_at bit_drop_at)
    next
      case f: False
      then have "\<not> n \<le> i" using i n False by linarith
      then show ?thesis using g w f False i(2) unfolding dw_def ss_def by (auto simp: bit_drop_at)
    qed
  qed
qed


definition shift_bits :: "bool list \<Rightarrow> int \<Rightarrow> bool list" where
  "shift_bits bs n =
     (let k = min (length bs) (nat \<bar>n\<bar>)
      in if n \<ge> 0 then drop k bs @ replicate k False else replicate k False @ take (length bs - k) bs)"

lemma shift_bits_map:
  assumes "length bs = b"
  shows "n \<ge> 0 \<Longrightarrow> shift_bits bs n = map (\<lambda>i. i + nat n < b \<and> bs ! (i + nat n)) [0..<b]"
    and "n < 0 \<Longrightarrow> shift_bits bs n = map (\<lambda>i. nat (- n) \<le> i \<and> bs ! (i - nat (- n))) [0..<b]"
proof -
  show "n \<ge> 0 \<Longrightarrow> shift_bits bs n = map (\<lambda>i. i + nat n < b \<and> bs ! (i + nat n)) [0..<b]"
    using assms by (intro nth_equalityI) (auto simp: shift_bits_def Let_def nth_append min_def add.commute)
  assume n: "n < 0"
  then have e: "shift_bits bs n = (if b \<le> nat (- n) then replicate b False else replicate (nat (- n)) False @ take (b - nat (- n)) bs)"
    using assms by (simp add: shift_bits_def Let_def min_def)
  show "shift_bits bs n = map (\<lambda>i. nat (- n) \<le> i \<and> bs ! (i - nat (- n))) [0..<b]"
    unfolding e using assms by (intro nth_equalityI) (auto simp: nth_append)
qed

lemma i64_neg: "int64 n \<Longrightarrow> i64 (- n) = (if n = MinInt64 then MinInt64 else - n)"
  by (cases "n = MinInt64") (simp_all add: i64_def int64_def)

lemma LeftShift_left:
  assumes "wf_array d" "BitLen d < 2 ^ 62" "0 < BitLen d" "0 < n" "n \<le> int (BitLen d)"
  shows "\<exists>e. LeftShiftAny d n = Some e \<and> wf_array e \<and> bits e = shift_bits (bits d) n"
proof -
  obtain z where z: "MakeZeroBitArray (BitLen d) = Some z"
    "z = \<lparr>words = replicate ((BitLen d + 63) div 64) 0, lastBitsUsed = last_for (BitLen d)\<rparr>"
    using MakeZero_bits [OF assms(2)] assms(3) by metis
  have ne: "words d \<noteq> []" using assms(3) by (auto simp: BitLen_def)
  note w = wf_sizes [OF assms(1) ne]
  define ws where "ws = shift_or (drop_bit (64 - nat n mod 64)) (length (words d)) (words d) (nat n div 64 + 1) 0
      (shift_assign (push_bit (nat n mod 64)) (length (words d)) (words d) (nat n div 64) 0 (replicate (length (words d)) 0))"
  have l: "length ws = length (words d)" unfolding ws_def using shift_or_eq shift_assign_eq by simp
  have e: "LeftShiftAny d n = Some \<lparr>words = ws, lastBitsUsed = last_for (BitLen d)\<rparr>"
    using assms(3-5) z w(1) unfolding ws_def by (simp add: LeftShiftAny_def Let_def)
  have g: "get_bit ws i \<longleftrightarrow> i < BitLen d \<and> (i + nat n < BitLen d \<and> get_bit (words d) (i + nat n))" if "i < 64 * length ws" for i
  proof -
    have "get_bit ws i \<longleftrightarrow> i + nat n < 64 * length (words d) \<and> get_bit (words d) (i + nat n)"
      unfolding ws_def by (rule shifted_left) (use that l in simp)
    then show ?thesis unfolding wf_get [OF assms(1)] by auto
  qed
  have b: "length ws < 2 ^ 57" "length ws = (BitLen d + 63) div 64" using l w(1,7) by simp_all
  note r = bitsI [OF refl assms(3) b g]
  have "bits \<lparr>words = ws, lastBitsUsed = last_for (BitLen d)\<rparr> = shift_bits (bits d) n"
    using r(2) assms(4) by (auto simp: shift_bits_map(1) [OF length_bits] nth_bits)
  then show ?thesis using e r(1) by blast
qed

lemma LeftShift_right:
  assumes "wf_array d" "BitLen d < 2 ^ 62" "0 < BitLen d" "- int (BitLen d) \<le> n" "n < 0"
  shows "\<exists>e. LeftShiftAny d n = Some e \<and> wf_array e \<and> bits e = shift_bits (bits d) n"
proof -
  obtain z where z: "MakeZeroBitArray (BitLen d) = Some z"
    "z = \<lparr>words = replicate ((BitLen d + 63) div 64) 0, lastBitsUsed = last_for (BitLen d)\<rparr>"
    using MakeZero_bits [OF assms(2)] assms(3) by metis
  have ne: "words d \<noteq> []" using assms(3) by (auto simp: BitLen_def)
  note w = wf_sizes [OF assms(1) ne]
  define m where "m = nat (- n)"
  have m: "i64 (- n) = - n" "nat (- n mod 2 ^ 64) = m" using assms(2,4,5) by (simp_all add: i64_def m_def)
  define ws where "ws = shift_or (push_bit (64 - m mod 64)) (length (words d) - (m div 64 + 1)) (words d) 0 (m div 64 + 1)
      (shift_assign (drop_bit (m mod 64)) (length (words d) - m div 64) (words d) 0 (m div 64) (replicate (length (words d)) 0))"
  define vs where "vs = ws[length ws - 1 := (ws ! (length ws - 1)) AND high_mask (last_for (BitLen d))]"
  have l: "length ws = length (words d)" unfolding ws_def using shift_or_eq shift_assign_eq by simp
  then have b: "length vs < 2 ^ 57" "length vs = (BitLen d + 63) div 64" "length ws = (BitLen d + 63) div 64"
    using w(1,7) by (simp_all add: vs_def)
  have "0 < length ws" using b(3) words_for(4) [OF assms(3)] by simp
  then have e: "LeftShiftAny d n = Some \<lparr>words = vs, lastBitsUsed = last_for (BitLen d)\<rparr>"
    using assms(3-5) z w(1) m unfolding vs_def ws_def by (simp add: LeftShiftAny_def Let_def)
  have g: "get_bit vs i \<longleftrightarrow> i < BitLen d \<and> (m \<le> i \<and> get_bit (words d) (i - m))" if "i < 64 * length vs" for i
  proof -
    have "get_bit ws i \<longleftrightarrow> m \<le> i \<and> get_bit (words d) (i - m)"
      unfolding ws_def by (rule shifted_right) (use that l in \<open>simp_all add: vs_def\<close>)
    then show ?thesis unfolding vs_def using get_bit_masked [OF assms(3) b(3)] that by (simp add: vs_def)
  qed
  note r = bitsI [OF refl assms(3) b(1,2) g]
  have "bits \<lparr>words = vs, lastBitsUsed = last_for (BitLen d)\<rparr> = shift_bits (bits d) n"
    using r(2) assms(5) by (auto simp: shift_bits_map(2) [OF length_bits] nth_bits m_def)
  then show ?thesis using e r(1) by blast
qed

lemma shift_stop_0: "shift_assign f 0 ws i j r = r" "shift_or f 0 ws i j r = r"
  by (simp_all add: shift_assign.simps shift_or.simps)

lemma LeftShift_far:
  assumes "BitLen d < 2 ^ 62" "0 < BitLen d" "int (BitLen d) < \<bar>n\<bar>" "int64 n"
  shows "\<exists>e. LeftShiftAny d n = Some e \<and> wf_array e \<and> bits e = shift_bits (bits d) n"
proof -
  obtain z where z: "MakeZeroBitArray (BitLen d) = Some z" "wf_array z" "bits z = replicate (BitLen d) False"
    "z = \<lparr>words = replicate ((BitLen d + 63) div 64) 0, lastBitsUsed = last_for (BitLen d)\<rparr>"
    using MakeZero_bits [OF assms(1)] assms(2) by metis
  have k: "min (BitLen d) (nat \<bar>n\<bar>) = BitLen d" using assms(3) by linarith
  have b: "shift_bits (bits d) n = replicate (BitLen d) False" unfolding shift_bits_def length_bits k Let_def by simp
  have "LeftShiftAny d n = Some z"
  proof (cases "n = MinInt64")
    case True
    define l where "l = (BitLen d + 63) div 64"
    have l: "l - 144115188075855872 = 0" "l - 144115188075855873 = 0" using assms(1) by (simp_all add: l_def)
    have z4: "z = \<lparr>words = replicate l 0, lastBitsUsed = last_for (BitLen d)\<rparr>" using z(4) by (simp add: l_def)
    show ?thesis
      using True z(1) assms(2) l unfolding z4 by (simp add: LeftShiftAny_def Let_def i64_def shift_stop_0 list_update_same_conv)
  next
    case False
    then have "i64 (- n) = - n" using i64_neg [OF assms(4)] by simp
    moreover have "n > 0 \<and> n > int (BitLen d) \<or> n < 0 \<and> - n > int (BitLen d)" using assms(3) by linarith
    moreover have "n \<noteq> 0" using assms(3) by auto
    ultimately show ?thesis using z(1) assms(2) by (simp add: LeftShiftAny_def Let_def)
  qed
  then show ?thesis using z(2,3) b by simp
qed

lemma LeftShiftAny_bits:
  assumes "wf_array d" "BitLen d < 2 ^ 62" "int64 n"
  shows "\<exists>e. LeftShiftAny d n = Some e \<and> wf_array e \<and> bits e = shift_bits (bits d) n"
proof -
  consider "n = 0 \<or> BitLen d = 0" | "0 < BitLen d" "int (BitLen d) < \<bar>n\<bar>"
    | "0 < BitLen d" "0 < n" "n \<le> int (BitLen d)" | "0 < BitLen d" "- int (BitLen d) \<le> n" "n < 0" by linarith
  then show ?thesis
  proof cases
    case 1
    then show ?thesis using assms(1) by (auto simp: LeftShiftAny_def shift_bits_def bits_def)
  next
    case 2
    show ?thesis by (rule LeftShift_far [OF assms(2) 2 assms(3)])
  next
    case 3
    show ?thesis by (rule LeftShift_left [OF assms(1,2) 3])
  next
    case 4
    show ?thesis by (rule LeftShift_right [OF assms(1,2) 4])
  qed
qed


subsection \<open>Concatenation\<close>

lemma Concat_loop_eq:
  assumes "k + length rs \<le> length ws" "Concat_loop rs s ws k t = (ws', k', t')"
  shows "length ws' = length ws \<and> k' = k + length rs \<and> t' = (if rs = [] then t else push_bit (64 - s) (last rs)) \<and>
    (\<forall>j < length ws. ws' ! j = (if k \<le> j \<and> j < k + length rs
       then (if j = k then t else push_bit (64 - s) (rs ! (j - k - 1))) OR drop_bit s (rs ! (j - k)) else ws ! j))"
  using assms
proof (induction rs arbitrary: k ws t)
  case (Cons w rs)
  let ?ws = "ws[k := t OR drop_bit s w]" and ?t = "push_bit (64 - s) w"
  have "Concat_loop rs s ?ws (k + 1) ?t = (ws', k', t')" using Cons.prems(2) by (simp add: Let_def)
  from Cons.IH [OF _ this] Cons.prems(1)
  have ih: "length ws' = length ws" "k' = k + 1 + length rs" "t' = (if rs = [] then ?t else push_bit (64 - s) (last rs))"
    "\<And>j. j < length ws \<Longrightarrow> ws' ! j = (if k + 1 \<le> j \<and> j < k + 1 + length rs
       then (if j = k + 1 then ?t else push_bit (64 - s) (rs ! (j - (k + 1) - 1))) OR drop_bit s (rs ! (j - (k + 1))) else ?ws ! j)"
    by auto
  have "ws' ! j = (if k \<le> j \<and> j < k + length (w # rs)
       then (if j = k then t else push_bit (64 - s) ((w # rs) ! (j - k - 1))) OR drop_bit s ((w # rs) ! (j - k)) else ws ! j)"
    if j: "j < length ws" for j
  proof -
    consider "j = k" | "j = k + 1" | "k + 1 < j" | "j < k" by linarith
    then show ?thesis using ih(4) [OF j] j by cases (auto simp: nth_Cons')
  qed
  then show ?case using ih by simp
qed auto

text \<open>The words of a concatenation whose first part does not fill its last word.\<close>

lemma Concat_loop_joined:
  assumes loop: "Concat_loop bs s ws (la - 1) (xs ! (la - 1)) = (ws1, k1, t1)"
    and l: "0 < la" "0 < length bs" "length ws = (if over then la + length bs else la + length bs - 1)"
    and ws: "\<And>q. q < la - 1 \<Longrightarrow> ws ! q = xs ! q"
  shows "q < length ws \<Longrightarrow> (if over then ws1[k1 := t1] else ws1) ! q =
    (if q < la - 1 then xs ! q else
      (if q = la - 1 then xs ! (la - 1) else push_bit (64 - s) (bs ! (q - la))) OR
      (if q < la - 1 + length bs then drop_bit s (bs ! (q - (la - 1))) else 0))"
    and "length ws1 = length ws"
proof -
  obtain m where lm: "la = Suc m" using l(1) by (cases la) auto
  have "la - 1 + length bs \<le> length ws" using l by auto
  note e = Concat_loop_eq [OF this loop]
  show "length ws1 = length ws" using e by simp
  have nth: "ws1 ! j = (if la - 1 \<le> j \<and> j < la - 1 + length bs
      then (if j = la - 1 then xs ! (la - 1) else push_bit (64 - s) (bs ! (j - (la - 1) - 1))) OR drop_bit s (bs ! (j - (la - 1)))
      else ws ! j)" if "j < length ws" for j using e that by simp
  have kt: "k1 = la - 1 + length bs" "t1 = push_bit (64 - s) (bs ! (length bs - 1))"
    using e l(2) by (auto simp: last_conv_nth)
  assume q: "q < length ws"
  then have "q < la - 1 \<or> la - 1 \<le> q \<and> q < la - 1 + length bs \<or> q = la - 1 + length bs \<and> over"
    using q l by (cases over) auto
  then consider "q < la - 1" | "la - 1 \<le> q" "q < la - 1 + length bs" | "q = la - 1 + length bs" "over" by blast
  then show "(if over then ws1[k1 := t1] else ws1) ! q =
    (if q < la - 1 then xs ! q else
      (if q = la - 1 then xs ! (la - 1) else push_bit (64 - s) (bs ! (q - la))) OR
      (if q < la - 1 + length bs then drop_bit s (bs ! (q - (la - 1))) else 0))"
  proof cases
    case 1
    then show ?thesis using nth [OF q] kt(1) ws by simp
  next
    case 2
    then show ?thesis using nth [OF q] kt(1) by (auto simp: lm)
  next
    case 3
    then show ?thesis using kt e q l(2) by (cases "length bs") (auto simp: lm)
  qed
qed

lemma joined_get_bit:
  assumes wf: "wf_array a" "wf_array b"
    and l: "length (words a) = la" "length (words b) = lb" "0 < la" "0 < lb" "lastBitsUsed a = s" "s < 64"
    and k: "length ws = (if s + lastBitsUsed b > 64 then la + lb else la + lb - 1)"
    and w: "\<And>q. q < length ws \<Longrightarrow> ws ! q = (if q < la - 1 then words a ! q else
      (if q = la - 1 then words a ! (la - 1) else push_bit (64 - s) (words b ! (q - la))) OR
      (if q < la - 1 + lb then drop_bit s (words b ! (q - (la - 1))) else 0))"
    and i: "i < 64 * length ws"
  shows "get_bit ws i \<longleftrightarrow> i < BitLen a + BitLen b \<and> (if i < BitLen a then get_bit (words a) i else get_bit (words b) (i - BitLen a))"
proof -
  obtain m where lm: "la = Suc m" using l by (cases la) auto
  have ne: "words a \<noteq> []" "words b \<noteq> []" using l by auto
  have ba: "BitLen a = m * 64 + s" using wf_sizes(5) [OF wf(1) ne(1)] l lm by simp
  define q r where "q = i div 64" and "r = i mod 64"
  have qr: "i = q * 64 + r" "r < 64" by (simp_all add: q_def r_def)
  have q: "q < length ws" using i div_64_less by (simp add: q_def)
  have g: "get_bit ws i = bit (ws ! q) (63 - r)" "get_bit (words a) i = bit (words a ! q) (63 - r)"
    by (simp_all add: get_bit_def q_def r_def)
  note wb = wf_get [OF wf(2), unfolded l(2)] and c = w [OF q]
  have t: "0 < s" "lastBitsUsed b \<le> 64" using wf ne l(5) by (simp_all add: wf_array_def)
  have fin: ?thesis if "BitLen a \<le> i" "get_bit ws i \<longleftrightarrow> i - BitLen a < 64 * lb \<and> get_bit (words b) (i - BitLen a)"
    using that unfolding wb by auto
  consider "q < la - 1" | "q = la - 1" "r < s" | "q = la - 1" "s \<le> r" | "la \<le> q" "r < s" | "la \<le> q" "s \<le> r" by linarith
  then show ?thesis
  proof cases
    case 1
    then have "q * 64 + r < m * 64" using qr(2) by (simp add: lm)
    then have "i < BitLen a" using qr(1) ba by simp
    then show ?thesis using 1 c g by simp
  next
    case 2
    then have "i < BitLen a" using qr(1) ba by (simp add: lm)
    then show ?thesis using 2 c g l qr(2) by (simp add: bit_or_iff bit_drop_at)
  next
    case 3
    then have x: "BitLen a \<le> i" "i - BitLen a = 0 * 64 + (r - s)" using qr(1) ba by (simp_all add: lm)
    moreover have "i < 64 * la" using qr 3(1) by (simp add: lm)
    ultimately have "\<not> bit (words a ! q) (63 - r)" using wf_pad [OF wf(1), of i] g(2) l(1) by simp
    then have "get_bit ws i = get_bit (words b) (i - BitLen a)"
      unfolding x(2) using 3 c g(1) l qr(2) by (subst get_bit_at) (simp_all add: bit_or_iff bit_drop_at lm)
    moreover have "i - BitLen a < 64 * lb" unfolding x(2) using qr(2) l(4) by simp
    ultimately show ?thesis using fin x(1) by blast
  next
    case 4
    then obtain p where p: "q = la + p" using le_Suc_ex by blast
    then have x: "i - BitLen a = (q - la) * 64 + (64 - s + r)" "BitLen a \<le> i" using qr(1) ba l(6) by (simp_all add: lm)
    have "get_bit ws i = get_bit (words b) (i - BitLen a)"
      unfolding x(1) using 4 c g(1) l qr(2) by (subst get_bit_at) (auto simp: bit_or_iff bit_drop_at bit_push_at lm add.commute)
    moreover have "i - BitLen a < 64 * lb" unfolding x(1) using p q k 4(2) l(6) t by (simp split: if_splits)
    ultimately show ?thesis using fin x(2) by blast
  next
    case 5
    then obtain p where p: "q = la + p" using le_Suc_ex by blast
    then have x: "i - BitLen a = (q - (la - 1)) * 64 + (r - s)" "BitLen a \<le> i" using 5 qr(1) ba by (simp_all add: lm)
    have "get_bit ws i \<longleftrightarrow> q < la - 1 + lb \<and> get_bit (words b) (i - BitLen a)"
      unfolding x(1) using 5 c g(1) l qr(2) by (subst get_bit_at) (auto simp: bit_or_iff bit_drop_at bit_push_at lm)
    moreover have "i - BitLen a < 64 * lb \<longleftrightarrow> q < la - 1 + lb" unfolding x(1) using qr(2) by (simp add: p lm) linarith
    ultimately show ?thesis using fin x(2) by blast
  qed
qed

lemma append_bits:
  "map (\<lambda>i. if i < BitLen a then get_bit (words a) i else get_bit (words b) (i - BitLen a)) [0..<BitLen a + BitLen b] = bits a @ bits b"
  by (intro nth_equalityI) (auto simp: nth_append nth_bits)

lemma Concat_aligned:
  assumes "wf_array a" "wf_array b" "words a \<noteq> []" "words b \<noteq> []" "lastBitsUsed a = 64" "BitLen a + BitLen b < 2 ^ 62"
  shows "wf_array (Concat a b) \<and> bits (Concat a b) = bits a @ bits b"
proof -
  define n la lb t where "n = BitLen a + BitLen b" and "la = length (words a)" and "lb = length (words b)" and "t = lastBitsUsed b"
  have t: "0 < t" "t \<le> 64" "0 < la" "0 < lb" using assms by (auto simp: wf_array_def t_def la_def lb_def)
  have ba: "BitLen a = 64 * la" and bb: "BitLen b = (lb - 1) * 64 + t"
    using wf_sizes(5) [OF assms(1,3)] wf_sizes(5) [OF assms(2,4)] assms(5) t by (cases la; simp add: la_def lb_def t_def)+
  have nl: "nonEmptyBitLen a + nonEmptyBitLen b = n" using assms(3,4) by (simp add: n_def BitLen_def)
  have "n = (la + lb - 1) * 64 + t" using ba bb t by (simp add: n_def algebra_simps)
  then have n: "(n + 63) div 64 = la + lb" "last_for n = t" using sizes_of [of t "la + lb - 1"] t by simp_all
  have e: "Concat a b = \<lparr>words = words a @ words b, lastBitsUsed = last_for n\<rparr>"
    using assms(5) t n by (simp add: Concat_def nl t_def [symmetric] Let_def la_def [symmetric]) (simp add: la_def lb_def)
  have g: "get_bit (words a @ words b) i \<longleftrightarrow>
      i < n \<and> (if i < BitLen a then get_bit (words a) i else get_bit (words b) (i - BitLen a))" if i: "i < 64 * length (words a @ words b)" for i
    using i wf_get [OF assms(2), of "i - BitLen a"] wf_sizes(6) [OF assms(2,4)] ba by (auto simp: get_bit_append n_def la_def)
  have b: "0 < n" "length (words a @ words b) < 2 ^ 57" "length (words a @ words b) = (n + 63) div 64"
    using n(1) assms(6) t ba by (simp_all add: la_def lb_def n_def)
  show ?thesis using bitsI [OF e b g] append_bits [of a b] by (simp add: n_def)
qed

lemma Concat_shifted:
  assumes "wf_array a" "wf_array b" "words a \<noteq> []" "words b \<noteq> []" "lastBitsUsed a < 64" "BitLen a + BitLen b < 2 ^ 62"
  shows "wf_array (Concat a b) \<and> bits (Concat a b) = bits a @ bits b"
proof -
  define n la lb where "n = BitLen a + BitLen b" and "la = length (words a)" and "lb = length (words b)"
  define s t k where "s = lastBitsUsed a" and "t = lastBitsUsed b" and "k = (n + 63) div 64"
  have st: "0 < s" "s < 64" "0 < t" "t \<le> 64" "0 < la" "0 < lb" using assms by (auto simp: wf_array_def s_def t_def la_def lb_def)
  have "BitLen a = (la - 1) * 64 + s" "BitLen b = (lb - 1) * 64 + t"
    using wf_sizes(5) [OF assms(1,3)] wf_sizes(5) [OF assms(2,4)] by (simp_all add: la_def lb_def s_def t_def)
  then have ns: "n = (la + lb - 2) * 64 + (s + t)" using st by (simp add: n_def algebra_simps)
  have nl: "nonEmptyBitLen a + nonEmptyBitLen b = n" using assms(3,4) by (simp add: n_def BitLen_def)
  have "s + t > 64 \<Longrightarrow> n = (la + lb - 1) * 64 + (s + t - 64)" using ns st by simp
  then have kn: "k = (if s + t > 64 then la + lb else la + lb - 1)" "last_for n = (if s + t > 64 then s + t - 64 else s + t)"
    using sizes_of [of "s + t" "la + lb - 2"] sizes_of [of "s + t - 64" "la + lb - 1"] st ns by (auto simp: k_def)
  define ws where "ws = words a @ replicate (k - la) 0"
  have lw: "length ws = k" "take k (words a) = words a" using kn(1) st by (auto simp: ws_def la_def)
  obtain ws1 k1 t1 where loop: "Concat_loop (words b) s ws (la - 1) (words a ! (la - 1)) = (ws1, k1, t1)"
    by (metis prod_cases3)
  define ws2 where "ws2 = (if s + t > 64 then ws1[k1 := t1] else ws1)"
  have e: "Concat a b = \<lparr>words = ws2, lastBitsUsed = last_for n\<rparr>"
  proof -
    have nth: "ws ! (la - 1) = words a ! (la - 1)" using st by (simp add: ws_def nth_append la_def)
    have lastb: "(if (s + t) mod 256 mod 64 = 0 then 64 else (s + t) mod 256 mod 64) = last_for n"
      using st mod_if [of "s + t" 64] by (auto simp: kn(2))
    have hk: "(n + 64 - 1) div 64 = k" "(s + t) mod 256 = s + t" "\<not> s = 0" "\<not> t = 0" "\<not> s = 64" using st by (simp_all add: k_def)
    show ?thesis
      unfolding Concat_def nl s_def [symmetric] t_def [symmetric] la_def [symmetric] hk(1) lw(2) ws_def [symmetric] Let_def nth loop
      using lastb by (simp only: hk if_False prod.case ws2_def)
  qed
  have len: "length ws = (if s + t > 64 then la + length (words b) else la + length (words b) - 1)"
    "\<And>q. q < la - 1 \<Longrightarrow> ws ! q = words a ! q"
    using lw(1) kn(1) by (simp add: lb_def) (auto simp: ws_def la_def nth_append)
  note j = Concat_loop_joined [OF loop st(5) _ len]
  have l2: "length ws2 = k" using j(2) st(6) lw(1) by (simp add: ws2_def lb_def)
  have g: "get_bit ws2 i \<longleftrightarrow> i < n \<and> (if i < BitLen a then get_bit (words a) i else get_bit (words b) (i - BitLen a))"
    if i: "i < 64 * length ws2" for i
    unfolding n_def
    by (rule joined_get_bit [OF assms(1,2) la_def [symmetric] lb_def [symmetric] st(5,6) s_def [symmetric] st(2) _ _ i])
      (use l2 kn(1) j(1) lw(1) st(6) in \<open>simp_all add: t_def lb_def ws2_def\<close>)
  have b: "0 < n" "length ws2 < 2 ^ 57" "length ws2 = (n + 63) div 64"
    using assms(6) st ns l2 by (simp_all add: k_def n_def)
  show ?thesis using bitsI [OF e b g] append_bits [of a b] by (simp add: n_def)
qed

lemma Concat_bits:
  assumes "wf_array a" "wf_array b" "BitLen a + BitLen b < 2 ^ 62"
  shows "wf_array (Concat a b) \<and> bits (Concat a b) = bits a @ bits b"
proof -
  consider "words a = []" | "words b = []" "words a \<noteq> []" | "words a \<noteq> []" "words b \<noteq> []" by blast
  then show ?thesis
  proof cases
    case 1
    then show ?thesis using wf_Nil [OF assms(1)] assms(2) by (simp add: Concat_def empty_array_def bits_def BitLen_def)
  next
    case 2
    then have "0 < lastBitsUsed a" using assms(1) by (simp add: wf_array_def)
    then show ?thesis using 2 wf_Nil [OF assms(2)] assms(1) by (simp add: Concat_def empty_array_def bits_def BitLen_def)
  next
    case 3
    then have "lastBitsUsed a = 64 \<or> lastBitsUsed a < 64" using assms(1) by (auto simp: wf_array_def)
    then show ?thesis using Concat_aligned Concat_shifted 3 assms by blast
  qed
qed

end
