(* ===== verification/Bit_Array_Props.thy ===== *)
theory Bit_Array_Props
  imports Bit_Array_Ops
begin

unbundle bit_operations_syntax

text \<open>
  Bit arrays compared, printed, parsed and converted to integers, and the summary: the array
  operations refine the operations on lists of bits.
\<close>

subsection \<open>The bits of a list of words\<close>

definition wbits :: "64 word \<Rightarrow> bool list" where
  "wbits w = map (\<lambda>k. bit w (63 - k)) [0..<64]"

definition all_bits :: "64 word list \<Rightarrow> bool list" where
  "all_bits ws = map (get_bit ws) [0..<64 * length ws]"

lemma length_wbits [simp]: "length (wbits w) = 64"
  by (simp add: wbits_def)

lemma length_all_bits [simp]: "length (all_bits ws) = 64 * length ws"
  by (simp add: all_bits_def)

lemma all_bits_append: "all_bits (xs @ ys) = all_bits xs @ all_bits ys"
  by (intro nth_equalityI) (auto simp: all_bits_def nth_append get_bit_append)

lemma all_bits_Nil [simp]: "all_bits [] = []"
  by (simp add: all_bits_def)

lemma all_bits_single: "all_bits [w] = wbits w"
  by (auto simp: all_bits_def wbits_def get_bit_def)

lemma all_bits_Cons [simp]: "all_bits (w # ws) = wbits w @ all_bits ws"
  using all_bits_append [of "[w]" ws] by (simp add: all_bits_single)

lemma BitLen_le: "wf_array d \<Longrightarrow> BitLen d \<le> 64 * length (words d)"
  using wf_sizes(6) by (cases "words d = []") (auto simp: BitLen_def)

lemma bits_all_bits: "wf_array d \<Longrightarrow> bits d = take (BitLen d) (all_bits (words d))"
  using BitLen_le [of d] by (simp add: bits_def all_bits_def take_map)

subsection \<open>Order\<close>

lemma rev_wbits: "rev (wbits w) = map (bit w) [0..<64]"
  by (intro nth_equalityI) (auto simp: wbits_def rev_nth)

lemma unat_wbits: "unat w = horner_sum of_bool 2 (rev (wbits w))"
proof -
  have "unat w < 2 ^ 64" using unsigned_less [of w] by simp
  then have "unat w = take_bit 64 (unat w)" by (simp add: take_bit_nat_eq_self)
  also have "\<dots> = horner_sum of_bool 2 (map (bit (unat w)) [0..<64])" by (simp add: horner_sum_bit_eq_take_bit)
  also have "map (bit (unat w)) [0..<64] = map (bit w) [0..<64]" by (auto simp: bit_unsigned_iff)
  finally show ?thesis by (simp add: rev_wbits)
qed

lemma wbits_inject: "wbits x = wbits y \<longleftrightarrow> x = y"
  by (metis unat_wbits word_unat_eq_iff)

lemma wbits_less:
  assumes "wbits x = c @ False # e" "wbits y = c @ True # f"
  shows "x < y"
proof -
  have l: "length e = length f" using assms [THEN arg_cong [of _ _ length]] by simp
  have "horner_sum of_bool 2 (rev e) < (2 :: nat) ^ length e" using horner_sum_of_bool_2_less [of "rev e"] by simp
  then show ?thesis using l by (simp add: word_less_nat_alt unat_wbits assms horner_sum_append)
qed

lemma first_difference:
  "length xs = length ys \<Longrightarrow> xs \<noteq> ys \<Longrightarrow> \<exists>u a b v w. a \<noteq> b \<and> xs = u @ a # v \<and> ys = u @ b # w"
proof (induction xs ys rule: list_induct2)
  case (Cons x xs y ys)
  then show ?case by (cases "x = y") (metis append_Cons, metis append_Nil)
qed simp

lemma less_wbits:
  assumes "x < y"
  shows "\<exists>c e f. wbits x = c @ False # e \<and> wbits y = c @ True # f"
proof -
  obtain u a b v w where d: "a \<noteq> b" "wbits x = u @ a # v" "wbits y = u @ b # w"
    using first_difference [of "wbits x" "wbits y"] assms wbits_inject by (metis length_wbits less_irrefl)
  then show ?thesis using wbits_less [of y u w x v] assms by (cases a) auto
qed

lemma less_list_iff:
  "xs < ys \<longleftrightarrow> (\<exists>a v. ys = xs @ a # v) \<or> (\<exists>u a b v w. a < b \<and> xs = u @ a # v \<and> ys = u @ b # w)" for xs ys :: "'a :: order list"
  by (auto simp: list_less_def lexord_def)

lemma less_prefix: "ys = xs @ zs \<Longrightarrow> zs \<noteq> [] \<Longrightarrow> xs < ys" for xs ys :: "'a :: order list"
  unfolding less_list_iff by (cases zs) auto

lemma words_less_bits:
  assumes a: "wf_array a" and b: "wf_array b" and "words a < words b"
  shows "bits a < bits b"
  using assms(3) [unfolded less_list_iff]
proof (elim disjE exE conjE)
  fix x v assume e: "words b = words a @ x # v"
  have "64 * length (words a) < BitLen b" using wf_sizes(5) [OF b] b e by (auto simp: wf_array_def)
  then have "bits b = all_bits (words a) @ take (BitLen b - 64 * length (words a)) (wbits x @ all_bits v)"
    using bits_all_bits [OF b] e by (simp add: all_bits_append)
  moreover have "take (BitLen b - 64 * length (words a)) (wbits x @ all_bits v) \<noteq> []"
    using \<open>64 * length (words a) < BitLen b\<close> by (auto simp: wbits_def)
  moreover have "all_bits (words a) = bits a @ drop (BitLen a) (all_bits (words a))" using bits_all_bits [OF a] by simp
  ultimately show ?thesis using less_prefix [of "bits b" "bits a"] by (metis append_assoc append_is_Nil_conv)
next
  fix p x y u v assume l: "x < y" and e: "words a = p @ x # u" "words b = p @ y # v"
  obtain c f g where w: "wbits x = c @ False # f" "wbits y = c @ True # g" using less_wbits [OF l] by blast
  define k where "k = 64 * length p + length c"
  have A: "all_bits (words a) = (all_bits p @ c) @ False # f @ all_bits u"
    and B: "all_bits (words b) = (all_bits p @ c) @ True # g @ all_bits v"
    using e w by (simp_all add: all_bits_append)
  have "k < 64 * length (words b)" using arg_cong [OF B, of length] by (simp add: k_def)
  moreover have "get_bit (words b) k"
    using arg_cong [OF B, of "\<lambda>l. l ! k"] \<open>k < 64 * length (words b)\<close> by (simp add: all_bits_def k_def nth_append)
  ultimately have kb: "k < BitLen b" using wf_get [OF b] by blast
  then have "bits b = (all_bits p @ c) @ True # take (BitLen b - k - 1) (g @ all_bits v)"
    using bits_all_bits [OF b] unfolding B by (cases "BitLen b - k") (auto simp: k_def)
  note B' = this
  have "bits a = take (BitLen a) (all_bits p @ c) \<or> bits a = (all_bits p @ c) @ False # take (BitLen a - k - 1) (f @ all_bits u)"
    using bits_all_bits [OF a] unfolding A by (cases "BitLen a - k") (auto simp: k_def)
  moreover have "take n P < P @ True # t" for n t and P :: "bool list"
    by (rule less_prefix [of _ _ "drop n P @ True # t"]) simp_all
  moreover have "P @ False # t < P @ True # t'" for t t' and P :: "bool list" unfolding less_list_iff by fastforce
  ultimately show ?thesis unfolding B' by (elim disjE; simp only:)
qed

lemma Compare_words_less:
  "Compare_words ls rs = (if ls < rs then Some (- 1) else if rs < ls then Some 1 else None)"
  by (induction ls rs rule: Compare_words.induct) auto

lemma same_words_less:
  assumes "wf_array a" "wf_array b" "words a = words b" "lastBitsUsed a < lastBitsUsed b"
  shows "bits a < bits b"
proof -
  have ne: "words b \<noteq> []" using assms(2,4) by (auto simp: wf_array_def)
  then have "BitLen a < BitLen b" using assms(3,4) by (simp add: BitLen_def nonEmptyBitLen_def)
  moreover have "BitLen b \<le> length (all_bits (words b))" using BitLen_le [OF assms(2)] by simp
  moreover have "take m X < take n X" if "m < n" "n \<le> length X" for m n and X :: "bool list"
    by (rule less_prefix [of _ _ "drop m (take n X)"]) (use that in \<open>simp_all add: min_def\<close>, use that in \<open>metis append_take_drop_id min.absorb3 take_take\<close>)
  ultimately show ?thesis using bits_all_bits [OF assms(1)] bits_all_bits [OF assms(2)] assms(3) by simp
qed

lemma Compare_bits:
  assumes "wf_array a" "wf_array b"
  shows "Compare a b = (if bits a < bits b then - 1 else if bits b < bits a then 1 else 0)"
proof -
  consider "words a < words b" | "words b < words a" | "words a = words b" "lastBitsUsed a < lastBitsUsed b"
    | "words a = words b" "lastBitsUsed b < lastBitsUsed a" | "a = b"
    using linorder_less_linear [of "words a" "words b"] linorder_less_linear [of "lastBitsUsed a" "lastBitsUsed b"]
    by (cases a; cases b) auto
  then show ?thesis
    using words_less_bits assms same_words_less [OF assms] same_words_less [OF assms(2,1)]
    by cases (auto simp: Compare_def Compare_words_less dest: less_asym)
qed

subsection \<open>Text\<close>

lemma byteReprs_word:
  "byteReprs (unat (drop_bit s w AND 0xff)) = map (\<lambda>k. bit_char (bit w (s + (7 - k)))) [0..<8]" for w :: "64 word"
proof -
  have m: "(0xff :: 64 word) = mask 8" by (simp add: mask_eq_exp_minus_1)
  have "bit (unat (drop_bit s w AND 0xff)) n \<longleftrightarrow> bit w (s + n)" if "n < 8" for n
    unfolding m using that by (simp add: bit_unsigned_iff bit_and_iff bit_mask_iff bit_drop_bit_eq)
  then show ?thesis unfolding byteReprs_def by (intro map_cong refl) simp
qed

lemma Format_word_bits: "Format_word w = map bit_char (wbits w)"
proof -
  have u: "[0..<8] = [0, 1, 2, 3, 4, 5, 6, 7 :: nat]" by (simp add: upt_rec)
  have "[0..<64] = concat (map (\<lambda>k. map (\<lambda>j. 8 * k + j) [0..<8]) [0..<8 :: nat])" by (simp add: u) (simp add: upt_rec)
  then show ?thesis by (simp add: Format_word_def byteReprs_word wbits_def u numeral_2_eq_2 [symmetric])
qed

lemma Format_words_bits: "concat (map Format_word ws) = map bit_char (all_bits ws)"
  by (induction ws) (simp_all add: Format_word_bits)

lemma Format_tail:
  "r < 64 \<Longrightarrow> map (\<lambda>i. if drop_bit i w AND 1 = 1 then CHR ''1'' else CHR ''0'') (rev [64 - r..<64]) = map bit_char (take r (wbits w))"
  for w :: "64 word"
  by (intro nth_equalityI) (auto simp: rev_nth wbits_def bit_char_def and_one_eq bit_iff_odd_drop_bit odd_iff_mod_2_eq_one)

lemma Format_bits:
  assumes "wf_array d"
  shows "Format d = map bit_char (bits d)"
proof -
  define f r where "f = BitLen d div 64" and "r = BitLen d mod 64"
  have b: "BitLen d = f * 64 + r" "r < 64" by (simp_all add: f_def r_def)
  have l: "length (words d) = (if r = 0 then f else f + 1)"
  proof (cases "words d = []")
    case False
    then have "length (words d) = (f * 64 + r + 63) div 64" using wf_sizes(1) [OF assms] b(1) by simp
    then show ?thesis using b(2) by (cases "r = 0") auto
  qed (simp add: f_def r_def BitLen_def)
  show ?thesis
  proof (cases "r = 0")
    case True
    then show ?thesis using b l bits_all_bits [OF assms] by (simp add: Format_def Let_def Format_words_bits)
  next
    case False
    have w: "words d = take f (words d) @ [words d ! f]"
      using l False take_Suc_conv_app_nth [of f "words d"] by simp
    have "bits d = take (f * 64 + r) (all_bits (take f (words d) @ [words d ! f]))"
      using bits_all_bits [OF assms] w b(1) by simp
    also have "\<dots> = all_bits (take f (words d)) @ take r (wbits (words d ! f))"
      using l False by (simp add: all_bits_append)
    finally show ?thesis
      using False b(2) by (simp add: Format_def Let_def Format_words_bits f_def [symmetric] r_def [symmetric] Format_tail)
  qed
qed


subsection \<open>Parsing\<close>

lemma DecodeRune_cases:
  assumes "DecodeRune (c # s) = (r, n)"
  shows "valid_rune r" "r < 0x80 \<Longrightarrow> r = of_char c \<and> n = 1"
proof -
  have v: "valid_rune r \<and> (r < 0x80 \<longrightarrow> r = of_char c \<and> n = 1)"
  proof (cases "decoded r n")
    case True
    note e = encode_decode [OF assms _ True]
    have "r < 0x80 \<Longrightarrow> EncodeRune r = [char_of r]" by (simp add: EncodeRune_def)
    then show ?thesis using e by (cases n) auto
  qed (simp add: decoded_def valid_rune_def)
  then show "valid_rune r" "r < 0x80 \<Longrightarrow> r = of_char c \<and> n = 1" by simp_all
qed

lemma runes_Cons:
  "runes (c # s) = fst (DecodeRune (c # s)) # runes (drop (snd (DecodeRune (c # s))) (c # s))"
  unfolding runes_def
  by (subst range_runes.simps) (simp add: Let_def case_prod_unfold del: DecodeRune.simps, rule map_snd_range_runes)

lemma of_int_diff_nat: "c < 2 ^ 22 \<Longrightarrow> d < 2 ^ 22 \<Longrightarrow> (word_of_int (int c - int d) :: 64 word) = 0 \<longleftrightarrow> c = d"
  by (simp add: word_of_nat_eq_iff take_bit_nat_eq_self)

lemma binary_digit:
  assumes "c < 2 ^ 22"
  shows "word_of_int (int c - 48) AND 1 = (word_of_int (int c - 48) :: 64 word) \<longleftrightarrow> c = 48 \<or> c = 49"
proof -
  let ?v = "word_of_int (int c - 48) :: 64 word"
  have "v AND 1 = v \<longleftrightarrow> v = 0 \<or> v = 1" for v :: "64 word" by (cases "odd v") (auto simp: and_one_eq mod_2_eq_odd)
  note this [of ?v]
  moreover have "?v = 0 \<longleftrightarrow> c = 48" using of_int_diff_nat [of c 48] assms by simp
  moreover have "?v = 1 \<longleftrightarrow> word_of_int (int c - int 49) = (0 :: 64 word)" by (simp add: algebra_simps)
  ultimately show ?thesis using of_int_diff_nat [of c 49] assms by simp
qed

lemma runes_valid: "r \<in> set (runes s) \<Longrightarrow> valid_rune r"
proof (induction s rule: length_induct)
  case (1 s)
  show ?case
  proof (cases s)
    case (Cons c t)
    obtain q n where d: "DecodeRune (c # t) = (q, n)" by fastforce
    have "n \<ge> 1" using DecodeRune_width(1) [of "c # t"] d by simp
    then have "length (drop n (c # t)) < length s" using Cons by simp
    moreover have "runes s = q # runes (drop n (c # t))" using runes_Cons [of c t] d Cons by (simp del: DecodeRune.simps)
    ultimately show ?thesis using 1 DecodeRune_cases(1) [OF d] by (metis set_ConsD)
  qed (use 1 in simp)
qed

lemma runes_binary: "set (runes s) \<subseteq> {48, 49} \<Longrightarrow> runes s = map of_char s \<and> set s \<subseteq> {CHR ''0'', CHR ''1''}"
proof (induction s)
  case (Cons c s)
  obtain r n where d: "DecodeRune (c # s) = (r, n)" by fastforce
  then have r: "r = 48 \<or> r = 49" using Cons.prems by (simp add: runes_Cons del: DecodeRune.simps)
  then have e: "r = of_char c" "n = 1" using DecodeRune_cases(2) [OF d] by auto
  have c: "c = CHR ''0'' \<or> c = CHR ''1''" using r e(1) of_char_eq_iff [of c "CHR ''0''", where ?'a = nat] of_char_eq_iff [of c "CHR ''1''", where ?'a = nat] by auto
  have "runes (c # s) = of_char c # runes s" using d e by (simp add: runes_Cons del: DecodeRune.simps)
  then show ?case using Cons c by auto
qed simp

text \<open>The state of the loop of \<open>Parse\<close> after the digits \<open>bs\<close>.\<close>

definition parse_state :: "bool list \<Rightarrow> nat \<Rightarrow> 64 word list \<Rightarrow> nat \<Rightarrow> nat \<Rightarrow> 64 word \<Rightarrow> bool" where
  "parse_state bs K ws wordIdx bitIdx curWord \<longleftrightarrow>
     length bs = wordIdx * 64 + bitIdx \<and> bitIdx < 64 \<and> length ws = K \<and>
     (\<forall>q < K. \<forall>c < 64. bit (ws ! q) (63 - c) \<longleftrightarrow> q < wordIdx \<and> bs ! (q * 64 + c)) \<and>
     (\<forall>c < 64. bit curWord (63 - c) \<longleftrightarrow> c < bitIdx \<and> bs ! (wordIdx * 64 + c))"

lemma parse_step:
  fixes b :: bool
  assumes "parse_state bs K ws wi bi cw" "length bs < 64 * K"
  defines "cw' \<equiv> cw OR push_bit (63 - bi) (of_bool b)"
  shows "bi < 63 \<Longrightarrow> parse_state (bs @ [b]) K ws wi (bi + 1) cw'"
    and "bi = 63 \<Longrightarrow> parse_state (bs @ [b]) K (ws[wi := cw']) (wi + 1) 0 0"
proof -
  note p = assms(1) [unfolded parse_state_def]
  have l: "length bs = wi * 64 + bi" "bi < 64" and wi: "wi < K" using p assms(2) by auto
  have cw': "bit cw' (63 - c) \<longleftrightarrow> c \<le> bi \<and> (bs @ [b]) ! (wi * 64 + c)" if "c < 64" for c
  proof -
    have "bit (push_bit (63 - bi) (of_bool b) :: 64 word) (63 - c) \<longleftrightarrow> b \<and> c = bi"
      using that l(2) by (auto simp: bit_push_bit_iff bit_of_bool_iff)
    then show ?thesis using p that l by (auto simp: cw'_def bit_or_iff nth_append)
  qed
  have old: "bit (ws ! q) (63 - c) \<longleftrightarrow> q < wi \<and> (bs @ [b]) ! (q * 64 + c)" if "q < K" "c < 64" for q c
  proof -
    have "q < wi \<Longrightarrow> q * 64 + c < length bs" using l(1) that(2) by linarith
    then show ?thesis using p that by (auto simp: nth_append)
  qed
  show "bi < 63 \<Longrightarrow> parse_state (bs @ [b]) K ws wi (bi + 1) cw'"
    using l p old cw' by (auto simp: parse_state_def)
  show "bi = 63 \<Longrightarrow> parse_state (bs @ [b]) K (ws[wi := cw']) (wi + 1) 0 0"
    using l p old cw' wi unfolding parse_state_def by (auto simp: nth_list_update less_Suc_eq)
qed

abbreviation digit :: "bool \<Rightarrow> nat" where "digit b \<equiv> (if b then 49 else 48)"

lemma Parse_loop_digits:
  "parse_state bs K ws wi bi cw \<Longrightarrow> length bs + length xs \<le> 64 * K \<Longrightarrow>
   \<exists>ws' wi' bi' cw'. Parse_loop (map digit xs) ws wi bi cw = Inr (ws', wi', bi', cw') \<and> parse_state (bs @ xs) K ws' wi' bi' cw'"
proof (induction xs arbitrary: bs ws wi bi cw)
  case (Cons b xs)
  let ?cw = "cw OR push_bit (63 - bi) (of_bool b)"
  have v: "(word_of_int (int (digit b) - 48) :: 64 word) = of_bool b" by simp
  have a: "(of_bool b :: 64 word) AND 1 = of_bool b" by (cases b) simp_all
  have bi: "bi < 64" using Cons.prems(1) by (simp add: parse_state_def)
  note st = parse_step [OF Cons.prems(1), of b]
  show ?case
  proof (cases "bi = 63")
    case True
    have "Parse_loop (map digit (b # xs)) ws wi bi cw = Parse_loop (map digit xs) (ws[wi := ?cw]) (wi + 1) 0 0"
      using True v a by (simp add: Let_def del: int_ops)
    then show ?thesis using Cons.IH [OF st(2)] Cons.prems(2) True by simp
  next
    case False
    then have "Parse_loop (map digit (b # xs)) ws wi bi cw = Parse_loop (map digit xs) ws wi (bi + 1) ?cw"
      using bi v a by (simp add: Let_def del: int_ops)
    then show ?thesis using Cons.IH [OF st(1)] Cons.prems(2) False bi by simp
  qed
qed simp

lemma Parse_loop_error:
  assumes "\<And>c. c \<in> set cs \<Longrightarrow> c < 2 ^ 22" "\<not> set cs \<subseteq> {48, 49}"
  shows "\<exists>c \<in> set cs - {48, 49}. Parse_loop cs ws wi bi cw = Inl (NotBinaryDigit c)"
  using assms
proof (induction cs arbitrary: ws wi bi cw)
  case (Cons c cs)
  show ?case
  proof (cases "c = 48 \<or> c = 49")
    case True
    have "\<exists>c' \<in> set cs - {48, 49}. Parse_loop cs ws wi bi cw = Inl (NotBinaryDigit c')" for ws wi bi cw
      using Cons True by auto
    then obtain g where "\<And>ws wi bi cw. g ws wi bi cw \<in> set cs - {48, 49} \<and> Parse_loop cs ws wi bi cw = Inl (NotBinaryDigit (g ws wi bi cw))"
      by metis
    then show ?thesis using binary_digit [of c] True Cons.prems(1) by (auto simp: Let_def)
  next
    case False
    then show ?thesis using binary_digit [of c] Cons.prems(1) by (auto simp: Let_def)
  qed
qed simp

lemma runes_small: "r \<in> set (runes s) \<Longrightarrow> r < 2 ^ 22"
  using runes_valid [of r s] by (auto simp: valid_rune_def)

lemma runes_digits:
  assumes "set s \<subseteq> {CHR ''0'', CHR ''1''}"
  shows "runes s = map digit (map ((=) CHR ''1'') s)"
  using assms by (induction s) (auto simp: runes_ascii_Cons)

lemma Parse_bits:
  assumes "length s < 2 ^ 62" "set s \<subseteq> {CHR ''0'', CHR ''1''}"
  shows "\<exists>d. Parse s = Inr d \<and> wf_array d \<and> bits d = map ((=) CHR ''1'') s"
proof (cases "s = []")
  case True
  then show ?thesis by (simp add: Parse_def empty_bits)
next
  case False
  define n where "n = length s"
  define K where "K = (n + 63) div 64"
  define xs where "xs = map ((=) CHR ''1'') s"
  have n: "0 < n" "n < 2 ^ 62" "length xs = n" "n \<le> 64 * K" using False assms(1) by (simp_all add: n_def xs_def K_def)
  have z: "EncodingPartsForBitLen n = (replicate K 0, last_for n)"
    using n SizesForBitLen_eq [of n] by (simp add: EncodingPartsForBitLen_def K_def)
  have "parse_state [] K (replicate K 0) 0 0 0" by (simp add: parse_state_def)
  from Parse_loop_digits [OF this, of xs] obtain ws wi bi cw where
    p: "Parse_loop (map digit xs) (replicate K 0) 0 0 0 = Inr (ws, wi, bi, cw)" "parse_state xs K ws wi bi cw"
    using n(3,4) by auto
  note q = p(2) [unfolded parse_state_def]
  define ws' where "ws' = (if bi > 0 then ws[wi := cw] else ws)"
  have l: "length ws' = K" using q by (simp add: ws'_def)
  have e: "Parse s = Inr \<lparr>words = ws', lastBitsUsed = last_for n\<rparr>"
    using n(1) z p(1) words_for(3) [of n] runes_digits [OF assms(2)]
    by (simp add: Parse_def n_def [symmetric] xs_def [symmetric] ws'_def FromEncodingParts_def Let_def not_less)
  have g: "get_bit ws' i \<longleftrightarrow> i < n \<and> xs ! i" if "i < 64 * length ws'" for i
  proof -
    define a c where "a = i div 64" and "c = i mod 64"
    have i: "i = a * 64 + c" "c < 64" "a < K" using that l div_64_less by (simp_all add: a_def c_def)
    have "i < n \<longleftrightarrow> a < wi \<or> a = wi \<and> c < bi" using i q n(3) by auto
    moreover have "bi > 0 \<Longrightarrow> wi < K" using q n by auto
    ultimately show ?thesis unfolding i(1) using q i by (subst get_bit_at) (auto simp: ws'_def nth_list_update)
  qed
  have "length ws' < 2 ^ 57" "length ws' = (n + 63) div 64" using l n by (simp_all add: K_def)
  from bitsI [OF refl n(1) this g] e n(3) show ?thesis
    by (metis map_nth xs_def)
qed

lemma Parse_invalid:
  assumes "\<not> set s \<subseteq> {CHR ''0'', CHR ''1''}"
  shows "\<exists>c \<in> set (runes s) - {48, 49}. Parse s = Inl (NotBinaryDigit c)"
proof -
  have "\<not> set (runes s) \<subseteq> {48, 49}" using runes_binary assms by blast
  then obtain c where "c \<in> set (runes s) - {48, 49}"
    "Parse_loop (runes s) (fst (EncodingPartsForBitLen (length s))) 0 0 0 = Inl (NotBinaryDigit c)"
    using Parse_loop_error [of "runes s"] runes_small [of _ s] by blast
  then show ?thesis using assms by (auto simp: Parse_def case_prod_unfold Let_def intro!: bexI [of _ c])
qed

subsection \<open>Integers\<close>

lemma bit_signed_drop_push:
  "0 < w \<Longrightarrow> w \<le> 64 \<Longrightarrow> bit (signed_drop_bit (64 - w) (push_bit (64 - w) v)) n \<longleftrightarrow> n < 64 \<and> bit v (min n (w - 1))"
  for v :: "64 word"
  by (auto simp: bit_signed_drop_bit_iff bit_push_bit_iff min_def split: if_splits)

lemma bit_signed_drop: "bit (signed_drop_bit k v) n \<longleftrightarrow> n < 64 \<and> bit v (min (k + n) 63)" for v :: "64 word"
  by (auto simp: bit_signed_drop_bit_iff min_def dest: bit_imp_le_length)

lemma and_push_one: "v AND push_bit k 1 \<noteq> 0 \<longleftrightarrow> bit v k" for v :: "64 word"
proof -
  have "v AND push_bit k 1 = of_bool (bit v k) * push_bit k 1"
    by (rule bit_word_eqI) (auto simp: bit_and_iff push_bit_of_1 bit_exp_iff)
  moreover have "bit v k \<Longrightarrow> push_bit k 1 \<noteq> (0 :: 64 word)"
    using bit_imp_le_length [of v k] by (simp add: push_bit_of_1 exp_eq_zero_iff)
  ultimately show ?thesis by auto
qed

text \<open>The words \<open>MakeBitArrayFromInt64\<close> stores in an array of \<open>(K - 1) * 64 + l\<close> bits.\<close>

definition int_word :: "nat \<Rightarrow> nat \<Rightarrow> 64 word \<Rightarrow> nat \<Rightarrow> nat \<Rightarrow> 64 word" where
  "int_word K l v w q =
     (let v' = signed_drop_bit (64 - w) (push_bit (64 - w) v) in
      if q = K - 1 then push_bit (64 - l) v'
      else if q = K - 2 \<and> w > l then signed_drop_bit l v'
      else if bit v (w - 1) then NOT 0 else 0)"

lemma int_word_bit:
  assumes "0 < w" "w \<le> 64" "0 < l" "l \<le> 64" "w \<le> (K - 1) * 64 + l" "q < K" "c < 64"
  shows "bit (int_word K l v w q) (63 - c) \<longleftrightarrow>
    q * 64 + c < (K - 1) * 64 + l \<and> bit v (min ((K - 1) * 64 + l - 1 - (q * 64 + c)) (w - 1))"
proof -
  consider "q = K - 1" | "q = K - 2" "2 \<le> K" | "q + 2 < K" using assms(6) by linarith
  then show ?thesis
  proof cases
    case 1
    have "c < l \<Longrightarrow> 63 - c - (64 - l) = l - 1 - c" using assms(4) by simp
    then show ?thesis using 1 assms by (auto simp: int_word_def Let_def bit_push_bit_iff bit_signed_drop_push)
  next
    case 2
    then obtain k where k: "K = k + 2" using le_Suc_ex by (metis add.commute)
    have e: "(K - 1) * 64 + l - 1 - (q * 64 + c) = l + (63 - c)" using 2 k assms(7) by simp
    have m: "min (min (l + (63 - c)) 63) (w - 1) = min (l + (63 - c)) (w - 1)" using assms(2) by simp
    have "bit (signed_drop_bit l (signed_drop_bit (64 - w) (push_bit (64 - w) v))) (63 - c) \<longleftrightarrow> bit v (min (l + (63 - c)) (w - 1))"
      unfolding bit_signed_drop [of l] bit_signed_drop_push [OF assms(1,2)] m by (simp add: min_def)
    moreover have "\<not> l < w \<Longrightarrow> min (l + (63 - c)) (w - 1) = w - 1" by simp
    ultimately show ?thesis unfolding e using 2 k assms by (auto simp: int_word_def Let_def bit_not_iff)
  next
    case 3
    then obtain k where k: "K = q + 3 + k" using le_Suc_ex [of "q + 3" K] by auto
    have e: "min ((K - 1) * 64 + l - 1 - (q * 64 + c)) (w - 1) = w - 1" using k assms(2,7) by simp
    show ?thesis unfolding e using k assms by (auto simp: int_word_def Let_def bit_not_iff)
  qed
qed

lemma int_words:
  fixes v :: "64 word" and w :: nat
  assumes "0 < K"
  defines "v' \<equiv> signed_drop_bit (64 - w) (push_bit (64 - w) v)"
    and "ws \<equiv> (if bit v (w - 1) then replicate (K - 1) (NOT 0) @ drop (K - 1) (replicate K 0) else replicate K 0)"
  shows "w > l \<Longrightarrow> 2 \<le> K \<Longrightarrow> ws[K - 1 := push_bit (64 - l) v', K - 2 := signed_drop_bit l v'] = map (int_word K l v w) [0..<K]"
    and "\<not> w > l \<Longrightarrow> ws[K - 1 := push_bit (64 - l) v'] = map (int_word K l v w) [0..<K]"
  using assms(1) unfolding v'_def ws_def
  by (auto simp: int_word_def Let_def nth_list_update nth_append intro!: nth_equalityI)

lemma MakeBitArrayFromInt64_bits:
  assumes "n < 2 ^ 62" "0 < w" "w \<le> 64"
  shows "\<exists>d. MakeBitArrayFromInt64 n v w = Some d \<and> wf_array d \<and> bits d = map (\<lambda>i. bit v (min (n - 1 - i) (w - 1))) [0..<n]"
proof (cases "n = 0")
  case True
  then show ?thesis by (simp add: MakeBitArrayFromInt64_def empty_bits)
next
  case False
  define K l where "K = (n + 63) div 64" and "l = last_for n"
  have n: "0 < n" "n = (K - 1) * 64 + l" "0 < l" "l \<le> 64" "0 < K" "K < 2 ^ 57"
    using False words_for [of n] assms(1) by (auto simp: K_def l_def)
  have z: "MakeZeroBitArray n = Some \<lparr>words = replicate K 0, lastBitsUsed = l\<rparr>"
    using MakeZero_bits [OF assms(1)] n(1) by (metis K_def l_def)
  define ws where "ws = (if n < w then [push_bit (64 - n) v] else map (int_word K l v w) [0..<K])"
  have nw: "K = 1 \<and> l = n" if "n < w" using that n assms(3) by (cases "K = 1") auto
  have lw: "length ws = K" using nw by (simp add: ws_def)
  have g: "get_bit ws i \<longleftrightarrow> i < n \<and> bit v (min (n - 1 - i) (w - 1))" if "i < 64 * length ws" for i
  proof (cases "n < w")
    case True
    then have "n - 1 - i \<le> w - 1" by simp
    then show ?thesis using True nw that assms(3) by (auto simp: ws_def get_bit_def bit_push_bit_iff min_absorb1)
  next
    case f: False
    define q c where "q = i div 64" and "c = i mod 64"
    have i: "i = q * 64 + c" "c < 64" "q < K" using that lw div_64_less by (simp_all add: q_def c_def)
    have "get_bit ws i = bit (int_word K l v w q) (63 - c)" using f i by (simp add: ws_def get_bit_def q_def c_def)
    then show ?thesis using int_word_bit [OF assms(2,3) n(3,4) _ i(3,2), of v] f n(2) i(1) by simp
  qed
  have e: "MakeBitArrayFromInt64 n v w = Some \<lparr>words = ws, lastBitsUsed = l\<rparr>"
  proof (cases "n < w")
    case True
    then show ?thesis
      using z nw [OF True] n(1) assms(3) by (simp add: MakeBitArrayFromInt64_def Let_def ws_def shl_diff_def)
  next
    case f: False
    have K: "w > l \<Longrightarrow> 2 \<le> K" using f n(2) by (cases "K < 2") auto
    have s: "shl_diff 1 w 1 = push_bit (w - 1) 1" "sar_diff (shl_diff v 64 w) 64 w = signed_drop_bit (64 - w) (push_bit (64 - w) v)"
      using assms(2,3) by (simp_all add: shl_diff_def sar_diff_def)
    show ?thesis
    proof (cases "w > l")
      case True
      then show ?thesis
        using z n(1) f K [OF True] int_words(1) [OF n(5) True K [OF True], of v]
        by (simp only: MakeBitArrayFromInt64_def Let_def ws_def s and_push_one option.case BitArray.simps length_replicate not_less if_False if_True) simp
    next
      case False
      then show ?thesis
        using z n(1) f int_words(2) [OF n(5) False, of v]
        by (simp only: MakeBitArrayFromInt64_def Let_def ws_def s and_push_one option.case BitArray.simps length_replicate if_False) simp
    qed
  qed
  have b: "length ws < 2 ^ 57" "length ws = (n + 63) div 64" using lw n(6) by (simp_all add: K_def)
  show ?thesis using bitsI(1,2) [OF refl n(1) b g] e [unfolded l_def] by blast
qed

lemma AsInt64_bits:
  assumes "wf_array d" "0 < w" "w \<le> 64" "w \<le> BitLen d" "m < 64"
  shows "bit (AsInt64 d w) m \<longleftrightarrow> bits d ! (BitLen d - 1 - min m (w - 1))"
proof -
  have ne: "words d \<noteq> []" using assms(2,4) by (auto simp: BitLen_def)
  define K l where "K = length (words d)" and "l = lastBitsUsed d"
  have n: "BitLen d = (K - 1) * 64 + l" "0 < l" "l \<le> 64" "0 < K"
    using wf_sizes(5) [OF assms(1) ne] assms(1) ne by (auto simp: K_def l_def wf_array_def)
  define cb where "cb = drop_bit (64 - l) (words d ! (K - 1)) OR (if w > l \<and> K > 1 then push_bit l (words d ! (K - 2)) else 0)"
  have e: "AsInt64 d w = signed_drop_bit (64 - w) (push_bit (64 - w) cb)"
    using n assms(3) by (simp add: AsInt64_def Let_def cb_def K_def l_def shl_diff_def sar_diff_def)
  have c: "bit cb k \<longleftrightarrow> bits d ! (BitLen d - 1 - k)" if "k < w" for k
  proof (cases "k < l")
    case True
    then have i: "BitLen d - 1 - k = (K - 1) * 64 + (l - 1 - k)" using n by simp
    have "bits d ! (BitLen d - 1 - k) = bit (words d ! (K - 1)) (63 - (l - 1 - k))"
      using nth_bits [of "BitLen d - 1 - k" d] n get_bit_at [of "l - 1 - k" "words d" "K - 1"] unfolding i by simp
    moreover have "63 - (l - 1 - k) = 64 - l + k" using True n by simp
    ultimately show ?thesis using True by (simp add: cb_def bit_or_iff bit_drop_bit_eq bit_push_bit_iff)
  next
    case False
    then have K: "K > 1" using that assms(4) n by (cases "K = 1") auto
    then obtain j where j: "K = j + 2" using less_iff_Suc_add by auto
    have i: "BitLen d - 1 - k = (K - 2) * 64 + (63 - (k - l))" using n False j that assms(3) by simp
    have "bits d ! (BitLen d - 1 - k) = bit (words d ! (K - 2)) (63 - (63 - (k - l)))"
      using nth_bits [of "BitLen d - 1 - k" d] n get_bit_at [of "63 - (k - l)" "words d" "K - 2"] unfolding i by (simp add: j)
    moreover have "63 - (63 - (k - l)) = k - l" "\<not> bit (words d ! (K - 1)) (64 - l + k)"
      using that assms(3) False n bit_imp_le_length [of "words d ! (K - 1)" "64 - l + k"] by auto
    ultimately show ?thesis using False that K assms(3) by (simp add: cb_def bit_or_iff bit_drop_bit_eq bit_push_bit_iff)
  qed
  show ?thesis unfolding e using bit_signed_drop_push [OF assms(2,3), of cb m] c [of "min m (w - 1)"] assms(2,5) by simp
qed

lemma AsInt64_MakeBitArrayFromInt64:
  assumes "n < 2 ^ 62" "0 < w" "w \<le> 64" "w \<le> n" "MakeBitArrayFromInt64 n v w = Some d"
  shows "AsInt64 d w = signed_take_bit (w - 1) v"
proof (rule bit_word_eqI)
  fix m assume "m < LENGTH(64)"
  then have m: "m < 64" by simp
  have d: "wf_array d" "bits d = map (\<lambda>i. bit v (min (n - 1 - i) (w - 1))) [0..<n]"
    using MakeBitArrayFromInt64_bits [OF assms(1-3), of v] assms(5) by auto
  then have l: "BitLen d = n" using length_bits [of d] by simp
  define j where "j = min m (w - 1)"
  have j: "j < n" "n - 1 - (n - 1 - j) = j" "min j (w - 1) = j" using assms(2,4) by (auto simp: j_def)
  have "bit (AsInt64 d w) m \<longleftrightarrow> bits d ! (n - 1 - j)"
    using AsInt64_bits [OF d(1) assms(2,3) _ m] l assms(4) by (simp add: j_def)
  also have "\<dots> \<longleftrightarrow> bit v j" using d(2) j by simp
  finally show "bit (AsInt64 d w) m = bit (signed_take_bit (w - 1) v) m"
    using m by (simp add: bit_signed_take_bit_iff j_def min.commute)
qed

subsection \<open>The operations on arrays are operations on lists of bits\<close>

lemma Compare_0: "Compare a b = 0 \<Longrightarrow> a = b"
  by (cases a; cases b) (auto simp: Compare_def Compare_words_less split: if_splits)

lemma bits_inject: "wf_array a \<Longrightarrow> wf_array b \<Longrightarrow> bits a = bits b \<Longrightarrow> a = b"
  by (rule Compare_0) (simp add: Compare_bits)

lemma Parse_Format:
  assumes "wf_array a" "BitLen a < 2 ^ 62"
  shows "Parse (Format a) = Inr a"
proof -
  have s: "set (Format a) \<subseteq> {CHR ''0'', CHR ''1''}" "map ((=) CHR ''1'') (Format a) = bits a" "length (Format a) < 2 ^ 62"
    using assms by (auto simp: Format_bits bit_char_def comp_def intro: map_idI)
  obtain d where d: "Parse (Format a) = Inr d" "wf_array d" "bits d = bits a" using Parse_bits [OF s(3,1)] s(2) by auto
  then show ?thesis using bits_inject [OF d(2) assms(1)] by simp
qed

lemma bool_op_bits:
  "bit (x AND y) n \<longleftrightarrow> n < 64 \<and> bit x n \<and> bit y n" "bit (x OR y) n \<longleftrightarrow> n < 64 \<and> (bit x n \<or> bit y n)"
  "bit (x XOR y) n \<longleftrightarrow> n < 64 \<and> bit x n \<noteq> bit y n" for x y :: "64 word"
  by (auto simp: bit_and_iff bit_or_iff bit_xor_iff dest: bit_imp_le_length)

text \<open>
  C5: on arrays whose padding is clear, every operation keeps the padding clear and does to the
  array what the operation on lists does to its bits: concatenation, complement, the bitwise
  operations on arrays of one length, shifts by any \<open>int64\<close> in both directions, change of width,
  the successor, and setting one bit.
\<close>

theorem bitarray_refines_lists:
  assumes "wf_array a" "wf_array b" "BitLen a + BitLen b < 2 ^ 61" "int64 k" "n < 2 ^ 62"
  shows "(wf_array (Concat a b) \<and> bits (Concat a b) = bits a @ bits b) \<and>
    (wf_array (Not_array a) \<and> bits (Not_array a) = map Not (bits a)) \<and>
    (BitLen a = BitLen b \<longrightarrow>
      (\<exists>d. And_array a b = Some d \<and> wf_array d \<and> bits d = map2 (\<and>) (bits a) (bits b)) \<and>
      (\<exists>d. Or_array a b = Some d \<and> wf_array d \<and> bits d = map2 (\<or>) (bits a) (bits b)) \<and>
      (\<exists>d. Xor_array a b = Some d \<and> wf_array d \<and> bits d = map2 (\<noteq>) (bits a) (bits b))) \<and>
    (\<exists>d. LeftShiftAny a k = Some d \<and> wf_array d \<and> bits d = shift_bits (bits a) k) \<and>
    (\<exists>d. ToWidth a [] n = Some d \<and> wf_array d \<and> bits d = take n (bits a) @ replicate (n - BitLen a) False) \<and>
    (wf_array (Next a) \<and> bits (Next a) = bits a @ [False]) \<and>
    (i < BitLen a \<longrightarrow> (\<exists>d. SetBitAtIndex a (int i) (of_bool v) = Inr d \<and> wf_array d \<and> bits d = (bits a)[i := v] \<and>
      GetBitAtIndex d (int i) = Inr (of_bool v)))"
proof (intro conjI impI)
  assume e: "BitLen a = BitLen b"
  note b = bitwise_bits [OF assms(1,2) e]
  show "\<exists>d. And_array a b = Some d \<and> wf_array d \<and> bits d = map2 (\<and>) (bits a) (bits b)"
    unfolding And_array_def by (rule b) (simp_all add: bool_op_bits)
  show "\<exists>d. Or_array a b = Some d \<and> wf_array d \<and> bits d = map2 (\<or>) (bits a) (bits b)"
    unfolding Or_array_def by (rule b) (simp_all add: bool_op_bits)
  show "\<exists>d. Xor_array a b = Some d \<and> wf_array d \<and> bits d = map2 (\<noteq>) (bits a) (bits b)"
    unfolding Xor_array_def by (rule b) (simp_all add: bool_op_bits)
next
  assume i: "i < BitLen a"
  obtain d where d: "SetBitAtIndex a (int i) (of_bool v) = Inr d" "wf_array d" "bits d = (bits a)[i := v]"
    using SetBitAtIndex_bits [OF assms(1), of "int i" v] i by auto
  moreover have "BitLen d = BitLen a" using d(3) length_bits [of d] by simp
  ultimately show "\<exists>d. SetBitAtIndex a (int i) (of_bool v) = Inr d \<and> wf_array d \<and> bits d = (bits a)[i := v] \<and>
      GetBitAtIndex d (int i) = Inr (of_bool v)"
    using i GetBitAtIndex_bits [OF d(2), of "int i"] by simp
qed (use Concat_bits [OF assms(1,2)] Not_bits [OF assms(1)] LeftShiftAny_bits [OF assms(1) _ assms(4)]
      ToWidth_bits [OF assms(1,5), of "[]"] Next_bits [OF assms(1)] assms(3) in auto)

lemma one_bit: "wf_array (Next empty_array)" "bits (Next empty_array) = [False]" "BitLen (Next empty_array) = 1"
  using Next_bits [OF empty_bits(1)] length_bits [of "Next empty_array"] by (simp_all add: empty_bits)

theorem bitarray_refines_lists_witness:
  "bits (Concat (Next empty_array) (Next empty_array)) = [False, False] \<and> bits (Not_array (Next empty_array)) = [True]"
  using bitarray_refines_lists [of "Next empty_array" "Next empty_array" 0 0 0 False] by (simp add: one_bit int64_def)

text \<open>
  C18: \<open>Compare\<close> orders arrays of any lengths as their lists of bits are ordered
  lexicographically. Formatting and parsing are inverse, and a string with any other rune than the
  two digits is rejected, with an error that names such a rune. An integer written into an array
  is read back, reduced to its signed width.
\<close>

theorem bitarray_order_text:
  assumes "wf_array a" "wf_array b" "BitLen a < 2 ^ 62"
  shows "Compare a b = (if bits a < bits b then - 1 else if bits b < bits a then 1 else 0) \<and>
    Format a = map bit_char (bits a) \<and> Parse (Format a) = Inr a \<and>
    (\<not> set s \<subseteq> {CHR ''0'', CHR ''1''} \<longrightarrow> (\<exists>c \<in> set (runes s) - {48, 49}. Parse s = Inl (NotBinaryDigit c))) \<and>
    (0 < w \<and> w \<le> 64 \<and> w \<le> n \<and> n < 2 ^ 62 \<longrightarrow>
      (\<exists>d. MakeBitArrayFromInt64 n v w = Some d \<and> BitLen d = n \<and> AsInt64 d w = signed_take_bit (w - 1) v))"
proof (intro conjI impI)
  assume n: "0 < w \<and> w \<le> 64 \<and> w \<le> n \<and> n < 2 ^ 62"
  then obtain d where d: "MakeBitArrayFromInt64 n v w = Some d" "length (bits d) = n"
    using MakeBitArrayFromInt64_bits [of n w v] by (metis length_map length_upt diff_zero)
  then show "\<exists>d. MakeBitArrayFromInt64 n v w = Some d \<and> BitLen d = n \<and> AsInt64 d w = signed_take_bit (w - 1) v"
    using AsInt64_MakeBitArrayFromInt64 n by auto
qed (use Compare_bits [OF assms(1,2)] Format_bits [OF assms(1)] Parse_Format [OF assms(1,3)] Parse_invalid in auto)

theorem bitarray_order_text_witness:
  "Compare empty_array (Next empty_array) = - 1 \<and> Parse (Format (Next empty_array)) = Inr (Next empty_array)"
  using bitarray_order_text [of empty_array "Next empty_array" "[]" 1 1 0]
    bitarray_order_text [of "Next empty_array" "Next empty_array" "[]" 1 1 0] by (auto simp: empty_bits one_bit)

end
