(* ===== verification/Key_Bits.thy ===== *)
theory Key_Bits
  imports Key_Values Bit_Array_Props
begin

unbundle bit_operations_syntax

text \<open>
  Bit arrays as keys (\<open>utils/encoding/encoding.go\<close>): the words as a terminated sequence of
  \<open>uvarint\<close>s, then the number of bits used in the last word. The order of the keys is the order
  \<open>Compare\<close> gives the arrays.
\<close>

subsection \<open>Encoding and decoding\<close>

definition EncodeBitArrayAscending :: "bytes \<Rightarrow> BitArray \<Rightarrow> bytes" where
  "EncodeBitArrayAscending b d =
     (let (ws, lastBits) = EncodingParts d in
      EncodeUvarintAscending (foldl EncodeUvarintAscending (b @ [bitArrayMarker]) ws @ [bitArrayDataTerminator])
        (word_of_nat lastBits))"

definition EncodeBitArrayDescending :: "bytes \<Rightarrow> BitArray \<Rightarrow> bytes" where
  "EncodeBitArrayDescending b d =
     (let (ws, lastBits) = EncodingParts d in
      EncodeUvarintDescending (foldl EncodeUvarintDescending (b @ [bitArrayDescMarker]) ws @ [bitArrayDataDescTerminator])
        (word_of_nat lastBits))"

lemma getVarintLen_pos: "getVarintLen b = Inr n \<Longrightarrow> 1 \<le> n \<and> (b \<noteq> [] \<longrightarrow> n \<le> length b)"
  by (cases b) (auto simp: getVarintLen_def Let_def Suc_le_eq split: if_splits)

function getBitArrayWordsLen_loop :: "byte \<Rightarrow> nat \<Rightarrow> bytes \<Rightarrow> nat \<Rightarrow> nat \<Rightarrow> key_error + nat \<times> nat" where
  "getBitArrayWordsLen_loop stop n bSearch numWords sz =
     (if bSearch = [] then Inl (TooShort n)
      else if hd bSearch = stop then Inr (numWords, sz)
      else case getVarintLen bSearch of
        Inl e \<Rightarrow> Inl e
      | Inr vLen \<Rightarrow> getBitArrayWordsLen_loop stop n (drop vLen bSearch) (numWords + 1) (sz + vLen))"
  by pat_completeness auto
termination by (relation "measure (\<lambda>(stop, n, b, k, sz). length b)") (auto dest: getVarintLen_pos)

declare getBitArrayWordsLen_loop.simps [simp del]

definition getBitArrayWordsLen :: "bytes \<Rightarrow> byte \<Rightarrow> key_error + nat \<times> nat" where
  "getBitArrayWordsLen b stop = getBitArrayWordsLen_loop stop (length b) b 0 0"

fun decode_words :: "(bytes \<Rightarrow> key_error + bytes \<times> 64 word) \<Rightarrow> nat \<Rightarrow> bytes \<Rightarrow> key_error + bytes \<times> 64 word list" where
  "decode_words dec 0 b = Inr (b, [])"
| "decode_words dec (Suc n) b =
     bind_result (dec b) (\<lambda>(b1, w). bind_result (decode_words dec n b1) (\<lambda>(b2, ws). Inr (b2, w # ws)))"

definition decode_array :: "Type \<Rightarrow> byte \<Rightarrow> (bytes \<Rightarrow> key_error + bytes \<times> 64 word) \<Rightarrow> bytes \<Rightarrow> key_error + bytes \<times> BitArray" where
  "decode_array typ stop dec b =
     (if PeekType b \<noteq> typ then Inl (NoMarker None b)
      else bind_result (getBitArrayWordsLen (tl b) stop) (\<lambda>(numWords, _).
        bind_result (decode_words dec numWords (tl b)) (\<lambda>(b1, ws).
          if b1 = [] \<or> hd b1 \<noteq> stop then Inl TerminatorMissing
          else bind_result (dec (tl b1)) (\<lambda>(b2, lastVal).
            case FromEncodingParts ws (unat lastVal) of
              Inl e \<Rightarrow> Inl (OtherError ''FromEncodingParts: lastBitsUsed must not exceed 64'')
            | Inr ba \<Rightarrow> Inr (b2, ba)))))"

definition DecodeBitArrayAscending :: "bytes \<Rightarrow> key_error + bytes \<times> BitArray" where
  "DecodeBitArrayAscending b = decode_array BitArrayType bitArrayDataTerminator DecodeUvarintAscending b"

definition DecodeBitArrayDescending :: "bytes \<Rightarrow> key_error + bytes \<times> BitArray" where
  "DecodeBitArrayDescending b = decode_array BitArrayDesc bitArrayDataDescTerminator DecodeUvarintDescending b"

subsection \<open>Terminated sequences of encodings\<close>

fun list_before :: "bool \<Rightarrow> ('a \<Rightarrow> 'a \<Rightarrow> bool) \<Rightarrow> 'a list \<Rightarrow> 'a list \<Rightarrow> bool" where
  "list_before up lt [] [] = False"
| "list_before up lt [] (w # ws) = up"
| "list_before up lt (v # vs) [] = (\<not> up)"
| "list_before up lt (v # vs) (w # ws) = (lt v w \<or> v = w \<and> list_before up lt vs ws)"

lemma list_before_less:
  "list_before True (<) vs ws \<longleftrightarrow> vs < ws" "list_before False (\<lambda>v w. w < v) vs ws \<longleftrightarrow> ws < vs" for vs ws :: "'a :: order list"
  by (induction vs ws rule: list_induct2') auto

text \<open>
  A sequence of encodings is ended by a byte that is less than the first byte of any encoding, or
  greater when the order is descending.
\<close>

locale key_list =
  key_codec enc dec "\<lambda>_. True" less
  for enc :: "'a \<Rightarrow> bytes" and dec :: "bytes \<Rightarrow> 'e + bytes \<times> 'a" and less +
  fixes stop :: byte and up :: bool
  assumes enc_ne: "enc v \<noteq> []"
    and stop_up: "up \<Longrightarrow> stop < hd (enc v)"
    and stop_down: "\<not> up \<Longrightarrow> hd (enc v) < stop"
begin

lemma enc_first: "hd (enc v @ r) = hd (enc v)" "enc v @ r \<noteq> []" "hd (enc v) \<noteq> stop"
  using enc_ne [of v] stop_up [of v] stop_down [of v] by (cases up; simp)+

lemma first_less: "b \<noteq> [] \<Longrightarrow> hd b < c \<Longrightarrow> b @ x < c # y" "b \<noteq> [] \<Longrightarrow> c < hd b \<Longrightarrow> c # y < b @ x" for b :: bytes
  by (cases b; simp)+

lemma seq_less: "list_before up less vs ws \<Longrightarrow> concat (map enc vs) @ stop # x < concat (map enc ws) @ stop # y"
proof (induction vs ws rule: list_induct2')
  case (4 v vs w ws)
  then show ?case using enc_less [of v w] by (auto simp: less_append_iff)
qed (use stop_up stop_down enc_ne in \<open>auto intro!: first_less\<close>)

end

lemma uvarint_hd:
  "EncodeUvarintAscending [] v \<noteq> []" "0 < hd (EncodeUvarintAscending [] v)"
  "EncodeUvarintDescending [] v \<noteq> []" "hd (EncodeUvarintDescending [] v) < 0xff"
  using EncodeUvarintAscending_hd [of v] tag_up(2) [OF byte_width_range [of "unat v"]]
  by (auto simp: word_less_nat_alt EncodeUvarintDescending_width)

interpretation words_asc: key_list "EncodeUvarintAscending []" DecodeUvarintAscending "(<)" bitArrayDataTerminator True
  by unfold_locales (simp_all add: uvarint_hd)

interpretation words_desc: key_list "EncodeUvarintDescending []" DecodeUvarintDescending "\<lambda>v w. w < v" bitArrayDataDescTerminator False
  by unfold_locales (simp_all add: uvarint_hd)

lemma getVarintLen_uvarint:
  "getVarintLen (EncodeUvarintAscending [] v @ r) = Inr (length (EncodeUvarintAscending [] v))"
  "getVarintLen (EncodeUvarintDescending [] v @ r) = Inr (length (EncodeUvarintDescending [] v))"
proof -
  note w = byte_width_range [of "unat v"]
  have u: "uint (up_tag (byte_width (unat v))) = 245 + int (byte_width (unat v))"
    using arg_cong [OF tag_up(1) [OF w], of int] by simp
  have s: "v \<le> 109 \<Longrightarrow> uint (136 + ucast v :: byte) = 136 + uint v \<and> uint v \<le> 109"
    using arg_cong [OF tag_small [of v], of int] by (simp add: word_le_def)
  show "getVarintLen (EncodeUvarintAscending [] v @ r) = Inr (length (EncodeUvarintAscending [] v))"
    using w u s by (cases "v \<le> 109") (simp_all add: EncodeUvarintAscending_width getVarintLen_def Let_def)
  show "getVarintLen (EncodeUvarintDescending [] v @ r) = Inr (length (EncodeUvarintDescending [] v))"
    using w uint_down_tag [OF w] by (auto simp: EncodeUvarintDescending_width getVarintLen_def Let_def nat_add_distrib)
qed

lemma foldl_encode:
  "(\<And>b v. enc b v = b @ enc [] v) \<Longrightarrow> foldl enc b ws = b @ concat (map (enc []) ws)"
proof (induction ws arbitrary: b)
  case (Cons w ws)
  then show ?case by (metis append_assoc concat.simps(2) foldl_Cons list.simps(9))
qed simp

lemma EncodeBitArray_append:
  "EncodeBitArrayAscending b d = b @ bitArrayMarker # concat (map (EncodeUvarintAscending []) (words d)) @
     bitArrayDataTerminator # EncodeUvarintAscending [] (word_of_nat (lastBitsUsed d))"
  "EncodeBitArrayDescending b d = b @ bitArrayDescMarker # concat (map (EncodeUvarintDescending []) (words d)) @
     bitArrayDataDescTerminator # EncodeUvarintDescending [] (word_of_nat (lastBitsUsed d))"
proof -
  have *: "foldl EncodeUvarintAscending b ws = b @ concat (map (EncodeUvarintAscending []) ws)"
    "foldl EncodeUvarintDescending b ws = b @ concat (map (EncodeUvarintDescending []) ws)" for b ws
    by (rule foldl_encode, rule Encode_append)+
  show "EncodeBitArrayAscending b d = b @ bitArrayMarker # concat (map (EncodeUvarintAscending []) (words d)) @
     bitArrayDataTerminator # EncodeUvarintAscending [] (word_of_nat (lastBitsUsed d))"
    "EncodeBitArrayDescending b d = b @ bitArrayDescMarker # concat (map (EncodeUvarintDescending []) (words d)) @
     bitArrayDataDescTerminator # EncodeUvarintDescending [] (word_of_nat (lastBitsUsed d))"
    by (simp_all add: EncodeBitArrayAscending_def EncodeBitArrayDescending_def EncodingParts_def * Encode_append_ne)
qed

context key_list
begin

lemma words_len:
  assumes "\<And>v r. getVarintLen (enc v @ r) = Inr (length (enc v))"
  shows "getBitArrayWordsLen_loop stop n (concat (map enc ws) @ stop # r) k sz = Inr (k + length ws, sz + length (concat (map enc ws)))"
proof (induction ws arbitrary: k sz)
  case Nil
  show ?case by (subst getBitArrayWordsLen_loop.simps) simp
next
  case (Cons w ws)
  show ?case
    using Cons [of "k + 1" "sz + length (enc w)"] enc_first(1,2) [of w "concat (map enc ws) @ stop # r"] enc_first(3) [of w] assms
    by (subst getBitArrayWordsLen_loop.simps) simp
qed

end

lemma decode_seq:
  assumes "\<And>v r. dec (enc v @ r) = Inr (r, v)"
  shows "decode_words dec (length ws) (concat (map enc ws) @ r) = Inr (r, ws)"
  by (induction ws) (simp_all add: assms)

lemma decode_array_enc:
  assumes "\<And>v r. dec (enc v @ r) = Inr (r, v)" "PeekType (m # concat (map enc (words d)) @ stop # enc (word_of_nat (lastBitsUsed d)) @ r) = typ"
    and "getBitArrayWordsLen (concat (map enc (words d)) @ stop # enc (word_of_nat (lastBitsUsed d)) @ r) stop = Inr (length (words d), n)"
    and "lastBitsUsed d \<le> 64"
  shows "decode_array typ stop dec (m # concat (map enc (words d)) @ stop # enc (word_of_nat (lastBitsUsed d)) @ r) = Inr (r, d)"
proof -
  have "unat (word_of_nat (lastBitsUsed d) :: 64 word) = lastBitsUsed d"
    using assms(4) by (simp add: unsigned_of_nat take_bit_nat_eq_self)
  then show ?thesis
    using assms(2-) decode_seq [of dec enc, OF assms(1)] by (simp add: decode_array_def assms(1) FromEncodingParts_def)
qed

lemma Compare_less: "Compare d e = - 1 \<longleftrightarrow> words d < words e \<or> words d = words e \<and> lastBitsUsed d < lastBitsUsed e"
  by (auto simp: Compare_def Compare_words_less)

lemma wf_last: "wf_array d \<Longrightarrow> lastBitsUsed d \<le> 64"
  by (cases "words d = []") (simp_all add: wf_array_def)

lemma last_less: "m < n \<Longrightarrow> n \<le> 64 \<Longrightarrow> (word_of_nat m :: 64 word) < word_of_nat n"
  by (simp add: word_less_nat_alt unsigned_of_nat take_bit_nat_eq_self)

lemma PeekType_bits: "PeekType (bitArrayMarker # r) = BitArrayType" "PeekType (bitArrayDescMarker # r) = BitArrayDesc"
  by (simp_all add: PeekType_slow slowPeekType_def)

interpretation bits_asc: key_codec "EncodeBitArrayAscending []" DecodeBitArrayAscending wf_array "\<lambda>d e. Compare d e = - 1"
proof unfold_locales
  show "DecodeBitArrayAscending (EncodeBitArrayAscending [] d @ r) = Inr (r, d)" if "wf_array d" for d r
    using words_asc.words_len [OF getVarintLen_uvarint(1)] wf_last [OF that]
    by (simp add: DecodeBitArrayAscending_def EncodeBitArray_append PeekType_bits getBitArrayWordsLen_def
        decode_array_enc [where enc = "EncodeUvarintAscending []", OF uvarint_asc.dec_enc [OF TrueI]])
  show "EncodeBitArrayAscending [] d @ x < EncodeBitArrayAscending [] e @ y" if "wf_array d" "wf_array e" "Compare d e = - 1" for d e x y
    using that(3) words_asc.seq_less [of "words d" "words e"] last_less [OF _ wf_last [OF that(2)]]
      uvarint_asc.enc_less [OF TrueI TrueI]
    by (auto simp: Compare_less EncodeBitArray_append list_before_less less_append_iff)
qed

interpretation bits_desc: key_codec "EncodeBitArrayDescending []" DecodeBitArrayDescending wf_array "\<lambda>d e. Compare e d = - 1"
proof unfold_locales
  show "DecodeBitArrayDescending (EncodeBitArrayDescending [] d @ r) = Inr (r, d)" if "wf_array d" for d r
    using words_desc.words_len [OF getVarintLen_uvarint(2)] wf_last [OF that]
    by (simp add: DecodeBitArrayDescending_def EncodeBitArray_append PeekType_bits getBitArrayWordsLen_def
        decode_array_enc [where enc = "EncodeUvarintDescending []", OF uvarint_desc.dec_enc [OF TrueI]])
  show "EncodeBitArrayDescending [] d @ x < EncodeBitArrayDescending [] e @ y" if "wf_array d" "wf_array e" "Compare e d = - 1" for d e x y
    using that(3) words_desc.seq_less [of "words d" "words e"] last_less [OF _ wf_last [OF that(1)]]
      uvarint_desc.enc_less [OF TrueI TrueI]
    by (auto simp: Compare_less EncodeBitArray_append list_before_less less_append_iff)
qed

end
