(* ===== verification/Key_Length.thy ===== *)
theory Key_Length
  imports Key_Bits
begin

unbundle bit_operations_syntax

text \<open>
  The length of an encoded value without decoding it (\<open>PeekLength\<close> and what it calls), and the
  loop that splits a key into its values. The functions are run on bytes of any origin: a read
  out of range is \<open>None\<close>.
\<close>

subsection \<open>Lengths of the parts\<close>

text \<open>A slice operation or an index out of range panics: \<open>None\<close>.\<close>

definition varint_len :: "bytes \<Rightarrow> (key_error + nat) option" where
  "varint_len b = (if b = [] then None else Some (getVarintLen b))"

fun GetMultiVarintLen_loop :: "nat \<Rightarrow> bytes \<Rightarrow> nat \<Rightarrow> key_error + nat" where
  "GetMultiVarintLen_loop 0 b p = Inr p"
| "GetMultiVarintLen_loop (Suc num) b p =
     (if p < length b
      then bind_result (getVarintLen (drop p b)) (\<lambda>len. GetMultiVarintLen_loop num b (p + len))
      else Inr p)"

definition GetMultiVarintLen :: "bytes \<Rightarrow> nat \<Rightarrow> key_error + nat" where
  "GetMultiVarintLen b num = GetMultiVarintLen_loop num b 1"

definition findDecimalTerminator :: "bytes \<Rightarrow> key_error + nat" where
  "findDecimalTerminator buf =
     (case IndexByte buf decimalTerminator of Some idx \<Rightarrow> Inr idx | None \<Rightarrow> Inl (NoTerminator decimalTerminator buf))"

definition getDecimalLen :: "bytes \<Rightarrow> (key_error + nat) option" where
  "getDecimalLen buf =
     (let m = hd buf;
          terminated = (\<lambda>p. Some (bind_result (findDecimalTerminator (drop p buf)) (\<lambda>idx. Inr (p + idx + 1)))) in
      if m < decimalNaN \<or> m > decimalNaNDesc then None
      else if m \<in> {decimalNaN, decimalNegativeInfinity, decimalNaNDesc, decimalInfinity, decimalZero} then Some (Inr 1)
      else if m \<in> {decimalNegLarge, decimalNegSmall, decimalPosLarge, decimalPosSmall}
      then (case varint_len (tl buf) of
              None \<Rightarrow> None
            | Some (Inl e) \<Rightarrow> Some (Inl e)
            | Some (Inr l) \<Rightarrow> terminated (1 + l))
      else terminated 1)"

function getInvertedIndexKeyLength_loop :: "bytes \<Rightarrow> nat \<Rightarrow> (key_error + nat) option" where
  "getInvertedIndexKeyLength_loop b skipped =
     (case IndexByte (drop skipped b) escape of
        None \<Rightarrow> Some (Inl (OtherError ''malformed inverted index key''))
      | Some i \<Rightarrow>
          let skipped' = skipped + i + 2 in
          if skipped' - 1 \<ge> length b then None
          else if b ! (skipped' - 1) \<in> {escapedTerm, jsonEmptyObject, jsonEmptyArray} then Some (Inr skipped')
          else getInvertedIndexKeyLength_loop b skipped')"
  by pat_completeness auto
termination by (relation "measure (\<lambda>(b, skipped). length b - skipped)") auto

declare getInvertedIndexKeyLength_loop.simps [simp del]

definition getInvertedIndexKeyLength :: "bytes \<Rightarrow> (key_error + nat) option" where
  "getInvertedIndexKeyLength b = getInvertedIndexKeyLength_loop b 0"

lemma getInvertedIndexKeyLength_bounds:
  "getInvertedIndexKeyLength_loop b skipped = Some (Inr n) \<Longrightarrow> skipped + 2 \<le> n \<and> n \<le> length b"
proof (induction b skipped rule: getInvertedIndexKeyLength_loop.induct)
  case (1 b skipped)
  then show ?case
    by (subst (asm) (2) getInvertedIndexKeyLength_loop.simps) (fastforce simp: Let_def split: option.splits if_splits)
qed

definition ascendingGeoEscapes :: escapes where
  "ascendingGeoEscapes =
     \<lparr>esc_escape = escape, esc_escapedTerm = escapedTerm, esc_escaped00 = escaped00,
      esc_escapedFF = escapedFF, esc_marker = geoMarker\<rparr>"

definition descendingGeoEscapes :: escapes where
  "descendingGeoEscapes =
     \<lparr>esc_escape = NOT escape, esc_escapedTerm = NOT escapedTerm, esc_escaped00 = NOT escaped00,
      esc_escapedFF = NOT escapedFF, esc_marker = geoDescMarker\<rparr>"

definition getBitArrayLength :: "bytes \<Rightarrow> (key_error + nat) option" where
  "getBitArrayLength b =
     (case getBitArrayWordsLen (tl b) (if hd b = bitArrayDescMarker then bitArrayDataDescTerminator else bitArrayDataTerminator) of
        Inl e \<Rightarrow> Some (Inl e)
      | Inr (_, n) \<Rightarrow>
          (case varint_len (drop (n + 2) b) of
             None \<Rightarrow> None
           | Some (Inl e) \<Rightarrow> Some (Inl e)
           | Some (Inr m) \<Rightarrow> Some (Inr (1 + n + m + 1))))"

subsection \<open>The length of a value\<close>

lemma tail_measure: "b \<noteq> [] \<Longrightarrow> Suc (3 * (length b - Suc 0)) < 3 * length b"
  by (cases b) simp_all

text \<open>
  An array holds values, so the three functions call each other. The loop of \<open>getArrayLength\<close>
  would not end on a value of length 0; there is none (\<open>PeekLength_bounds\<close>).
\<close>

function (sequential) PeekLength :: "bytes \<Rightarrow> (key_error + nat) option"
  and getArrayLength :: "bytes \<Rightarrow> Direction \<Rightarrow> nat \<Rightarrow> (key_error + nat) option"
  and getJSONInvertedIndexKeyLength :: "bytes \<Rightarrow> (key_error + nat) option" where
  "PeekLength b =
     (if b = [] then Some (Inl EmptySlice)
      else
        (let m = hd b in
         if m \<in> {encodedNull, encodedNullDesc, encodedNotNull, encodedNotNullDesc, floatNaN, floatNaNDesc, floatZero,
                 decimalZero, word_of_int TrueType, word_of_int FalseType} then Some (Inr 1)
         else if m \<in> {bitArrayMarker, bitArrayDescMarker} then getBitArrayLength b
         else if m \<in> {arrayKeyMarker, arrayKeyDescendingMarker} then
           (case getArrayLength (tl b) (if m = arrayKeyDescendingMarker then Descending else Ascending) 0 of
              None \<Rightarrow> None
            | Some (Inl e) \<Rightarrow> Some (Inl e)
            | Some (Inr len) \<Rightarrow> Some (Inr (1 + len)))
         else if m = bytesMarker then getBytesLength b ascendingBytesEscapes
         else if m = geoMarker then getBytesLength b ascendingGeoEscapes
         else if m = jsonInvertedIndex then getJSONInvertedIndexKeyLength b
         else if m = bytesDescMarker then getBytesLength b descendingBytesEscapes
         else if m = geoDescMarker then getBytesLength b descendingGeoEscapes
         else if m \<in> {timeMarker, timeTZMarker} then Some (GetMultiVarintLen b 2)
         else if m \<in> {durationBigNegMarker, durationMarker, durationBigPosMarker} then Some (GetMultiVarintLen b 3)
         else if m \<in> {floatNeg, floatPos} then Some (if length b < 9 then Inl (TooShort (length b)) else Inr 9)
         else if m \<ge> IntMin \<and> m \<le> IntMax then Some (getVarintLen b)
         else if m \<ge> decimalNaN \<and> m \<le> decimalNaNDesc then getDecimalLen b
         else Some (Inl (UnknownTag m))))"
| "getArrayLength buf dir result =
     (if buf = [] then Some (Inl (OtherError ''invalid array encoding (unterminated)''))
      else if IsArrayKeyDone buf dir = Some True then Some (Inr (result + 1))
      else
        (case PeekLength buf of
           None \<Rightarrow> None
         | Some (Inl e) \<Rightarrow> Some (Inl e)
         | Some (Inr next) \<Rightarrow>
             if 0 < next \<and> next \<le> length buf then getArrayLength (drop next buf) dir (result + next) else None))"
| "getJSONInvertedIndexKeyLength buf =
     (case getInvertedIndexKeyLength buf of
        None \<Rightarrow> None
      | Some (Inl e) \<Rightarrow> Some (Inl e)
      | Some (Inr len) \<Rightarrow>
          if len \<ge> length buf then None
          else if buf ! len \<in> {jsonEmptyArray, jsonEmptyObject} then Some (Inr (len + 1))
          else
            (case PeekLength (drop len buf) of
               None \<Rightarrow> None
             | Some (Inl e) \<Rightarrow> Some (Inl e)
             | Some (Inr valLen) \<Rightarrow> Some (Inr (len + valLen))))"
  by pat_completeness auto
termination
  by (relation "measure (\<lambda>x. case x of Inl b \<Rightarrow> 3 * length b + 1 | Inr (Inl (buf, _, _)) \<Rightarrow> 3 * length buf + 2 | Inr (Inr buf) \<Rightarrow> 3 * length buf)")
    (auto simp: getInvertedIndexKeyLength_def dest: getInvertedIndexKeyLength_bounds intro: tail_measure)

declare PeekLength.simps [simp del] getArrayLength.simps [simp del] getJSONInvertedIndexKeyLength.simps [simp del]

subsection \<open>A length found lies in the buffer\<close>

lemma varint_len_bounds: "varint_len b = Some (Inr n) \<Longrightarrow> 1 \<le> n \<and> n \<le> length b"
  using getVarintLen_pos [of b n] by (simp add: varint_len_def split: if_splits)

lemma GetMultiVarintLen_bounds:
  "GetMultiVarintLen_loop num b p = Inr n \<Longrightarrow> p \<le> length b \<Longrightarrow> p \<le> n \<and> n \<le> length b"
proof (induction num arbitrary: p)
  case (Suc num)
  show ?case
  proof (cases "p < length b")
    case True
    then obtain l where l: "getVarintLen (drop p b) = Inr l" "GetMultiVarintLen_loop num b (p + l) = Inr n"
      using Suc.prems(1) by (cases "getVarintLen (drop p b)") auto
    have "p + l \<le> length b" using getVarintLen_pos [OF l(1)] True by auto
    then show ?thesis using Suc.IH [OF l(2)] by simp
  qed (use Suc.prems in simp)
qed simp

lemma getBytesLength_bounds: "getBytesLength_loop b e skipped = Some (Inr n) \<Longrightarrow> skipped + 2 \<le> n \<and> n \<le> length b"
proof (induction b e skipped rule: getBytesLength_loop.induct)
  case (1 b e skipped)
  then show ?case
    by (subst (asm) (2) getBytesLength_loop.simps) (fastforce simp: Let_def split: option.splits if_splits)
qed

lemma getBitArrayWordsLen_bounds:
  "getBitArrayWordsLen_loop stop k b nw sz = Inr (nw', sz') \<Longrightarrow> \<exists>j. sz' = sz + j \<and> j < length b \<and> b ! j = stop"
proof (induction stop k b nw sz rule: getBitArrayWordsLen_loop.induct)
  case (1 stop k b nw sz)
  show ?case
  proof (cases "b = [] \<or> hd b = stop")
    case True
    then show ?thesis using "1.prems" by (subst (asm) getBitArrayWordsLen_loop.simps) (auto simp: hd_conv_nth split: if_splits)
  next
    case False
    then obtain v where v: "getVarintLen b = Inr v" "getBitArrayWordsLen_loop stop k (drop v b) (nw + 1) (sz + v) = Inr (nw', sz')"
      using "1.prems" by (subst (asm) getBitArrayWordsLen_loop.simps) (auto split: sum.splits)
    from "1.IH" [OF _ _ v] False obtain j where "sz' = sz + v + j" "j < length (drop v b)" "drop v b ! j = stop" by blast
    then show ?thesis using getVarintLen_pos [OF v(1)] False by (intro exI [of _ "v + j"]) auto
  qed
qed

lemma getBitArrayLength_bounds: "getBitArrayLength b = Some (Inr n) \<Longrightarrow> b \<noteq> [] \<Longrightarrow> 1 \<le> n \<and> n \<le> length b"
  by (auto simp: getBitArrayLength_def getBitArrayWordsLen_def split: sum.splits option.splits prod.splits
      dest!: getBitArrayWordsLen_bounds varint_len_bounds)

lemma terminator_bounds: "findDecimalTerminator (drop p b) = Inr idx \<Longrightarrow> p + idx + 1 \<le> length b"
  by (auto simp: findDecimalTerminator_def split: option.splits dest!: IndexByte_less)

lemma getDecimalLen_bounds:
  assumes "getDecimalLen b = Some (Inr n)" "b \<noteq> []"
  shows "1 \<le> n \<and> n \<le> length b"
  using assms(1) assms(2) unfolding getDecimalLen_def Let_def
  by (auto simp: Suc_le_eq split: if_splits option.splits sum.splits dest!: terminator_bounds)

lemma PeekLength_cases:
  assumes "PeekLength b = Some (Inr n)"
  obtains (one) "n = 1" | (bits) "getBitArrayLength b = Some (Inr n)"
    | (arr) m where "hd b = arrayKeyMarker \<or> hd b = arrayKeyDescendingMarker"
        "getArrayLength (tl b) (if hd b = arrayKeyDescendingMarker then Descending else Ascending) 0 = Some (Inr m)" "n = 1 + m"
    | (bytes) e where "getBytesLength b e = Some (Inr n)"
    | (json) "hd b = jsonInvertedIndex" "getJSONInvertedIndexKeyLength b = Some (Inr n)"
    | (two) "GetMultiVarintLen b 2 = Inr n" | (three) "GetMultiVarintLen b 3 = Inr n"
    | (float) "n = 9" "9 \<le> length b" | (int) "getVarintLen b = Inr n" | (dec) "getDecimalLen b = Some (Inr n)"
proof -
  have i: "(if c then x else y) = z \<longleftrightarrow> c \<and> x = z \<or> \<not> c \<and> y = z" for c and x y z :: "(key_error + nat) option" by simp
  have e: "Some (Inl x) = Some (Inr n) \<longleftrightarrow> False" for x :: key_error by simp
  show ?thesis
    using assms [unfolded PeekLength.simps [of b] Let_def i e]
    by (elim disjE conjE FalseE)
      ((rule one, simp; fail) | (rule bits, assumption; fail) | (auto intro: arr split: option.splits sum.splits; fail) |
       (rule bytes, assumption; fail) | (rule json; assumption; fail) | (rule two, simp; fail) | (rule three, simp; fail) |
       (auto intro: float split: if_splits; fail) | (rule int, simp; fail) | (rule dec, assumption; fail))+
qed

lemma PeekLength_bounds_all:
  "(PeekLength b = Some (Inr n) \<longrightarrow> 1 \<le> n \<and> n \<le> length b)"
  "(getArrayLength buf dir result = Some (Inr n) \<longrightarrow> result + 1 \<le> n \<and> n \<le> result + length buf)"
  "(getJSONInvertedIndexKeyLength buf' = Some (Inr n) \<longrightarrow> 1 \<le> n \<and> n \<le> length buf')"
proof (induction b and buf dir result and buf' arbitrary: n and n and n rule: PeekLength_getArrayLength_getJSONInvertedIndexKeyLength.induct)
  case (1 b)
  show ?case
  proof (cases "b = []")
    case False
    then have l: "1 \<le> length b" by (simp add: Suc_le_eq)
    have a: "hd b = arrayKeyMarker \<or> hd b = arrayKeyDescendingMarker \<Longrightarrow>
      getArrayLength (tl b) (if hd b = arrayKeyDescendingMarker then Descending else Ascending) 0 = Some (Inr m) \<Longrightarrow> 1 + m \<le> length b" for m
      using "1.IH"(1) [OF False refl, of m] l by (auto simp: le_diff_conv2)
    have j: "hd b = jsonInvertedIndex \<Longrightarrow> getJSONInvertedIndexKeyLength b = Some (Inr n) \<Longrightarrow> 1 \<le> n \<and> n \<le> length b"
      using "1.IH"(2) [OF False refl, of n] by simp
    show ?thesis
    proof
      assume "PeekLength b = Some (Inr n)"
      then show "1 \<le> n \<and> n \<le> length b"
        using False l a j getBitArrayLength_bounds [of b n] getDecimalLen_bounds [of b n] getVarintLen_pos [of b n]
          GetMultiVarintLen_bounds [of 2 b 1 n] GetMultiVarintLen_bounds [of 3 b 1 n]
        by (elim PeekLength_cases) (auto simp: getBytesLength_def GetMultiVarintLen_def dest!: getBytesLength_bounds)
    qed
  qed (simp add: PeekLength.simps)
next
  case (2 buf dir result)
  show ?case
  proof
    assume p: "getArrayLength buf dir result = Some (Inr n)"
    then have ne: "buf \<noteq> []" by (auto simp: getArrayLength.simps)
    show "result + 1 \<le> n \<and> n \<le> result + length buf"
    proof (cases "IsArrayKeyDone buf dir = Some True")
      case True
      then show ?thesis using p ne by (auto simp: getArrayLength.simps Suc_le_eq)
    next
      case False
      then obtain k where x: "PeekLength buf = Some (Inr k)" "0 < k" "k \<le> length buf"
        "getArrayLength (drop k buf) dir (result + k) = Some (Inr n)"
        using p ne by (subst (asm) getArrayLength.simps) (auto split: option.splits sum.splits if_splits)
      then show ?thesis using "2.IH"(2) [OF ne False x(1) refl, of n] by auto
    qed
  qed
next
  case (3 buf)
  show ?case
  proof
    assume p: "getJSONInvertedIndexKeyLength buf = Some (Inr n)"
    then obtain len where len: "getInvertedIndexKeyLength buf = Some (Inr len)" "\<not> length buf \<le> len"
      "n = len + 1 \<or> (buf ! len \<notin> {jsonEmptyArray, jsonEmptyObject} \<and> (\<exists>v. PeekLength (drop len buf) = Some (Inr v) \<and> n = len + v))"
      by (subst (asm) getJSONInvertedIndexKeyLength.simps) (auto split: option.splits sum.splits if_splits)
    then show "1 \<le> n \<and> n \<le> length buf" using "3.IH" [OF len(1) refl len(2)] by fastforce
  qed
qed

lemmas PeekLength_bounds = PeekLength_bounds_all(1) [rule_format]

subsection \<open>Splitting a key\<close>

function DecomposeKeyTokens_loop :: "bytes \<Rightarrow> bytes list \<Rightarrow> bool \<Rightarrow> (key_error + bytes list \<times> bool) option" where
  "DecomposeKeyTokens_loop b out containsNull =
     (if b = [] then Some (Inr (out, containsNull))
      else case PeekLength b of
        None \<Rightarrow> None
      | Some (Inl e) \<Rightarrow> Some (Inl e)
      | Some (Inr tokenLen) \<Rightarrow>
          DecomposeKeyTokens_loop (drop tokenLen b) (out @ [take tokenLen b]) (containsNull \<or> PeekType b = Null))"
  by pat_completeness auto
termination
  by (relation "measure (\<lambda>(b, out, containsNull). length b)") (auto dest: PeekLength_bounds)

declare DecomposeKeyTokens_loop.simps [simp del]

definition DecomposeKeyTokens :: "bytes \<Rightarrow> (key_error + bytes list \<times> bool) option" where
  "DecomposeKeyTokens b = DecomposeKeyTokens_loop b [] False"

text \<open>What the loop adds to the tokens it has.\<close>

lemma DecomposeKeyTokens_loop_spec:
  "DecomposeKeyTokens_loop b out cn = Some (Inr (tokens, cn')) \<Longrightarrow>
   \<exists>ts. tokens = out @ ts \<and> concat ts = b \<and> (\<forall>t \<in> set ts. t \<noteq> []) \<and> (cn' \<longleftrightarrow> cn \<or> (\<exists>t \<in> set ts. PeekType t = Null))"
proof (induction b out cn rule: DecomposeKeyTokens_loop.induct)
  case (1 b out cn)
  show ?case
  proof (cases "b = []")
    case True
    then show ?thesis using "1.prems" by (simp add: DecomposeKeyTokens_loop.simps)
  next
    case False
    then obtain n where n: "PeekLength b = Some (Inr n)"
      "DecomposeKeyTokens_loop (drop n b) (out @ [take n b]) (cn \<or> PeekType b = Null) = Some (Inr (tokens, cn'))"
      using "1.prems" by (subst (asm) DecomposeKeyTokens_loop.simps) (auto split: option.splits sum.splits)
    from "1.IH" [OF False n(1) refl n(2)] obtain ts where ts: "tokens = out @ take n b # ts" "concat ts = drop n b"
      "\<forall>t \<in> set ts. t \<noteq> []" "cn' \<longleftrightarrow> (cn \<or> PeekType b = Null) \<or> (\<exists>t \<in> set ts. PeekType t = Null)" by auto
    have nb: "1 \<le> n" "take n b \<noteq> []" using PeekLength_bounds [OF n(1)] False by auto
    then have "PeekType (take n b) = PeekType b" by (cases b; cases n) (simp_all add: PeekType_def)
    then show ?thesis using ts nb by (intro exI [of _ "take n b # ts"]) auto
  qed
qed

lemma DecomposeKeyTokens_append:
  assumes "\<And>t r. t \<in> set ts \<Longrightarrow> t \<noteq> [] \<and> PeekLength (t @ r) = Some (Inr (length t))"
  shows "DecomposeKeyTokens_loop (concat ts) out cn = Some (Inr (out @ ts, cn \<or> (\<exists>t \<in> set ts. PeekType t = Null)))"
  using assms
proof (induction ts arbitrary: out cn)
  case Nil
  show ?case by (simp add: DecomposeKeyTokens_loop.simps)
next
  case (Cons t ts)
  have t: "t \<noteq> []" "PeekLength (t @ concat ts) = Some (Inr (length t))" using Cons.prems by simp_all
  then have "PeekType (t @ concat ts) = PeekType t" by (cases t) (simp_all add: PeekType_def)
  then show ?case using Cons t by (subst DecomposeKeyTokens_loop.simps) auto
qed

end
