(* ===== verification/Key_Rows.thy ===== *)
theory Key_Rows
  imports Key_Length
begin

unbundle bit_operations_syntax

text \<open>
  Composite keys: rows of columns, each encoded with the encoder of its type and direction, one
  after the other. The decoder of a column chooses by \<open>PeekType\<close>, as \<open>prettyPrintFirstValue\<close> does.
  The contract \<open>key_codec\<close> holds for columns because it holds for every type, and it carries
  over to rows.
\<close>

subsection \<open>Columns\<close>

datatype key_column =
    KNull
  | KInt "64 word"
  | KFloat "64 word"
  | KBytes bytes
  | KTime gotime
  | KTimeTZ TimeTZ
  | KDuration Duration
  | KBitArray BitArray

fun encode_column :: "Direction \<Rightarrow> key_column \<Rightarrow> bytes" where
  "encode_column Ascending KNull = EncodeNullAscending []"
| "encode_column Ascending (KInt v) = EncodeVarintAscending [] v"
| "encode_column Ascending (KFloat f) = EncodeFloatAscending [] f"
| "encode_column Ascending (KBytes d) = EncodeBytesAscending [] d"
| "encode_column Ascending (KTime t) = EncodeTimeAscending [] t"
| "encode_column Ascending (KTimeTZ t) = EncodeTimeTZAscending [] t"
| "encode_column Ascending (KDuration d) = result_bytes (EncodeDurationAscending [] d)"
| "encode_column Ascending (KBitArray d) = EncodeBitArrayAscending [] d"
| "encode_column Descending KNull = EncodeNullDescending []"
| "encode_column Descending (KInt v) = EncodeVarintDescending [] v"
| "encode_column Descending (KFloat f) = EncodeFloatDescending [] f"
| "encode_column Descending (KBytes d) = EncodeBytesDescending [] d"
| "encode_column Descending (KTime t) = EncodeTimeDescending [] t"
| "encode_column Descending (KTimeTZ t) = EncodeTimeTZDescending [] t"
| "encode_column Descending (KDuration d) = result_bytes (EncodeDurationDescending [] d)"
| "encode_column Descending (KBitArray d) = EncodeBitArrayDescending [] d"

definition as_column :: "('a \<Rightarrow> key_column) \<Rightarrow> key_error + bytes \<times> 'a \<Rightarrow> key_error + bytes \<times> key_column" where
  "as_column k r = bind_result r (\<lambda>(rest, v). Inr (rest, k v))"

definition decode_column :: "Direction \<Rightarrow> bytes \<Rightarrow> key_error + bytes \<times> key_column" where
  "decode_column dir b =
     (let t = PeekType b; asc = (dir = Ascending) in
      if t = Null then Inr (fst (DecodeIfNull b), KNull)
      else if t = IntType then as_column KInt (if asc then DecodeVarintAscending b else DecodeVarintDescending b)
      else if t = Float then as_column KFloat (if asc then DecodeFloatAscending b else DecodeFloatDescending b)
      else if t = Bytes then as_column KBytes (DecodeBytesAscending b [])
      else if t = BytesDesc then as_column KBytes (DecodeBytesDescending b [])
      else if t = Time then as_column KTime (if asc then DecodeTimeAscending b else DecodeTimeDescending b)
      else if t = TimeTZType then as_column KTimeTZ (if asc then DecodeTimeTZAscending b else DecodeTimeTZDescending b)
      else if t = DurationType then as_column KDuration (if asc then DecodeDurationAscending b else DecodeDurationDescending b)
      else if t = BitArrayType then as_column KBitArray (DecodeBitArrayAscending b)
      else if t = BitArrayDesc then as_column KBitArray (DecodeBitArrayDescending b)
      else Inl (OtherError ''unknown type''))"

fun valid_column :: "Direction \<Rightarrow> key_column \<Rightarrow> bool" where
  "valid_column dir KNull = True"
| "valid_column dir (KInt v) = True"
| "valid_column dir (KFloat f) = wf_float (if dir = Descending then float_neg f else f)"
| "valid_column dir (KBytes d) = True"
| "valid_column dir (KTime t) = wf_time t"
| "valid_column dir (KTimeTZ t) = wf_timetz t"
| "valid_column dir (KDuration d) = wf_duration_key d"
| "valid_column dir (KBitArray d) = wf_array d"

definition kind :: "key_column \<Rightarrow> nat" where
  "kind c = (case c of KNull \<Rightarrow> 0 | KInt _ \<Rightarrow> 1 | KFloat _ \<Rightarrow> 2 | KBytes _ \<Rightarrow> 3 | KTime _ \<Rightarrow> 4 | KTimeTZ _ \<Rightarrow> 5
     | KDuration _ \<Rightarrow> 6 | KBitArray _ \<Rightarrow> 7)"

definition same_kind :: "key_column \<Rightarrow> key_column \<Rightarrow> bool" where
  "same_kind c d \<longleftrightarrow> kind c = 0 \<or> kind d = 0 \<or> kind c = kind d"

definition column_less :: "key_column \<Rightarrow> key_column \<Rightarrow> bool" where
  "column_less c d =
     (case c of
        KNull \<Rightarrow> d \<noteq> KNull
      | KInt v \<Rightarrow> (case d of KInt w \<Rightarrow> sint v < sint w | _ \<Rightarrow> False)
      | KFloat f \<Rightarrow> (case d of KFloat g \<Rightarrow> float_rank f < float_rank g | _ \<Rightarrow> False)
      | KBytes x \<Rightarrow> (case d of KBytes y \<Rightarrow> x < y | _ \<Rightarrow> False)
      | KTime t \<Rightarrow> (case d of KTime u \<Rightarrow> t < u | _ \<Rightarrow> False)
      | KTimeTZ t \<Rightarrow> (case d of KTimeTZ u \<Rightarrow> Before t u | _ \<Rightarrow> False)
      | KDuration x \<Rightarrow> (case d of KDuration y \<Rightarrow> duration_before x y | _ \<Rightarrow> False)
      | KBitArray x \<Rightarrow> (case d of KBitArray y \<Rightarrow> Compare x y = - 1 | _ \<Rightarrow> False))"

definition column_before :: "Direction \<Rightarrow> key_column \<Rightarrow> key_column \<Rightarrow> bool" where
  "column_before dir c d = (if dir = Descending then column_less d c else column_less c d)"

lemma varint_first:
  obtains m t where "EncodeVarintAscending [] v = m # t" "0x80 \<le> m" "m \<le> 0xfd"
proof -
  have u: "unat (hd (EncodeUvarintAscending [] v)) \<le> 253" for v
    using byte_width_range [of "unat v"] by (auto simp: EncodeUvarintAscending_width tag_small tag_up word_le_nat_alt)
  note w = byte_width_range [of "nat (- sint v)"]
  have "EncodeVarintAscending [] v \<noteq> []" "128 \<le> unat (hd (EncodeVarintAscending [] v))" "unat (hd (EncodeVarintAscending [] v)) \<le> 253"
    using EncodeUvarintAscending_hd [of v] u [of v] w tag_up(2) [OF w] by (auto simp: EncodeVarintAscending_width)
  then show ?thesis using that by (cases "EncodeVarintAscending [] v") (auto simp: word_le_nat_alt)
qed

lemma PeekType_int: "0x80 \<le> m \<Longrightarrow> m \<le> 0xfd \<Longrightarrow> PeekType (m # t) = IntType" for m :: byte
proof -
  assume m: "0x80 \<le> m" "m \<le> 0xfd"
  then have n: "m \<noteq> w" if "unat w < 128 \<or> unat w > 253" for w :: byte using that by (auto simp: word_le_nat_alt)
  show ?thesis using m by (simp add: PeekType_slow slowPeekType_def n)
qed

lemma EncodeFloat_first:
  "\<exists>m t. EncodeFloatAscending [] f = m # t \<and> slowPeekType [m] = Float \<and> 0 < m \<and> m < 0xff"
  by (simp add: EncodeFloatAscending_def EncodeUint64Ascending_def slowPeekType_def)

definition column_type :: "Direction \<Rightarrow> key_column \<Rightarrow> Type" where
  "column_type dir c = (case c of KNull \<Rightarrow> Null | KInt _ \<Rightarrow> IntType | KFloat _ \<Rightarrow> Float
     | KBytes _ \<Rightarrow> if dir = Ascending then Bytes else BytesDesc | KTime _ \<Rightarrow> Time | KTimeTZ _ \<Rightarrow> TimeTZType
     | KDuration _ \<Rightarrow> DurationType | KBitArray _ \<Rightarrow> if dir = Ascending then BitArrayType else BitArrayDesc)"

lemma column_first:
  assumes "valid_column dir c"
  shows "\<exists>m t. encode_column dir c = m # t \<and> slowPeekType [m] = column_type dir c \<and> (c \<noteq> KNull \<longrightarrow> 0 < m \<and> m < 0xff)"
proof (cases c)
  case (KInt v)
  obtain m t m' t' where "EncodeVarintAscending [] v = m # t" "0x80 \<le> m" "m \<le> 0xfd"
    "EncodeVarintAscending [] (NOT v) = m' # t'" "0x80 \<le> m'" "m' \<le> 0xfd" using varint_first by metis
  moreover have "0 < x" "x < 0xff" if "0x80 \<le> x" "x \<le> 0xfd" for x :: byte using that by (auto simp: word_le_nat_alt word_less_nat_alt)
  ultimately show ?thesis
    using KInt PeekType_int [of m "[]"] PeekType_int [of m' "[]"]
    by (cases dir) (simp_all add: column_type_def EncodeVarintDescending_def PeekType_slow)
next
  case (KFloat f)
  then show ?thesis
    using EncodeFloat_first [of f] EncodeFloat_first [of "float_neg f"]
    by (cases dir) (simp_all add: column_type_def EncodeFloatDescending_def, simp add: slowPeekType_def)
next
  case (KBytes x)
  then show ?thesis
    by (cases dir) (simp_all add: column_type_def slowPeekType_def EncodeBytesAscending_escaped EncodeBytesDescending_escaped)
next
  case (KDuration d)
  then show ?thesis using assms by (cases dir) (simp_all add: column_type_def slowPeekType_def EncodeDuration_append result_bytes_def)
qed (cases dir; simp add: column_type_def slowPeekType_def EncodeNullAscending_def EncodeNullDescending_def encodeTime_append
      encodeTimeTZ_append EncodeTimeAscending_def EncodeTimeDescending_def EncodeTimeTZAscending_def EncodeTimeTZDescending_def
      EncodeBitArray_append)+

lemma PeekType_column: "valid_column dir c \<Longrightarrow> PeekType (encode_column dir c @ r) = column_type dir c"
  using column_first [of dir c] by (auto simp: PeekType_slow slowPeekType_def)

lemma decode_column_enc:
  assumes "valid_column dir c"
  shows "decode_column dir (encode_column dir c @ r) = Inr (r, c)"
  using assms PeekType_column [OF assms, of r]
  by (cases c; cases dir)
    (simp_all add: decode_column_def column_type_def as_column_def DecodeIfNull_def EncodeNullAscending_def EncodeNullDescending_def
      varint_asc.dec_enc varint_desc.dec_enc float_asc.dec_enc float_desc.dec_enc bytes_asc.dec_enc bytes_desc.dec_enc
      time_asc.dec_enc time_desc.dec_enc timetz_asc.dec_enc timetz_desc.dec_enc duration_asc.dec_enc duration_desc.dec_enc
      bits_asc.dec_enc bits_desc.dec_enc)

lemma column_enc_less:
  assumes "valid_column dir c" "valid_column dir d" "column_before dir c d"
  shows "encode_column dir c @ x < encode_column dir d @ y"
proof (cases "c = KNull \<or> d = KNull")
  case True
  then show ?thesis
    using assms column_first [OF assms(1)] column_first [OF assms(2)]
    by (cases dir) (auto simp: column_before_def column_less_def EncodeNullAscending_def EncodeNullDescending_def split: key_column.splits)
next
  case False
  then show ?thesis
    using assms
    by (cases dir; cases c; cases d)
      (simp_all add: column_before_def column_less_def varint_asc.enc_less varint_desc.enc_less float_asc.enc_less float_desc.enc_less
        bytes_asc.enc_less bytes_desc.enc_less time_asc.enc_less time_desc.enc_less timetz_asc.enc_less timetz_desc.enc_less
        duration_asc.enc_less duration_desc.enc_less bits_asc.enc_less bits_desc.enc_less)
qed

interpretation column: key_codec "encode_column dir" "decode_column dir" "valid_column dir" "column_before dir" for dir
  by unfold_locales (simp_all add: decode_column_enc column_enc_less)

subsection \<open>Lengths of columns\<close>

lemma GetMultiVarintLen_enc:
  "drop p b = concat (map (EncodeVarintAscending []) vs) @ r \<Longrightarrow>
   GetMultiVarintLen_loop (length vs) b p = Inr (p + length (concat (map (EncodeVarintAscending []) vs)))"
proof (induction vs arbitrary: p)
  case (Cons v vs)
  have d: "drop p b = EncodeVarintAscending [] v @ concat (map (EncodeVarintAscending []) vs) @ r" using Cons.prems by simp
  have "EncodeVarintAscending [] v \<noteq> []" using varint_first [of v] by (metis list.discI)
  then have "p < length b" using d by (metis append_is_Nil_conv drop_all linorder_not_less)
  moreover have "drop (p + length (EncodeVarintAscending [] v)) b = concat (map (EncodeVarintAscending []) vs) @ r"
    using d by (metis add.commute append_eq_conv_conj drop_drop)
  ultimately show ?case using Cons.IH d by (simp add: getVarintLen_enc)
qed simp

lemma PeekLength_int: "0x80 \<le> m \<Longrightarrow> m \<le> 0xfd \<Longrightarrow> PeekLength (m # t) = Some (getVarintLen (m # t))" for m :: byte
proof -
  assume m: "0x80 \<le> m" "m \<le> 0xfd"
  then have n: "m \<noteq> w" if "unat w < 128 \<or> unat w > 253" for w :: byte using that by (auto simp: word_le_nat_alt)
  show ?thesis using m by (simp add: PeekLength.simps Let_def n)
qed

lemma PeekLength_varint: "PeekLength (EncodeVarintAscending [] v @ r) = Some (Inr (length (EncodeVarintAscending [] v)))"
proof -
  obtain m t where e: "EncodeVarintAscending [] v = m # t" "0x80 \<le> m" "m \<le> 0xfd" using varint_first by metis
  then show ?thesis using getVarintLen_enc [of v r] by (simp add: PeekLength_int)
qed

lemma PeekLength_float: "PeekLength (EncodeFloatAscending [] f @ r) = Some (Inr (length (EncodeFloatAscending [] f)))"
  by (simp add: EncodeFloatAscending_def EncodeUint64Ascending_def PeekLength.simps Let_def)

lemma GetMultiVarintLen_23:
  "GetMultiVarintLen (m # EncodeVarintAscending [] u @ EncodeVarintAscending [] v @ r) 2 =
     Inr (1 + length (EncodeVarintAscending [] u) + length (EncodeVarintAscending [] v))"
  "GetMultiVarintLen (m # EncodeVarintAscending [] u @ EncodeVarintAscending [] v @ EncodeVarintAscending [] w @ r) 3 =
     Inr (1 + length (EncodeVarintAscending [] u) + length (EncodeVarintAscending [] v) + length (EncodeVarintAscending [] w))"
  using GetMultiVarintLen_enc [of 1 "m # EncodeVarintAscending [] u @ EncodeVarintAscending [] v @ r" "[u, v]" r]
    GetMultiVarintLen_enc [of 1 "m # EncodeVarintAscending [] u @ EncodeVarintAscending [] v @ EncodeVarintAscending [] w @ r" "[u, v, w]" r]
  by (simp_all add: GetMultiVarintLen_def numeral_2_eq_2 numeral_3_eq_3 del: GetMultiVarintLen_loop.simps)

lemma PeekLength_multi:
  "PeekLength (timeMarker # b) = Some (GetMultiVarintLen (timeMarker # b) 2)"
  "PeekLength (timeTZMarker # b) = Some (GetMultiVarintLen (timeTZMarker # b) 2)"
  "PeekLength (durationMarker # b) = Some (GetMultiVarintLen (durationMarker # b) 3)"
  by (simp_all add: PeekLength.simps Let_def)

lemma PeekLength_bits:
  "PeekLength (EncodeBitArrayAscending [] d @ r) = Some (Inr (length (EncodeBitArrayAscending [] d)))"
  "PeekLength (EncodeBitArrayDescending [] d @ r) = Some (Inr (length (EncodeBitArrayDescending [] d)))"
  using words_asc.words_len [OF getVarintLen_uvarint(1)] words_desc.words_len [OF getVarintLen_uvarint(2)]
  by (simp_all add: EncodeBitArray_append PeekLength.simps Let_def getBitArrayLength_def getBitArrayWordsLen_def varint_len_def
      getVarintLen_uvarint uvarint_hd)

lemma PeekLength_column:
  assumes "valid_column dir c"
  shows "PeekLength (encode_column dir c @ r) = Some (Inr (length (encode_column dir c)))"
proof (cases c)
  case KNull
  then show ?thesis by (cases dir) (simp_all add: EncodeNullAscending_def EncodeNullDescending_def PeekLength.simps)
next
  case (KBytes x)
  then show ?thesis
    using getBytesLength_enc [of x r]
    by (cases dir) (simp_all add: EncodeBytesAscending_escaped EncodeBytesDescending_escaped PeekLength.simps Let_def)
qed (use assms in \<open>cases dir; simp add: EncodeVarintDescending_def PeekLength_varint PeekLength_float EncodeFloatDescending_def
      encodeTime_append encodeTimeTZ_append EncodeTimeAscending_def EncodeTimeDescending_def EncodeTimeTZAscending_def
      EncodeTimeTZDescending_def EncodeDuration_append result_bytes_def PeekLength_multi GetMultiVarintLen_23 PeekLength_bits wf_float_def\<close>)+

subsection \<open>Rows\<close>

definition encode_row :: "Direction list \<Rightarrow> key_column list \<Rightarrow> bytes" where
  "encode_row dirs r = concat (map2 encode_column dirs r)"

fun decode_row :: "Direction list \<Rightarrow> bytes \<Rightarrow> key_error + bytes \<times> key_column list" where
  "decode_row [] b = Inr (b, [])"
| "decode_row (dir # dirs) b =
     bind_result (decode_column dir b) (\<lambda>(b1, c). bind_result (decode_row dirs b1) (\<lambda>(b2, cs). Inr (b2, c # cs)))"

abbreviation valid_row :: "Direction list \<Rightarrow> key_column list \<Rightarrow> bool" where
  "valid_row \<equiv> list_all2 valid_column"

text \<open>The first column that differs decides.\<close>

fun row_before :: "Direction list \<Rightarrow> key_column list \<Rightarrow> key_column list \<Rightarrow> bool" where
  "row_before (dir # dirs) (c # cs) (d # ds) = (column_before dir c d \<or> c = d \<and> row_before dirs cs ds)"
| "row_before _ _ _ = False"

lemma decode_row_enc: "valid_row dirs r \<Longrightarrow> decode_row dirs (encode_row dirs r @ rest) = Inr (rest, r)"
  by (induction dirs r rule: list_all2_induct) (simp_all add: encode_row_def column.dec_enc)

lemma duration_before_total:
  "wf_duration_key c \<Longrightarrow> wf_duration_key d \<Longrightarrow> duration_before c d \<or> c = d \<or> duration_before d c"
  using Duration_Decode_total [of c] Duration_Decode_total [of d] unfolding duration_before_def by (metis linorder_neqE)

lemma float_rank_inject:
  assumes "wf_float f" "wf_float g" "float_rank f = float_rank g"
  shows "f = g"
proof (cases "float_rank f = 0")
  case True
  then have "float_rank g = 0" using assms(3) by simp
  then show ?thesis using assms(1,2) True unfolding wf_float_def float_rank_0 by blast
next
  case False
  have r: "float_rank h = (if 9223372036854775808 \<le> uint h then 9223372036854775808 - uint h else uint h)" for h
    by (simp add: float_rank_def sign_bit_iff uint_magnitude bit63_iff)
  have "(if k \<le> a then k - a else a) = (if k \<le> b then k - b else b) \<Longrightarrow> (if k \<le> a then k - a else a) \<noteq> 0 \<Longrightarrow>
      0 \<le> a \<Longrightarrow> 0 \<le> b \<Longrightarrow> a = b" for a b k :: int by (simp split: if_splits)
  then have "uint f = uint g" using assms(3) False unfolding r by (metis uint_ge_0)
  then show ?thesis by (simp add: word_uint_eq_iff)
qed

lemma Compare_total: "wf_array c \<Longrightarrow> wf_array d \<Longrightarrow> Compare c d = - 1 \<or> c = d \<or> Compare d c = - 1"
  using bits_inject [of c d] by (auto simp: Compare_bits)

lemma same_kind_cases:
  assumes "same_kind c d" "c \<noteq> KNull" "d \<noteq> KNull"
  obtains v w where "c = KInt v" "d = KInt w" | f g where "c = KFloat f" "d = KFloat g" | x y where "c = KBytes x" "d = KBytes y"
    | t u where "c = KTime t" "d = KTime u" | t u where "c = KTimeTZ t" "d = KTimeTZ u"
    | a b where "c = KDuration a" "d = KDuration b" | a b where "c = KBitArray a" "d = KBitArray b"
  using assms by (cases c; cases d) (simp_all add: same_kind_def kind_def)

lemma column_total:
  assumes "valid_column dir c" "valid_column dir d" "same_kind c d"
  shows "column_before dir c d \<or> c = d \<or> column_before dir d c"
proof -
  have "column_less c d \<or> c = d \<or> column_less d c"
  proof (cases "c = KNull \<or> d = KNull")
    case False
    then have "c \<noteq> KNull" "d \<noteq> KNull" by simp_all
    from assms(3) this show ?thesis
    proof (cases rule: same_kind_cases)
      case (1 v w)
      have "sint v = sint w \<Longrightarrow> v = w" by (metis of_int_sint scast_id)
      then show ?thesis using 1 by (simp add: column_less_def) linarith
    next
      case (2 f g)
      have "float_rank f = float_rank g \<Longrightarrow> f = g"
        using assms(1,2) 2 float_rank_inject [of f g] float_rank_inject [of "float_neg f" "float_neg g"]
        by (cases dir) (simp_all, metis float_neg_neg)
      then show ?thesis using 2 by (simp add: column_less_def) linarith
    qed (use assms(1,2) TimeTZ_trichotomy(3) duration_before_total Compare_total in \<open>auto simp: column_less_def\<close>)
  qed (auto simp: column_less_def)
  then show ?thesis by (auto simp: column_before_def)
qed

lemma encode_row_less_iff:
  assumes "valid_row dirs r" "valid_row dirs s" "list_all2 same_kind r s"
  shows "encode_row dirs r @ x < encode_row dirs s @ y \<longleftrightarrow> row_before dirs r s \<or> r = s \<and> x < y"
  using assms
proof (induction dirs r arbitrary: s rule: list_all2_induct)
  case (Cons dir dirs c cs)
  then obtain d ds where s: "s = d # ds" "valid_column dir d" "valid_row dirs ds" "same_kind c d" "list_all2 same_kind cs ds"
    by (auto simp: list_all2_Cons1)
  note i = column.enc_less_iff [OF Cons.hyps(1) s(2) column_total [OF Cons.hyps(1) s(2,4)]]
  have "encode_row (dir # dirs) (c # cs) @ x < encode_row (dir # dirs) s @ y \<longleftrightarrow>
      encode_column dir c @ encode_row dirs cs @ x < encode_column dir d @ encode_row dirs ds @ y"
    by (simp add: encode_row_def s(1))
  then show ?case unfolding i using Cons.IH [OF s(3,5)] s(1) by auto
qed (simp add: encode_row_def)

lemma DecomposeKeyTokens_row:
  assumes "valid_row dirs r"
  shows "DecomposeKeyTokens (encode_row dirs r) = Some (Inr (map2 encode_column dirs r, KNull \<in> set r))"
proof -
  have t: "t \<noteq> [] \<and> PeekLength (t @ z) = Some (Inr (length t))" if "t \<in> set (map2 encode_column dirs r)" for t z
    using assms that column_first PeekLength_column by (induction dirs r rule: list_all2_induct) fastforce+
  have n: "(\<exists>t \<in> set (map2 encode_column dirs r). PeekType t = Null) \<longleftrightarrow> KNull \<in> set r"
    using assms
  proof (induction dirs r rule: list_all2_induct)
    case (Cons dir dirs c cs)
    have "PeekType (encode_column dir c) = Null \<longleftrightarrow> c = KNull"
      using PeekType_column [OF Cons.hyps(1), of "[]"] by (auto simp: column_type_def split: key_column.splits)
    then show ?case using Cons.IH by auto
  qed simp
  show ?thesis
    using DecomposeKeyTokens_append [of "map2 encode_column dirs r" "[]" False] t n by (simp add: DecomposeKeyTokens_def encode_row_def)
qed



text \<open>
  C6: splitting a key ends on any bytes: the length found for a value is at least one and at most
  the length of the buffer, so the loop consumes the buffer. The tokens it returns are not empty
  and are the key cut into pieces, and the flag says whether one of them is a \<open>NULL\<close>. On the key
  of a row the pieces are the columns. A bit array cut off after its terminator is not reported:
  the function reads past the end of the buffer.
\<close>

theorem DecomposeKeyTokens_splits:
  "(PeekLength b = Some (Inr n) \<longrightarrow> 1 \<le> n \<and> n \<le> length b) \<and>
   (DecomposeKeyTokens b = Some (Inr (tokens, containsNull)) \<longrightarrow>
      concat tokens = b \<and> [] \<notin> set tokens \<and> (containsNull \<longleftrightarrow> (\<exists>t \<in> set tokens. PeekType t = Null))) \<and>
   (valid_row dirs r \<longrightarrow>
      DecomposeKeyTokens (encode_row dirs r) = Some (Inr (map2 encode_column dirs r, KNull \<in> set r))) \<and>
   DecomposeKeyTokens [bitArrayMarker, bitArrayDataTerminator] = None"
proof (intro conjI impI)
  show "concat tokens = b" "[] \<notin> set tokens" "containsNull \<longleftrightarrow> (\<exists>t \<in> set tokens. PeekType t = Null)"
    if "DecomposeKeyTokens b = Some (Inr (tokens, containsNull))"
    using DecomposeKeyTokens_loop_spec [OF that [unfolded DecomposeKeyTokens_def]] by auto
  show "DecomposeKeyTokens [bitArrayMarker, bitArrayDataTerminator] = None"
    by (simp add: DecomposeKeyTokens_def DecomposeKeyTokens_loop.simps PeekLength.simps getBitArrayLength_def
        getBitArrayWordsLen_def getBitArrayWordsLen_loop.simps varint_len_def)
qed (use PeekLength_bounds DecomposeKeyTokens_row in auto)

theorem DecomposeKeyTokens_splits_witness:
  "DecomposeKeyTokens (encode_row [Ascending, Descending] [KInt 7, KNull]) =
     Some (Inr ([encode_column Ascending (KInt 7), encode_column Descending KNull], True))"
  using DecomposeKeyTokens_splits [of _ _ _ _ "[Ascending, Descending]" "[KInt 7, KNull]"] by simp

end
