(* ===== verification/Ip_Addr.thy ===== *)
theory Ip_Addr
  imports Key_Codec Int_Arith "HOL-Library.Product_Lexorder"
begin

unbundle bit_operations_syntax

text \<open>
  128-bit integers (\<open>utils/uint128\<close>) and Internet addresses (\<open>utils/ipaddr\<close>): the fields and
  constants of the two packages, arithmetic on a pair of \<open>uint64\<close>, the buffer encoding, masks, sums
  and differences, and the comparisons of subnets. The lemmas read an address as a number of 32 or
  128 bits and its subnet as a set of such numbers. Text forms and random addresses are not modelled.
\<close>

subsection \<open>128-bit integers\<close>

record Uint128 =
  Hi :: "64 word"
  Lo :: "64 word"

definition GetBytes :: "Uint128 \<Rightarrow> bytes" where
  "GetBytes u = be_bytes 8 (Hi u) @ be_bytes 8 (Lo u)"

definition Uint128_Equal :: "Uint128 \<Rightarrow> Uint128 \<Rightarrow> bool" where
  "Uint128_Equal u v \<longleftrightarrow> Hi u = Hi v \<and> Lo u = Lo v"

definition Uint128_Compare :: "Uint128 \<Rightarrow> Uint128 \<Rightarrow> int" where
  "Uint128_Compare u v =
     (if Hi u > Hi v then 1 else if Hi u < Hi v then - 1 else if Lo u > Lo v then 1 else if Lo u < Lo v then - 1 else 0)"

definition Uint128_Add :: "Uint128 \<Rightarrow> 64 word \<Rightarrow> Uint128" where
  "Uint128_Add u n = (let lo = Lo u + n in \<lparr>Hi = (if Lo u > lo then Hi u + 1 else Hi u), Lo = lo\<rparr>)"

definition Uint128_Sub :: "Uint128 \<Rightarrow> 64 word \<Rightarrow> Uint128" where
  "Uint128_Sub u n = (let lo = Lo u - n in \<lparr>Hi = (if Lo u < lo then Hi u - 1 else Hi u), Lo = lo\<rparr>)"

definition Uint128_And :: "Uint128 \<Rightarrow> Uint128 \<Rightarrow> Uint128" where
  "Uint128_And u v = \<lparr>Hi = Hi u AND Hi v, Lo = Lo u AND Lo v\<rparr>"

definition Uint128_Or :: "Uint128 \<Rightarrow> Uint128 \<Rightarrow> Uint128" where
  "Uint128_Or u v = \<lparr>Hi = Hi u OR Hi v, Lo = Lo u OR Lo v\<rparr>"

definition Uint128_Xor :: "Uint128 \<Rightarrow> Uint128 \<Rightarrow> Uint128" where
  "Uint128_Xor u v = \<lparr>Hi = Hi u XOR Hi v, Lo = Lo u XOR Lo v\<rparr>"

text \<open>\<open>binary.BigEndian.Uint64\<close> panics on fewer than 8 bytes.\<close>

definition FromBytes :: "bytes \<Rightarrow> Uint128 option" where
  "FromBytes b =
     (if length b < 16 then None else Some \<lparr>Hi = from_be 0 (take 8 b), Lo = from_be 0 (take 8 (drop 8 b))\<rparr>)"

definition FromInts :: "64 word \<Rightarrow> 64 word \<Rightarrow> Uint128" where
  "FromInts hi lo = \<lparr>Hi = hi, Lo = lo\<rparr>"

definition uint128 :: "Uint128 \<Rightarrow> int" where
  "uint128 u = uint (Hi u) * 2 ^ 64 + uint (Lo u)"

lemma uint64: "0 \<le> uint (w :: 64 word)" "uint w < 18446744073709551616"
  using uint_lt2p [of w] by simp_all

lemma val_range: "0 \<le> uint128 u" "uint128 u < 2 ^ 128"
  using uint64 [of "Hi u"] uint64 [of "Lo u"] by (simp_all add: uint128_def)

lemmas uint64_arith = uint_plus_if' [where 'a = 64, simplified] uint_sub_if' [where 'a = 64, simplified]

lemma uint_one64: "uint (1 :: 64 word) = 1"
  by simp

text \<open>Addition and subtraction are those of the integers modulo \<open>2 ^ 128\<close>, and the order is that of the integers.\<close>

lemma val_Add: "uint128 (Uint128_Add u n) = (if uint128 u + uint n < 2 ^ 128 then uint128 u + uint n else uint128 u + uint n - 2 ^ 128)"
  using uint64 [of "Hi u"] uint64 [of "Lo u"] uint64 [of n]
  by (auto simp: uint128_def Uint128_Add_def Let_def word_less_def uint64_arith uint_one64 split: if_splits)

lemma val_Sub: "uint128 (Uint128_Sub u n) = (if uint n \<le> uint128 u then uint128 u - uint n else uint128 u - uint n + 2 ^ 128)"
proof -
  define h l m where "h = uint (Hi u)" and "l = uint (Lo u)" and "m = uint n"
  have r: "0 \<le> h" "h < 2 ^ 64" "0 \<le> l" "l < 2 ^ 64" "0 \<le> m" "m < 2 ^ 64"
    using uint64 [of "Hi u"] uint64 [of "Lo u"] uint64 [of n] by (simp_all add: h_def l_def m_def)
  have s: "uint (Lo u - n) = (if m \<le> l then l - m else l - m + 2 ^ 64)" "uint (Hi u - 1) = (if 1 \<le> h then h - 1 else h - 1 + 2 ^ 64)"
    by (simp_all add: uint64_arith h_def l_def m_def)
  have "Lo u < Lo u - n \<longleftrightarrow> l < m" unfolding word_less_def s(1) using r by (auto simp: l_def [symmetric])
  then have "uint128 (Uint128_Sub u n) = (if l < m then if 1 \<le> h then h - 1 else h - 1 + 2 ^ 64 else h) * 2 ^ 64 + (if m \<le> l then l - m else l - m + 2 ^ 64)"
    by (simp add: uint128_def Uint128_Sub_def Let_def s) (simp add: h_def)
  moreover have "uint128 u = h * 2 ^ 64 + l" by (simp add: uint128_def h_def l_def)
  ultimately show ?thesis unfolding m_def [symmetric] using r by (auto split: if_splits)
qed

lemma pair_less:
  fixes a b c d K :: int
  assumes "0 \<le> b" "b < K" "0 \<le> d" "d < K"
  shows "a * K + b < c * K + d \<longleftrightarrow> a < c \<or> a = c \<and> b < d"
proof -
  have K: "0 < K" using assms by linarith
  have "a * K + b < c * K + d" if "a < c" "0 \<le> d" "b < K" for a b c d
  proof -
    have "(a + 1) * K \<le> c * K" using that K by (intro mult_right_mono) auto
    then show ?thesis using that by (simp add: ring_distribs)
  qed
  from this [of a c d b] this [of c a b d] show ?thesis using assms by (cases a c rule: linorder_cases) auto
qed

lemma val_less: "uint128 u < uint128 v \<longleftrightarrow> Hi u < Hi v \<or> Hi u = Hi v \<and> Lo u < Lo v"
  unfolding uint128_def word_less_def word_uint_eq_iff by (rule pair_less) (use uint64 [of "Lo u"] uint64 [of "Lo v"] in simp_all)

lemma val_Compare: "Uint128_Compare u v = (if uint128 u > uint128 v then 1 else if uint128 u < uint128 v then - 1 else 0)"
  unfolding val_less Uint128_Compare_def by auto

lemma val_inject: "uint128 u = uint128 v \<longleftrightarrow> u = v"
proof
  assume e: "uint128 u = uint128 v"
  then have "\<not> uint128 u < uint128 v" "\<not> uint128 v < uint128 u" by simp_all
  then show "u = v" unfolding val_less by (cases u; cases v) auto
qed simp

lemma bit_val: "bit (uint128 u) n \<longleftrightarrow> (if n < 64 then bit (Lo u) n else bit (Hi u) (n - 64))"
proof -
  have "uint128 u = push_bit 64 (uint (Hi u)) OR uint (Lo u)"
    unfolding uint128_def push_bit_eq_mult [symmetric] by (rule disjunctive_add) (simp add: bit_push_bit_iff bit_uint_iff)
  then show ?thesis by (auto simp: bit_or_iff bit_push_bit_iff bit_uint_iff dest: bit_imp_le_length)
qed

lemma val_bitwise:
  "uint128 (Uint128_And u v) = uint128 u AND uint128 v" "uint128 (Uint128_Or u v) = uint128 u OR uint128 v" "uint128 (Uint128_Xor u v) = uint128 u XOR uint128 v"
  by (rule bit_eqI, simp add: bit_val Uint128_And_def Uint128_Or_def Uint128_Xor_def bit_and_iff bit_or_iff bit_xor_iff)+

lemma unat64: "unat (w :: 64 word) < 18446744073709551616"
  using unsigned_less [of w, where 'a = nat] by simp

lemma FromBytes_GetBytes: "FromBytes (GetBytes u @ r) = Some u"
  by (simp add: FromBytes_def GetBytes_def from_be_be_bytes unat64)

subsection \<open>Addresses\<close>

record IPAddress =
  Family :: byte
  Mask :: byte
  Addr :: Uint128

definition IPv4family :: byte where "IPv4family = 0"
definition IPv6family :: byte where "IPv6family = 1"
definition IPv4size :: nat where "IPv4size = 4 + 2"
definition IPv6size :: nat where "IPv6size = 16 + 2"
definition IPv4mappedIPv6prefix :: "64 word" where "IPv4mappedIPv6prefix = push_bit 32 0xFFFF"
definition IPv4mask :: "64 word" where "IPv4mask = 0xFFFFFFFF"
definition IPv4max :: "64 word" where "IPv4max = IPv4mask"

datatype ip_error = UnexpectedFamily byte | DifferentSizes string | ResultOutOfRange

definition ToBuffer :: "IPAddress \<Rightarrow> bytes \<Rightarrow> bytes" where
  "ToBuffer ip appendTo =
     appendTo @ [Family ip, Mask ip] @
     (if Family ip = IPv4family then be_bytes 4 (ucast (Lo (Addr ip)) :: 32 word)
      else be_bytes 8 (Hi (Addr ip)) @ be_bytes 8 (Lo (Addr ip)))"

text \<open>
  The decoder overwrites fields of the receiver: it is given the receiver and returns it with the
  rest of the buffer or the error. A buffer that is too short makes it panic.
\<close>

definition FromBuffer :: "IPAddress \<Rightarrow> bytes \<Rightarrow> (IPAddress \<times> (ip_error + bytes)) option" where
  "FromBuffer ip data =
     (if data = [] then None
      else let ip1 = ip\<lparr>Family := hd data\<rparr> in
        if Family ip1 \<noteq> IPv4family \<and> Family ip1 \<noteq> IPv6family then Some (ip1, Inl (UnexpectedFamily (Family ip1)))
        else if length data < 2 then None
        else let ip2 = ip1\<lparr>Mask := data ! 1\<rparr> in
          if Family ip2 = IPv4family then
            (if length data < IPv4size then None
             else Some (ip2\<lparr>Addr := (Addr ip2)\<lparr>Lo := ucast (from_be 0 (take 4 (drop 2 data)) :: 32 word) OR IPv4mappedIPv6prefix\<rparr>\<rparr>,
                        Inr (drop IPv4size data)))
          else
            (case FromBytes (drop 2 data) of
               None \<Rightarrow> None
             | Some u \<Rightarrow> Some (ip2\<lparr>Addr := u\<rparr>, Inr (drop IPv6size data))))"

definition IPAddr_Compare :: "IPAddress \<Rightarrow> IPAddress \<Rightarrow> int" where
  "IPAddr_Compare ip ip' =
     (if Family ip < Family ip' then - 1 else if Family ip > Family ip' then 1
      else if Mask ip < Mask ip' then - 1 else if Mask ip > Mask ip' then 1
      else Uint128_Compare (Addr ip) (Addr ip'))"

definition IPAddr_Equal :: "IPAddress \<Rightarrow> IPAddress \<Rightarrow> bool" where
  "IPAddr_Equal ip ip' \<longleftrightarrow> Family ip = Family ip' \<and> Mask ip = Mask ip' \<and> Uint128_Equal (Addr ip) (Addr ip')"

definition full_mask :: "byte \<Rightarrow> byte" where
  "full_mask family = (if family = IPv4family then 32 else 128)"

text \<open>The shift counts are bytes, and their sums and differences wrap around.\<close>

definition Hostmask :: "IPAddress \<Rightarrow> IPAddress" where
  "Hostmask ip =
     \<lparr>Family = Family ip, Mask = full_mask (Family ip),
      Addr =
        (if Family ip = IPv4family
         then (Addr ip)\<lparr>Lo := ucast (drop_bit (unat (Mask ip)) (NOT 0 :: 32 word)) OR IPv4mappedIPv6prefix\<rparr>
         else if Mask ip \<le> 64 then \<lparr>Hi = drop_bit (unat (Mask ip)) (NOT 0), Lo = NOT 0\<rparr>
         else \<lparr>Hi = 0, Lo = drop_bit (unat (Mask ip - 64)) (NOT 0)\<rparr>)\<rparr>"

definition Netmask :: "IPAddress \<Rightarrow> IPAddress" where
  "Netmask ip =
     \<lparr>Family = Family ip, Mask = full_mask (Family ip),
      Addr =
        (if Family ip = IPv4family
         then (Addr ip)\<lparr>Lo := ucast (push_bit (unat (32 - Mask ip)) (NOT 0 :: 32 word)) OR IPv4mappedIPv6prefix\<rparr>
         else if Mask ip \<le> 64 then \<lparr>Hi = push_bit (unat (64 - Mask ip)) (NOT 0), Lo = 0\<rparr>
         else \<lparr>Hi = NOT 0, Lo = push_bit (unat (128 - Mask ip)) (NOT 0)\<rparr>)\<rparr>"

definition Broadcast :: "IPAddress \<Rightarrow> IPAddress" where
  "Broadcast ip =
     \<lparr>Family = Family ip, Mask = Mask ip,
      Addr =
        (let a = Addr ip in
         if Family ip = IPv4family then a\<lparr>Lo := Lo a OR drop_bit (unat (32 + Mask ip)) (NOT 0)\<rparr>
         else if Mask ip < 64 then \<lparr>Hi = Hi a OR drop_bit (unat (Mask ip)) (NOT 0), Lo = Lo a OR NOT 0\<rparr>
         else a\<lparr>Lo := Lo a OR drop_bit (unat (Mask ip - 64)) (NOT 0)\<rparr>)\<rparr>"

definition Complement :: "IPAddress \<Rightarrow> IPAddress" where
  "Complement ip =
     \<lparr>Family = Family ip, Mask = Mask ip,
      Addr = Uint128_Xor (Addr ip) (if Family ip = IPv4family then \<lparr>Hi = 0, Lo = IPv4mask\<rparr> else \<lparr>Hi = NOT 0, Lo = NOT 0\<rparr>)\<rparr>"

definition max_mask :: "IPAddress \<Rightarrow> IPAddress \<Rightarrow> byte" where
  "max_mask ip ip' = (if Mask ip > Mask ip' then Mask ip else Mask ip')"

definition IPAddr_And :: "IPAddress \<Rightarrow> IPAddress \<Rightarrow> ip_error + IPAddress" where
  "IPAddr_And ip ip' =
     (if Family ip \<noteq> Family ip' then Inl (DifferentSizes ''AND'')
      else Inr \<lparr>Family = Family ip, Mask = max_mask ip ip', Addr = Uint128_And (Addr ip) (Addr ip')\<rparr>)"

definition IPAddr_Or :: "IPAddress \<Rightarrow> IPAddress \<Rightarrow> ip_error + IPAddress" where
  "IPAddr_Or ip ip' =
     (if Family ip \<noteq> Family ip' then Inl (DifferentSizes ''OR'')
      else Inr \<lparr>Family = Family ip, Mask = max_mask ip ip', Addr = Uint128_Or (Addr ip) (Addr ip')\<rparr>)"

text \<open>\<open>binary.Write\<close> to a writer that does not fail appends the big-endian bytes.\<close>

definition WriteIPv4Bytes :: "Uint128 \<Rightarrow> bytes \<Rightarrow> bytes" where
  "WriteIPv4Bytes ip writer = writer @ be_bytes 4 (ucast (Lo ip) :: 32 word)"

definition WriteIPv6Bytes :: "Uint128 \<Rightarrow> bytes \<Rightarrow> bytes" where
  "WriteIPv6Bytes ip writer = (writer @ be_bytes 8 (Hi ip)) @ be_bytes 8 (Lo ip)"

subsection \<open>Sums and differences\<close>

definition ipv4Add :: "Uint128 \<Rightarrow> 64 word \<Rightarrow> ip_error + Uint128" where
  "ipv4Add ip n = (if n > IPv4max \<or> IPv4max - n < Lo ip AND IPv4mask then Inl ResultOutOfRange else Inr (Uint128_Add ip n))"

definition ipv6Add :: "Uint128 \<Rightarrow> 64 word \<Rightarrow> ip_error + Uint128" where
  "ipv6Add ip n = (let newIP = Uint128_Add ip n in if Uint128_Compare newIP ip < 0 then Inl ResultOutOfRange else Inr newIP)"

definition ipv4Sub :: "Uint128 \<Rightarrow> 64 word \<Rightarrow> ip_error + Uint128" where
  "ipv4Sub ip n = (if n > IPv4max \<or> Lo ip AND IPv4mask < n then Inl ResultOutOfRange else Inr (Uint128_Sub ip n))"

definition ipv6Sub :: "Uint128 \<Rightarrow> 64 word \<Rightarrow> ip_error + Uint128" where
  "ipv6Sub ip n = (let newIP = Uint128_Sub ip n in if Uint128_Compare newIP ip > 0 then Inl ResultOutOfRange else Inr newIP)"

definition sum_ip :: "IPAddress \<Rightarrow> int \<Rightarrow> bool \<Rightarrow> ip_error + IPAddress" where
  "sum_ip ip o1 neg0 =
     (let neg = (if o1 < 0 then \<not> neg0 else neg0);
          o2 = (if o1 < 0 then if o1 = - (2 ^ 63) then push_bit 63 1 else word_of_int (- o1) else word_of_int o1);
          res = (if Family ip = IPv4family then if \<not> neg then ipv4Add (Addr ip) o2 else ipv4Sub (Addr ip) o2
                 else if \<not> neg then ipv6Add (Addr ip) o2 else ipv6Sub (Addr ip) o2)
      in bind_result res (\<lambda>a. Inr \<lparr>Family = Family ip, Mask = Mask ip, Addr = a\<rparr>))"

definition Add_ip :: "IPAddress \<Rightarrow> int \<Rightarrow> ip_error + IPAddress" where
  "Add_ip ip n = sum_ip ip n False"

definition Sub_ip :: "IPAddress \<Rightarrow> int \<Rightarrow> ip_error + IPAddress" where
  "Sub_ip ip n = sum_ip ip n True"

definition subIPAddrIPv4 :: "Uint128 \<Rightarrow> Uint128 \<Rightarrow> ip_error + int" where
  "subIPAddrIPv4 ip ip' = Inr (i64 (sint (Lo ip AND IPv4mask) - sint (Lo ip' AND IPv4mask)))"

definition subIPAddrIPv6 :: "Uint128 \<Rightarrow> Uint128 \<Rightarrow> ip_error + int" where
  "subIPAddrIPv6 ip0 ip1 =
     (let swap = Uint128_Compare ip0 ip1 < 0;
          sgn1 = (if swap then - 1 else 1 :: int);
          (ip, ip') = (if swap then (ip1, ip0) else (ip0, ip1));
          lo = Lo ip - Lo ip';
          hi = (if lo > Lo ip then Hi ip - Hi ip' - 1 else Hi ip - Hi ip')
      in if hi \<noteq> 0 then Inl ResultOutOfRange
         else if lo = 2 ^ 63 - 1 + 1 \<and> sgn1 = - 1 then Inr (- (2 ^ 63))
         else if lo > 2 ^ 63 - 1 then Inl ResultOutOfRange
         else Inr (i64 (sgn1 * sint lo)))"

definition SubIPAddr :: "IPAddress \<Rightarrow> IPAddress \<Rightarrow> ip_error + int" where
  "SubIPAddr ip ip' =
     (if Family ip \<noteq> Family ip' then Inl (DifferentSizes ''subtract'')
      else if Family ip = IPv4family then subIPAddrIPv4 (Addr ip) (Addr ip')
      else subIPAddrIPv6 (Addr ip) (Addr ip'))"

subsection \<open>Subnets\<close>

text \<open>The second \<open>And\<close> cannot fail: both addresses have the same family.\<close>

definition contains_ip :: "IPAddress \<Rightarrow> IPAddress \<Rightarrow> bool" where
  "contains_ip ip ip' =
     (case IPAddr_And ip' (Netmask ip) of
        Inl _ \<Rightarrow> False
      | Inr o1 \<Rightarrow> (case IPAddr_And ip (Netmask ip) of Inl _ \<Rightarrow> False | Inr t \<Rightarrow> IPAddr_Equal t o1))"

definition ContainsOrEquals :: "IPAddress \<Rightarrow> IPAddress \<Rightarrow> bool" where
  "ContainsOrEquals ip ip' \<longleftrightarrow> contains_ip ip ip' \<and> Mask ip \<le> Mask ip'"

definition Contains :: "IPAddress \<Rightarrow> IPAddress \<Rightarrow> bool" where
  "Contains ip ip' \<longleftrightarrow> contains_ip ip ip' \<and> Mask ip < Mask ip'"

definition ContainedByOrEquals :: "IPAddress \<Rightarrow> IPAddress \<Rightarrow> bool" where
  "ContainedByOrEquals ip ip' \<longleftrightarrow> contains_ip ip' ip \<and> Mask ip \<ge> Mask ip'"

definition ContainedBy :: "IPAddress \<Rightarrow> IPAddress \<Rightarrow> bool" where
  "ContainedBy ip ip' \<longleftrightarrow> contains_ip ip' ip \<and> Mask ip > Mask ip'"

definition ContainsOrContainedBy :: "IPAddress \<Rightarrow> IPAddress \<Rightarrow> bool" where
  "ContainsOrContainedBy ip ip' \<longleftrightarrow> contains_ip ip ip' \<or> contains_ip ip' ip"

subsection \<open>The meaning of an address\<close>

text \<open>
  A well-formed address has a mask no longer than its family has bits, and a version 4 address is
  stored in the low 32 bits under the prefix that maps it into version 6.
\<close>

definition wf_ip :: "IPAddress \<Rightarrow> bool" where
  "wf_ip ip \<longleftrightarrow>
     (if Family ip = IPv4family then Mask ip \<le> 32 \<and> Hi (Addr ip) = 0 \<and> drop_bit 32 (Lo (Addr ip)) = 0xFFFF
      else Family ip = IPv6family \<and> Mask ip \<le> 128)"

definition width :: "IPAddress \<Rightarrow> nat" where
  "width ip = (if Family ip = IPv4family then 32 else 128)"

definition ip_val :: "IPAddress \<Rightarrow> int" where
  "ip_val ip = take_bit (width ip) (uint128 (Addr ip))"

definition host_bits :: "IPAddress \<Rightarrow> nat" where
  "host_bits ip = width ip - unat (Mask ip)"

definition network :: "IPAddress \<Rightarrow> (byte \<times> int) set" where
  "network ip = {(f, x). f = Family ip \<and> 0 \<le> x \<and> x < 2 ^ width ip \<and> x div 2 ^ host_bits ip = ip_val ip div 2 ^ host_bits ip}"

lemma uint_low32: "uint (w AND IPv4mask) = uint w mod 4294967296" for w :: "64 word"
proof -
  have "w AND IPv4mask = take_bit 32 w" unfolding take_bit_eq_mask by (simp add: IPv4mask_def mask_eq_exp_minus_1)
  then have "uint (w AND IPv4mask) = take_bit 32 (uint w)" by (simp only: unsigned_take_bit_eq)
  then show ?thesis by (simp add: take_bit_eq_mod)
qed

lemma val_low: "uint128 u mod 4294967296 = uint (Lo u) mod 4294967296"
proof -
  have "uint128 u = uint (Hi u) * 4294967296 * 4294967296 + uint (Lo u)" by (simp add: uint128_def)
  then show ?thesis by (simp only: mod_mult_self3)
qed

lemma mapped_iff: "Hi u = 0 \<and> drop_bit 32 (Lo u) = 0xFFFF \<longleftrightarrow> uint128 u div 4294967296 = 65535"
proof -
  have d: "uint128 u div 4294967296 = uint (Hi u) * 4294967296 + uint (Lo u) div 4294967296"
    by (simp add: uint128_def)
  have "x < 18446744073709551616 \<Longrightarrow> x div 4294967296 < 4294967296" for x :: int
    using div_mult_mod_eq [of x 4294967296] pos_mod_sign [of 4294967296 x] by linarith
  then have r: "0 \<le> uint (Lo u) div 4294967296" "uint (Lo u) div 4294967296 < 4294967296" "0 \<le> uint (Hi u)"
    using uint64 [of "Lo u"] by (simp_all add: pos_imp_zdiv_nonneg_iff)
  have "drop_bit 32 (Lo u) = 0xFFFF \<longleftrightarrow> uint (Lo u) div 4294967296 = 65535"
    unfolding word_uint_eq_iff by (simp add: drop_bit_eq_div uint_div_distrib)
  moreover have "Hi u = 0 \<longleftrightarrow> uint (Hi u) = 0" by (simp add: word_uint_eq_iff)
  moreover have "h * 4294967296 + l = 65535 \<longleftrightarrow> h = 0 \<and> l = 65535" if "0 \<le> l" "l < 4294967296" "0 \<le> h" for h l :: int
    using that by (cases "h = 0") auto
  ultimately show ?thesis unfolding d using r by blast
qed

lemma wf_ip_iff:
  "wf_ip ip \<longleftrightarrow> (if Family ip = IPv4family then unat (Mask ip) \<le> 32 \<and> uint128 (Addr ip) div 4294967296 = 65535
     else Family ip = IPv6family \<and> unat (Mask ip) \<le> 128)"
  unfolding wf_ip_def mapped_iff by (simp add: word_le_nat_alt)

lemma ip_val_cases:
  "Family ip = IPv4family \<Longrightarrow> ip_val ip = uint128 (Addr ip) mod 4294967296"
  "Family ip \<noteq> IPv4family \<Longrightarrow> ip_val ip = uint128 (Addr ip)"
  using val_range [of "Addr ip"] by (simp_all add: ip_val_def width_def take_bit_eq_mod)

lemma ip_val_range: "0 \<le> ip_val ip" "ip_val ip < 2 ^ width ip"
  by (simp_all add: ip_val_def)

lemma wf_ip_inject:
  assumes "wf_ip a" "wf_ip b" "Family a = Family b" "Mask a = Mask b" "ip_val a = ip_val b"
  shows "a = b"
proof -
  have "uint128 (Addr a) = uint128 (Addr b)"
    using assms ip_val_cases [of a] ip_val_cases [of b]
    by (cases "Family a = IPv4family") (simp_all add: wf_ip_iff, metis mult_div_mod_eq)
  then show ?thesis using assms(3,4) by (simp add: val_inject)
qed

subsection \<open>Sums and differences are exact\<close>

definition add_val :: "IPAddress \<Rightarrow> int \<Rightarrow> ip_error + Uint128 \<Rightarrow> bool" where
  "add_val ip d res \<longleftrightarrow>
     (if 0 \<le> ip_val ip + d \<and> ip_val ip + d < 2 ^ width ip
      then \<exists>a. res = Inr a \<and> wf_ip (ip\<lparr>Addr := a\<rparr>) \<and> ip_val (ip\<lparr>Addr := a\<rparr>) = ip_val ip + d
      else res = Inl ResultOutOfRange)"

lemma uint_max4: "uint IPv4max = 4294967295" "uint (IPv4max - n) = (if uint n \<le> 4294967295 then 4294967295 - uint n else 4294967295 - uint n + 18446744073709551616)"
  by (simp_all add: IPv4max_def IPv4mask_def uint64_arith)

lemma wf4_val: "wf_ip ip \<Longrightarrow> Family ip = IPv4family \<Longrightarrow> uint128 (Addr ip) = 281470681743360 + ip_val ip"
  using div_mult_mod_eq [of "uint128 (Addr ip)" 4294967296] by (simp add: wf_ip_iff ip_val_cases)

lemma wf4_set:
  assumes "wf_ip ip" "Family ip = IPv4family" "uint128 a = uint128 (Addr ip) + d" "0 \<le> ip_val ip + d" "ip_val ip + d < 4294967296"
  shows "wf_ip (ip\<lparr>Addr := a\<rparr>)" "ip_val (ip\<lparr>Addr := a\<rparr>) = ip_val ip + d"
proof -
  have "uint128 a = 65535 * 4294967296 + (ip_val ip + d)" using assms(3) wf4_val [OF assms(1,2)] by simp
  then have "uint128 a div 4294967296 = 65535" "uint128 a mod 4294967296 = ip_val ip + d"
    using assms(4,5) by (simp_all only: div_mult_self3 mod_mult_self3 div_pos_pos_trivial mod_pos_pos_trivial)
  then show "wf_ip (ip\<lparr>Addr := a\<rparr>)" "ip_val (ip\<lparr>Addr := a\<rparr>) = ip_val ip + d"
    using assms(1,2) ip_val_cases(1) [of "ip\<lparr>Addr := a\<rparr>"] by (simp_all add: wf_ip_iff)
qed

lemma ipv4Add_spec: "wf_ip ip \<Longrightarrow> Family ip = IPv4family \<Longrightarrow> add_val ip (uint n) (ipv4Add (Addr ip) n)"
proof -
  assume a: "wf_ip ip" "Family ip = IPv4family"
  have "n > IPv4max \<or> IPv4max - n < Lo (Addr ip) AND IPv4mask \<longleftrightarrow> 4294967296 \<le> ip_val ip + uint n"
    unfolding word_less_def uint_max4 uint_low32 val_low [symmetric] ip_val_cases(1) [OF a(2), symmetric]
    using uint64 [of n] ip_val_range [of ip] a(2) by (auto simp: width_def)
  moreover have "uint128 (Uint128_Add (Addr ip) n) = uint128 (Addr ip) + uint n"
    using val_Add [of "Addr ip" n] wf4_val [OF a] uint64 [of n] ip_val_range [of ip] a(2) by (simp add: width_def)
  ultimately show ?thesis
    using wf4_set [OF a, of "Uint128_Add (Addr ip) n" "uint n"] ip_val_range(1) [of ip] a(2)
    by (auto simp: add_val_def ipv4Add_def width_def add_nonneg_nonneg)
qed

lemma ipv4Sub_spec: "wf_ip ip \<Longrightarrow> Family ip = IPv4family \<Longrightarrow> add_val ip (- uint n) (ipv4Sub (Addr ip) n)"
proof -
  assume a: "wf_ip ip" "Family ip = IPv4family"
  have r: "0 \<le> ip_val ip" "ip_val ip < 4294967296" "0 \<le> uint n" using ip_val_range [of ip] a(2) by (simp_all add: width_def)
  have l: "ip_val ip - uint n < 4294967296" using r by linarith
  from r have "n > IPv4max \<or> Lo (Addr ip) AND IPv4mask < n \<longleftrightarrow> ip_val ip - uint n < 0"
    unfolding word_less_def uint_max4 uint_low32 val_low [symmetric] ip_val_cases(1) [OF a(2), symmetric] by auto
  moreover have "uint128 (Uint128_Sub (Addr ip) n) = uint128 (Addr ip) - uint n" if "0 \<le> ip_val ip - uint n"
    using val_Sub [of "Addr ip" n] wf4_val [OF a] that by simp
  ultimately show ?thesis
    using wf4_set [OF a, of "Uint128_Sub (Addr ip) n" "- uint n"] r l a(2)
    by (auto simp: add_val_def ipv4Sub_def width_def)
qed

lemma ipv6_specs:
  assumes "wf_ip ip" "Family ip \<noteq> IPv4family"
  shows "add_val ip (uint n) (ipv6Add (Addr ip) n)" "add_val ip (- uint n) (ipv6Sub (Addr ip) n)"
proof -
  have w: "wf_ip (ip\<lparr>Addr := a\<rparr>)" "ip_val (ip\<lparr>Addr := a\<rparr>) = uint128 a" for a
    using assms by (simp_all add: wf_ip_iff ip_val_cases)
  define v m where "v = uint128 (Addr ip)" and "m = uint n"
  have r: "0 \<le> v" "v < 2 ^ 128" "0 \<le> m" "m < 2 ^ 64" "ip_val ip = v" "width ip = 128"
    using val_range [of "Addr ip"] uint64 [of n] assms(2) by (simp_all add: v_def m_def ip_val_cases width_def)
  show "add_val ip (uint n) (ipv6Add (Addr ip) n)"
    using r(1-4) w val_Add [of "Addr ip" n, folded v_def m_def]
    unfolding add_val_def ipv6Add_def val_Compare Let_def r(5,6) v_def [symmetric] m_def [symmetric] by auto
  show "add_val ip (- uint n) (ipv6Sub (Addr ip) n)"
    using r(1-4) w val_Sub [of "Addr ip" n, folded v_def m_def]
    unfolding add_val_def ipv6Sub_def val_Compare Let_def r(5,6) v_def [symmetric] m_def [symmetric] by auto
qed

lemma sum_ip_spec:
  assumes "wf_ip ip" "int64 n"
  obtains res where "sum_ip ip n neg = bind_result res (\<lambda>a. Inr (ip\<lparr>Addr := a\<rparr>))" "add_val ip (if neg then - n else n) res"
proof
  define o2 where "o2 = (if n < 0 then if n = - (2 ^ 63) then push_bit 63 1 else word_of_int (- n) else word_of_int n :: 64 word)"
  have o2: "uint o2 = \<bar>n\<bar>"
    using assms(2) by (simp add: o2_def int64_def uint_word_of_int_eq take_bit_int_eq_self push_bit_eq_mult del: of_int_minus)
  define res where "res = (if Family ip = IPv4family then if (n < 0) = neg then ipv4Add (Addr ip) o2 else ipv4Sub (Addr ip) o2
    else if (n < 0) = neg then ipv6Add (Addr ip) o2 else ipv6Sub (Addr ip) o2)"
  show "sum_ip ip n neg = bind_result res (\<lambda>a. Inr (ip\<lparr>Addr := a\<rparr>))"
    unfolding sum_ip_def Let_def o2_def [symmetric] res_def by (cases ip) simp
  note s = ipv4Add_spec [OF assms(1), of o2] ipv4Sub_spec [OF assms(1), of o2] ipv6_specs [OF assms(1), of o2]
  show "add_val ip (if neg then - n else n) res"
    using s unfolding res_def o2 by (cases neg; cases "n < 0") simp_all
qed

lemma sum_ip_exact:
  assumes "wf_ip ip" "int64 n"
  shows "0 \<le> ip_val ip + (if neg then - n else n) \<and> ip_val ip + (if neg then - n else n) < 2 ^ width ip \<Longrightarrow>
      \<exists>r. sum_ip ip n neg = Inr r \<and> wf_ip r \<and> Family r = Family ip \<and> Mask r = Mask ip \<and> ip_val r = ip_val ip + (if neg then - n else n)"
    and "\<not> (0 \<le> ip_val ip + (if neg then - n else n) \<and> ip_val ip + (if neg then - n else n) < 2 ^ width ip) \<Longrightarrow>
      sum_ip ip n neg = Inl ResultOutOfRange"
proof -
  obtain res where r: "sum_ip ip n neg = bind_result res (\<lambda>a. Inr (ip\<lparr>Addr := a\<rparr>))" "add_val ip (if neg then - n else n) res"
    using sum_ip_spec [OF assms] by blast
  show "\<exists>r. sum_ip ip n neg = Inr r \<and> wf_ip r \<and> Family r = Family ip \<and> Mask r = Mask ip \<and> ip_val r = ip_val ip + (if neg then - n else n)"
    if "0 \<le> ip_val ip + (if neg then - n else n) \<and> ip_val ip + (if neg then - n else n) < 2 ^ width ip"
    using r that unfolding add_val_def by auto
  show "sum_ip ip n neg = Inl ResultOutOfRange"
    if "\<not> (0 \<le> ip_val ip + (if neg then - n else n) \<and> ip_val ip + (if neg then - n else n) < 2 ^ width ip)"
    using r that unfolding add_val_def by auto
qed

lemma val_diff:
  assumes "uint128 v \<le> uint128 u"
  defines "lo \<equiv> Lo u - Lo v"
  defines "hi \<equiv> if lo > Lo u then Hi u - Hi v - 1 else Hi u - Hi v"
  shows "uint128 u - uint128 v = uint hi * 2 ^ 64 + uint lo"
proof -
  define a b c d where "a = uint (Hi u)" and "b = uint (Lo u)" and "c = uint (Hi v)" and "d = uint (Lo v)"
  have r: "0 \<le> a" "a < 2 ^ 64" "0 \<le> b" "b < 2 ^ 64" "0 \<le> c" "c < 2 ^ 64" "0 \<le> d" "d < 2 ^ 64"
    using uint64 [of "Hi u"] uint64 [of "Lo u"] uint64 [of "Hi v"] uint64 [of "Lo v"] by (simp_all add: a_def b_def c_def d_def)
  have l: "uint lo = (if d \<le> b then b - d else b - d + 2 ^ 64)"
    by (simp add: lo_def uint64_arith b_def d_def)
  have g: "lo > Lo u \<longleftrightarrow> b < d" unfolding word_less_def l using r by (auto simp: b_def [symmetric])
  have "uint128 v \<le> uint128 u \<longleftrightarrow> c < a \<or> c = a \<and> d \<le> b"
    using val_less [of u v] unfolding not_less [symmetric] word_less_def word_uint_eq_iff a_def b_def c_def d_def by auto
  then have o: "c < a \<or> c = a \<and> d \<le> b" using assms(1) by simp
  have h: "uint (Hi u - Hi v) = a - c" using o by (auto simp: uint64_arith a_def c_def)
  have h1: "uint (Hi u - Hi v - 1) = a - c - 1" if "c < a" using h that by (simp add: uint64_arith)
  have "uint hi = (if b < d then a - c - 1 else a - c)"
    unfolding hi_def g using h h1 o by auto
  then show ?thesis unfolding l using r by (simp add: uint128_def a_def b_def c_def d_def)
qed

lemma sint_small: "uint w \<le> MaxInt64 \<Longrightarrow> sint w = uint w" for w :: "64 word"
  unfolding sint_uint by (rule signed_take_bit_int_eq_self) (rule order_trans [OF _ uint_ge_0], simp_all)

lemma diff_in_range:
  fixes lo hi :: "64 word"
  assumes "sg = 1 \<or> sg = - 1" "x = sg * (uint hi * 2 ^ 64 + uint lo)"
  shows "(if hi \<noteq> 0 then Inl ResultOutOfRange
      else if lo = 2 ^ 63 - 1 + 1 \<and> sg = - 1 then Inr (- (2 ^ 63))
      else if lo > 2 ^ 63 - 1 then Inl ResultOutOfRange
      else Inr (i64 (sg * sint lo))) = (if int64 x then Inr x else Inl ResultOutOfRange)"
proof (cases "hi = 0")
  case True
  have c: "lo = 2 ^ 63 - 1 + 1 \<longleftrightarrow> uint lo = 9223372036854775808" "lo > 2 ^ 63 - 1 \<longleftrightarrow> uint lo > 9223372036854775807"
    by (simp_all add: word_uint_eq_iff word_less_def)
  have s: "sint lo = uint lo" if "uint lo \<le> 9223372036854775807"
    using that by (rule sint_small)
  define l where "l = uint lo"
  have l: "0 \<le> l" "l < 18446744073709551616" using uint64 [of lo] by (simp_all add: l_def)
  have x: "x = sg * l" using assms(2) True by (simp add: l_def)
  show ?thesis unfolding c l_def [symmetric] x using True assms(1) l s [folded l_def] by (auto simp: int64_def i64_def)
next
  case False
  then have "1 \<le> uint hi" using uint64(1) [of hi] by (metis uint_0_iff int_one_le_iff_zero_less order_le_less)
  then have "18446744073709551616 \<le> uint hi * 18446744073709551616 + uint lo" using uint64(1) [of lo] by linarith
  then have "\<not> int64 x" using assms by (auto simp: int64_def)
  then show ?thesis using False by simp
qed

lemma subIPAddrIPv6_spec:
  "subIPAddrIPv6 u v = (if int64 (uint128 u - uint128 v) then Inr (uint128 u - uint128 v) else Inl ResultOutOfRange)"
proof (cases "uint128 u < uint128 v")
  case True
  then have c: "Uint128_Compare u v < 0 \<longleftrightarrow> True" by (simp add: val_Compare)
  show ?thesis
    unfolding subIPAddrIPv6_def Let_def c if_True prod.case
    by (rule diff_in_range) (use val_diff [of u v] True in simp_all)
next
  case False
  then have c: "Uint128_Compare u v < 0 \<longleftrightarrow> False" by (simp add: val_Compare)
  show ?thesis
    unfolding subIPAddrIPv6_def Let_def c if_False prod.case
    by (rule diff_in_range) (use val_diff [of v u] False in simp_all)
qed

lemma SubIPAddr_exact:
  "SubIPAddr a b =
    (if Family a \<noteq> Family b then Inl (DifferentSizes ''subtract'')
     else if int64 (ip_val a - ip_val b) then Inr (ip_val a - ip_val b) else Inl ResultOutOfRange)"
proof (cases "Family a = Family b \<and> Family a = IPv4family")
  case True
  have s: "sint (w AND IPv4mask) = uint w mod 4294967296" for w :: "64 word"
    unfolding uint_low32 [symmetric] using pos_mod_bound [of 4294967296 "uint w"] by (intro sint_small) (simp add: uint_low32)
  have "int64 (x mod 4294967296 - y mod 4294967296)" for x y :: int
    using pos_mod_bound [of 4294967296 x] pos_mod_sign [of 4294967296 x] pos_mod_bound [of 4294967296 y] pos_mod_sign [of 4294967296 y]
    unfolding int64_def by linarith
  moreover have "Family a = IPv4family" "Family b = IPv4family" using True by metis+
  ultimately show ?thesis by (simp add: SubIPAddr_def subIPAddrIPv4_def s ip_val_cases val_low [symmetric])
next
  case False
  then show ?thesis by (auto simp: SubIPAddr_def subIPAddrIPv6_spec ip_val_cases)
qed

subsection \<open>Masks and subnets\<close>

lemma bit_ip_val: "bit (ip_val ip) n \<longleftrightarrow> n < width ip \<and> bit (uint128 (Addr ip)) n"
  by (simp add: ip_val_def bit_take_bit_iff)

lemma bit_ffff: "bit (0xFFFF :: 64 word) n \<longleftrightarrow> n < 16"
proof -
  have "(0xFFFF :: 64 word) = mask 16" by (simp add: mask_eq_exp_minus_1)
  show ?thesis unfolding \<open>0xFFFF = mask 16\<close> by (auto simp: bit_mask_iff)
qed

lemma bit_prefix: "bit IPv4mappedIPv6prefix n \<longleftrightarrow> 32 \<le> n \<and> n < 48"
  unfolding IPv4mappedIPv6prefix_def bit_push_bit_iff bit_ffff by auto

lemma bit_ones: "bit (NOT 0 :: 64 word) n \<longleftrightarrow> n < 64" "bit (NOT 0 :: 32 word) n \<longleftrightarrow> n < 32"
  by (simp_all add: bit_not_iff)

lemma wf_cases [consumes 1, case_names v4 v6]:
  assumes "wf_ip ip"
  obtains m where "Family ip = IPv4family" "unat (Mask ip) = m" "m \<le> 32" "width ip = 32" "host_bits ip = 32 - m"
      "Hi (Addr ip) = 0" "\<And>n. 32 \<le> n \<Longrightarrow> bit (Lo (Addr ip)) n \<longleftrightarrow> n < 48"
  | m where "Family ip \<noteq> IPv4family" "Family ip = IPv6family" "unat (Mask ip) = m" "m \<le> 128" "width ip = 128" "host_bits ip = 128 - m"
proof (cases "Family ip = IPv4family")
  case True
  have "bit (Lo (Addr ip)) n \<longleftrightarrow> n < 48" if "32 \<le> n" for n
  proof -
    have "drop_bit 32 (Lo (Addr ip)) = 0xFFFF" using assms True by (simp add: wf_ip_def)
    then have "bit (drop_bit 32 (Lo (Addr ip))) (n - 32) \<longleftrightarrow> n - 32 < 16" by (simp only: bit_ffff)
    then show ?thesis using that by (auto simp: bit_drop_bit_eq)
  qed
  then show ?thesis using that(1) [of "unat (Mask ip)"] assms True by (simp add: wf_ip_def word_le_nat_alt width_def host_bits_def)
next
  case False
  then show ?thesis using that(2) [of "unat (Mask ip)"] assms by (simp add: wf_ip_iff width_def host_bits_def)
qed

lemma wf4I:
  assumes "Family ip = IPv4family" "Mask ip \<le> 32" "Hi (Addr ip) = 0" "\<And>n. 32 \<le> n \<Longrightarrow> n < 64 \<Longrightarrow> bit (Lo (Addr ip)) n \<longleftrightarrow> n < 48"
  shows "wf_ip ip"
proof -
  have "drop_bit 32 (Lo (Addr ip)) = 0xFFFF"
  proof (rule bit_word_eqI)
    fix n show "bit (drop_bit 32 (Lo (Addr ip))) n = bit (0xFFFF :: 64 word) n"
      unfolding bit_ffff bit_drop_bit_eq using assms(4) [of "32 + n"] bit_imp_le_length [of "Lo (Addr ip)" "32 + n"]
      by (cases "n < 32") auto
  qed
  then show ?thesis using assms(1-3) by (simp add: wf_ip_def)
qed

lemma mask_arith:
  fixes m :: byte
  shows "unat m \<le> 32 \<Longrightarrow> unat (32 - m) = 32 - unat m" "unat m \<le> 64 \<Longrightarrow> unat (64 - m) = 64 - unat m"
    "unat m \<le> 128 \<Longrightarrow> unat (128 - m) = 128 - unat m" "64 \<le> unat m \<Longrightarrow> unat (m - 64) = unat m - 64"
    "unat m \<le> 32 \<Longrightarrow> unat (32 + m) = 32 + unat m"
  by (simp_all add: unat_sub word_le_nat_alt unat_word_ariths)

lemma mask_le: "m \<le> 64 \<longleftrightarrow> unat m \<le> 64" "m < 64 \<longleftrightarrow> unat m < 64" for m :: byte
  by (simp_all add: word_le_nat_alt word_less_nat_alt)

lemmas mask_bits = bit_val bit_ip_val bit_prefix bit_ones bit_or_iff bit_and_iff bit_xor_iff bit_push_bit_iff bit_drop_bit_eq bit_unsigned_iff bit_not_iff bit_mask_iff
  mask_arith mask_le full_mask_def width_def

lemma Netmask_bits:
  assumes "wf_ip ip"
  shows "wf_ip (Netmask ip)" "Family (Netmask ip) = Family ip" "Mask (Netmask ip) = full_mask (Family ip)"
    "bit (ip_val (Netmask ip)) n \<longleftrightarrow> host_bits ip \<le> n \<and> n < width ip"
proof -
  show "Family (Netmask ip) = Family ip" "Mask (Netmask ip) = full_mask (Family ip)" by (simp_all add: Netmask_def)
  show "bit (ip_val (Netmask ip)) n \<longleftrightarrow> host_bits ip \<le> n \<and> n < width ip"
    using assms
  proof (cases rule: wf_cases)
    case (v4 m)
    then show ?thesis by (auto simp: Netmask_def mask_bits)
  next
    case (v6 m)
    then show ?thesis by (auto simp: Netmask_def mask_bits)
  qed
  show "wf_ip (Netmask ip)"
    using assms
  proof (cases rule: wf_cases)
    case (v4 m)
    then show ?thesis by (intro wf4I) (auto simp: Netmask_def mask_bits)
  next
    case (v6 m)
    then show ?thesis by (auto simp: Netmask_def wf_ip_def full_mask_def)
  qed
qed

lemma Hostmask_bits:
  assumes "wf_ip ip"
  shows "wf_ip (Hostmask ip)" "Family (Hostmask ip) = Family ip" "Mask (Hostmask ip) = full_mask (Family ip)"
    "bit (ip_val (Hostmask ip)) n \<longleftrightarrow> n < host_bits ip"
proof -
  show "Family (Hostmask ip) = Family ip" "Mask (Hostmask ip) = full_mask (Family ip)" by (simp_all add: Hostmask_def)
  show "bit (ip_val (Hostmask ip)) n \<longleftrightarrow> n < host_bits ip"
    using assms by (cases rule: wf_cases) (auto simp: Hostmask_def mask_bits)
  show "wf_ip (Hostmask ip)"
    using assms
  proof (cases rule: wf_cases)
    case (v4 m)
    then show ?thesis by (intro wf4I) (auto simp: Hostmask_def mask_bits)
  next
    case (v6 m)
    then show ?thesis by (auto simp: Hostmask_def wf_ip_def full_mask_def)
  qed
qed

lemma Broadcast_bits:
  assumes "wf_ip ip"
  shows "wf_ip (Broadcast ip)" "Family (Broadcast ip) = Family ip" "Mask (Broadcast ip) = Mask ip"
    "bit (ip_val (Broadcast ip)) n \<longleftrightarrow> bit (ip_val ip) n \<or> n < host_bits ip"
proof -
  show "Family (Broadcast ip) = Family ip" "Mask (Broadcast ip) = Mask ip" by (simp_all add: Broadcast_def)
  show "bit (ip_val (Broadcast ip)) n \<longleftrightarrow> bit (ip_val ip) n \<or> n < host_bits ip"
    using assms by (cases rule: wf_cases) (auto simp: Broadcast_def mask_bits Let_def)
  show "wf_ip (Broadcast ip)"
    using assms
  proof (cases rule: wf_cases)
    case (v4 m)
    then show ?thesis by (intro wf4I) (auto simp: Broadcast_def mask_bits Let_def word_le_nat_alt)
  next
    case (v6 m)
    then show ?thesis using assms by (auto simp: Broadcast_def wf_ip_def)
  qed
qed

lemma bit_IPv4mask: "bit IPv4mask n \<longleftrightarrow> n < 32"
proof -
  have m: "IPv4mask = mask 32" by (simp add: IPv4mask_def mask_eq_exp_minus_1)
  show ?thesis unfolding m by (auto simp: bit_mask_iff)
qed

lemma Complement_bits:
  assumes "wf_ip ip"
  shows "wf_ip (Complement ip)" "Family (Complement ip) = Family ip" "Mask (Complement ip) = Mask ip"
    "bit (ip_val (Complement ip)) n \<longleftrightarrow> n < width ip \<and> \<not> bit (ip_val ip) n"
proof -
  show "Family (Complement ip) = Family ip" "Mask (Complement ip) = Mask ip" by (simp_all add: Complement_def)
  show "bit (ip_val (Complement ip)) n \<longleftrightarrow> n < width ip \<and> \<not> bit (ip_val ip) n"
    using assms by (cases rule: wf_cases) (auto simp: Complement_def mask_bits bit_IPv4mask Uint128_Xor_def)
  show "wf_ip (Complement ip)"
    using assms
  proof (cases rule: wf_cases)
    case (v4 m)
    then show ?thesis by (intro wf4I) (auto simp: Complement_def mask_bits bit_IPv4mask Uint128_Xor_def word_le_nat_alt)
  next
    case (v6 m)
    then show ?thesis using assms by (auto simp: Complement_def wf_ip_def)
  qed
qed

lemma host_bits_le: "host_bits ip \<le> width ip"
  by (simp add: host_bits_def)

lemma int_disjoint: "(\<And>n. \<not> (bit a n \<and> bit b n)) \<Longrightarrow> (\<And>n. bit c n \<longleftrightarrow> bit a n \<or> bit b n) \<Longrightarrow> a + b = c" for a b c :: int
  by (subst disjunctive_add) (auto intro!: bit_eqI simp: bit_or_iff)

lemma mask_values:
  assumes "wf_ip ip"
  shows "ip_val (Hostmask ip) = 2 ^ host_bits ip - 1"
    "ip_val (Netmask ip) = 2 ^ width ip - 2 ^ host_bits ip"
    "ip_val (Broadcast ip) = ip_val ip div 2 ^ host_bits ip * 2 ^ host_bits ip + (2 ^ host_bits ip - 1)"
    "ip_val (Complement ip) = 2 ^ width ip - 1 - ip_val ip"
proof -
  have m: "2 ^ k - 1 = (mask k :: int)" for k by (simp add: mask_eq_exp_minus_1)
  have d: "x div 2 ^ k * 2 ^ k = push_bit k (drop_bit k x)" for x :: int and k by (simp add: push_bit_eq_mult drop_bit_eq_div)
  show "ip_val (Hostmask ip) = 2 ^ host_bits ip - 1"
    unfolding m by (rule bit_eqI) (simp add: Hostmask_bits [OF assms] bit_mask_iff)
  have "ip_val (Netmask ip) + mask (host_bits ip) = mask (width ip)"
    using host_bits_le [of ip] by (intro int_disjoint) (auto simp: Netmask_bits [OF assms] bit_mask_iff)
  then show "ip_val (Netmask ip) = 2 ^ width ip - 2 ^ host_bits ip" by (simp add: mask_eq_exp_minus_1)
  have "push_bit (host_bits ip) (drop_bit (host_bits ip) (ip_val ip)) + mask (host_bits ip) = ip_val (Broadcast ip)"
    by (intro int_disjoint) (auto simp: Broadcast_bits [OF assms] bit_mask_iff bit_push_bit_iff bit_drop_bit_eq)
  then show "ip_val (Broadcast ip) = ip_val ip div 2 ^ host_bits ip * 2 ^ host_bits ip + (2 ^ host_bits ip - 1)"
    unfolding m d by simp
  have "ip_val (Complement ip) + ip_val ip = mask (width ip)"
    by (intro int_disjoint) (auto simp: Complement_bits [OF assms] bit_mask_iff dest: bit_ip_val [THEN iffD1])
  then show "ip_val (Complement ip) = 2 ^ width ip - 1 - ip_val ip" unfolding m by simp
qed

lemma wf_same_prefix:
  assumes "wf_ip a" "wf_ip b" "Family a = Family b" "width a \<le> n"
  shows "bit (uint128 (Addr a)) n \<longleftrightarrow> bit (uint128 (Addr b)) n"
  using assms(1)
proof (cases rule: wf_cases)
  case (v4 m)
  show ?thesis using assms(2)
    by (cases rule: wf_cases) (use v4 assms(3,4) in \<open>auto simp: bit_val\<close>)
next
  case (v6 m)
  then show ?thesis using assms(4) by (auto simp: bit_val dest: bit_imp_le_length)
qed

lemma same_network:
  "ip_val a div 2 ^ k = ip_val b div 2 ^ k \<longleftrightarrow> (\<forall>n \<ge> k. bit (ip_val a) n \<longleftrightarrow> bit (ip_val b) n)"
proof -
  have "ip_val a div 2 ^ k = ip_val b div 2 ^ k \<longleftrightarrow> (\<forall>n. bit (ip_val a) (k + n) \<longleftrightarrow> bit (ip_val b) (k + n))"
    unfolding drop_bit_eq_div [symmetric] bit_eq_iff by (simp add: bit_drop_bit_eq)
  also have "\<dots> \<longleftrightarrow> (\<forall>n \<ge> k. bit (ip_val a) n \<longleftrightarrow> bit (ip_val b) n)"
    by (metis le_add1 le_add_diff_inverse)
  finally show ?thesis .
qed

lemma contains_iff:
  assumes "wf_ip a" "wf_ip b"
  shows "contains_ip a b \<longleftrightarrow> Family a = Family b \<and> ip_val a div 2 ^ host_bits a = ip_val b div 2 ^ host_bits a"
proof (cases "Family a = Family b")
  case True
  have w: "width b = width a" "Family (Netmask a) = Family b" using True by (simp_all add: width_def Netmask_def)
  have le: "Mask ip \<le> full_mask (Family ip)" if "wf_ip ip" for ip
    using that by (auto simp: wf_ip_def full_mask_def split: if_splits)
  have m: "max_mask a (Netmask a) = max_mask b (Netmask a)"
    using le [OF assms(1)] le [OF assms(2)] True by (auto simp: max_mask_def Netmask_def)
  have "contains_ip a b \<longleftrightarrow> uint128 (Addr a) AND uint128 (Addr (Netmask a)) = uint128 (Addr b) AND uint128 (Addr (Netmask a))"
    using True w m by (simp add: contains_ip_def IPAddr_And_def IPAddr_Equal_def Uint128_Equal_def val_bitwise [symmetric] val_inject)
      (auto simp: Uint128_And_def)
  also have "\<dots> \<longleftrightarrow> (\<forall>n. bit (uint128 (Addr (Netmask a))) n \<longrightarrow> (bit (uint128 (Addr a)) n \<longleftrightarrow> bit (uint128 (Addr b)) n))"
    unfolding bit_eq_iff by (auto simp: bit_and_iff)
  also have "\<dots> \<longleftrightarrow> (\<forall>n \<ge> host_bits a. bit (ip_val a) n \<longleftrightarrow> bit (ip_val b) n)"
  proof -
    have "(bit (uint128 (Addr (Netmask a))) n \<longrightarrow> (bit (uint128 (Addr a)) n \<longleftrightarrow> bit (uint128 (Addr b)) n)) \<longleftrightarrow>
        (host_bits a \<le> n \<longrightarrow> (bit (ip_val a) n \<longleftrightarrow> bit (ip_val b) n))" for n
    proof (cases "n < width a")
      case True
      have "width (Netmask a) = width a" by (simp add: width_def Netmask_def)
      then have "bit (uint128 (Addr (Netmask a))) n \<longleftrightarrow> host_bits a \<le> n"
        using Netmask_bits(4) [OF assms(1), of n] True by (simp add: bit_ip_val)
      then show ?thesis using True w(1) by (simp add: bit_ip_val)
    next
      case False
      then show ?thesis using wf_same_prefix [OF assms True, of n] w(1) by (simp add: bit_ip_val)
    qed
    then show ?thesis by simp
  qed
  finally show ?thesis unfolding same_network using True by simp
next
  case False
  then show ?thesis by (auto simp: contains_ip_def IPAddr_And_def Netmask_def)
qed

lemma block_mono:
  assumes "x div 2 ^ k = y div (2 :: int) ^ k" "k \<le> l"
  shows "x div 2 ^ l = y div 2 ^ l"
proof -
  have e: "(2 :: int) ^ l = 2 ^ k * 2 ^ (l - k)" using assms(2) by (simp add: power_add [symmetric])
  show ?thesis unfolding e by (simp add: div_mult2_eq' zdiv_zmult2_eq assms(1))
qed

lemma block_ends:
  fixes x :: int
  assumes "0 \<le> x" "x < 2 ^ w" "k \<le> w"
  shows "(x div 2 ^ k * 2 ^ k) div 2 ^ k = x div 2 ^ k" "(x div 2 ^ k * 2 ^ k + (2 ^ k - 1)) div 2 ^ k = x div 2 ^ k"
    "0 \<le> x div 2 ^ k * 2 ^ k" "x div 2 ^ k * 2 ^ k + (2 ^ k - 1) < 2 ^ w"
proof -
  have e: "(2 :: int) ^ w = 2 ^ (w - k) * 2 ^ k" using assms(3) by (simp add: power_add [symmetric])
  show "(x div 2 ^ k * 2 ^ k) div 2 ^ k = x div 2 ^ k" by simp
  show "(x div 2 ^ k * 2 ^ k + (2 ^ k - 1)) div 2 ^ k = x div 2 ^ k" by (simp add: div_add1_eq)
  show "0 \<le> x div 2 ^ k * 2 ^ k" using assms(1) by (simp add: pos_imp_zdiv_nonneg_iff)
  have "x div 2 ^ k < 2 ^ (w - k)"
  proof (rule ccontr)
    assume "\<not> x div 2 ^ k < 2 ^ (w - k)"
    then have "2 ^ (w - k) * 2 ^ k \<le> x div 2 ^ k * 2 ^ k" by (intro mult_right_mono) auto
    moreover have "0 \<le> x mod 2 ^ k" by simp
    ultimately have "2 ^ (w - k) * 2 ^ k \<le> x" using div_mult_mod_eq [of x "2 ^ k"] by linarith
    then show False using assms(2) e by simp
  qed
  then have "(x div 2 ^ k + 1) * 2 ^ k \<le> 2 ^ (w - k) * 2 ^ k" by (intro mult_right_mono) auto
  then show "x div 2 ^ k * 2 ^ k + (2 ^ k - 1) < 2 ^ w" unfolding e by (simp add: ring_distribs)
qed

lemma network_subset_iff:
  assumes "wf_ip a" "wf_ip b"
  shows "network b \<subseteq> network a \<longleftrightarrow> contains_ip a b \<and> host_bits b \<le> host_bits a"
proof
  assume s: "network b \<subseteq> network a"
  define h where "h = host_bits b"
  note e = block_ends [OF ip_val_range [of b] host_bits_le [of b], folded h_def]
  define x where "x = ip_val b div 2 ^ h * 2 ^ h"
  have "x < 2 ^ width b" using e(4) one_le_power [of "2 :: int" h] unfolding x_def by linarith
  moreover have "0 \<le> x + (2 ^ h - 1)" using e(3) one_le_power [of "2 :: int" h] unfolding x_def by linarith
  ultimately have "(Family b, x) \<in> network b" "(Family b, x + (2 ^ h - 1)) \<in> network b" "(Family b, ip_val b) \<in> network b"
    using e ip_val_range [of b] by (simp_all add: network_def x_def h_def [symmetric])
  then have n: "(Family b, x) \<in> network a" "(Family b, x + (2 ^ h - 1)) \<in> network a" "(Family b, ip_val b) \<in> network a"
    using s by blast+
  have "h \<le> host_bits a"
  proof (rule ccontr)
    assume l: "\<not> h \<le> host_bits a"
    define k where "k = (2 :: int) ^ host_bits a"
    have q: "(x + (2 ^ h - 1)) div k = x div k" using n by (simp add: network_def k_def)
    have "2 ^ h - 1 = (x + (2 ^ h - 1)) mod k - x mod k"
      using div_mult_mod_eq [of x k] div_mult_mod_eq [of "x + (2 ^ h - 1)" k] unfolding q by linarith
    moreover have "0 < k" by (simp add: k_def)
    moreover from this have "(x + (2 ^ h - 1)) mod k - x mod k < k"
      using pos_mod_bound [of k "x + (2 ^ h - 1)"] pos_mod_sign [of k x] by linarith
    moreover have "2 ^ Suc (host_bits a) \<le> (2 :: int) ^ h" using l by (intro power_increasing) auto
    ultimately show False unfolding power_Suc k_def [symmetric] by linarith
  qed
  then show "contains_ip a b \<and> host_bits b \<le> host_bits a"
    using n(3) by (auto simp: contains_iff [OF assms] network_def h_def)
next
  assume c: "contains_ip a b \<and> host_bits b \<le> host_bits a"
  then have f: "Family b = Family a" "ip_val a div 2 ^ host_bits a = ip_val b div 2 ^ host_bits a"
    by (simp_all add: contains_iff [OF assms])
  then have w: "width b = width a" by (simp add: width_def)
  show "network b \<subseteq> network a"
  proof clarify
    fix g x assume "(g, x) \<in> network b"
    then show "(g, x) \<in> network a"
      using f w c block_mono [of x "host_bits b" "ip_val b" "host_bits a"] by (simp add: network_def)
  qed
qed

lemma host_bits_iff:
  assumes "wf_ip a" "wf_ip b" "Family a = Family b"
  shows "host_bits b \<le> host_bits a \<longleftrightarrow> Mask a \<le> Mask b"
proof -
  have "unat (Mask ip) \<le> width ip" if "wf_ip ip" for ip using that by (cases rule: wf_cases) auto
  moreover have "width a = width b" using assms(3) by (simp add: width_def)
  ultimately show ?thesis using assms(1,2) using diff_le_mono2 by (fastforce simp: host_bits_def word_le_nat_alt)
qed

lemma contains_member: "wf_ip a \<Longrightarrow> wf_ip b \<Longrightarrow> contains_ip a b \<longleftrightarrow> (Family b, ip_val b) \<in> network a"
  using ip_val_range [of b] by (auto simp: contains_iff network_def width_def)

lemma network_disjoint_iff:
  assumes "wf_ip a" "wf_ip b"
  shows "network a \<inter> network b \<noteq> {} \<longleftrightarrow> contains_ip a b \<or> contains_ip b a"
proof
  assume "network a \<inter> network b \<noteq> {}"
  then obtain x where x: "Family a = Family b" "x div 2 ^ host_bits a = ip_val a div 2 ^ host_bits a"
      "x div 2 ^ host_bits b = ip_val b div 2 ^ host_bits b" by (auto simp: network_def)
  then show "contains_ip a b \<or> contains_ip b a"
    using block_mono [OF x(2), of "host_bits b"] block_mono [OF x(3), of "host_bits a"]
    by (cases "host_bits a \<le> host_bits b") (simp_all add: contains_iff assms)
next
  have "(Family ip, ip_val ip) \<in> network ip" for ip using ip_val_range [of ip] by (simp add: network_def)
  then show "contains_ip a b \<or> contains_ip b a \<Longrightarrow> network a \<inter> network b \<noteq> {}"
    using contains_member assms by blast
qed

subsection \<open>Buffers and order\<close>

lemma low_with_prefix:
  assumes "wf_ip ip" "Family ip = IPv4family"
  shows "ucast (ucast (Lo (Addr ip)) :: 32 word) OR IPv4mappedIPv6prefix = Lo (Addr ip)"
proof (rule bit_word_eqI)
  fix n assume "n < LENGTH(64)"
  show "bit (ucast (ucast (Lo (Addr ip)) :: 32 word) OR IPv4mappedIPv6prefix) n = bit (Lo (Addr ip)) n"
    using assms(1) by (cases rule: wf_cases) (use assms(2) in \<open>auto simp: bit_or_iff bit_unsigned_iff bit_prefix not_less\<close>)
qed

lemma FromBuffer_ToBuffer:
  assumes "wf_ip ip"
  shows "FromBuffer old (ToBuffer ip [] @ r) =
    Some (if Family ip = IPv4family then ip\<lparr>Addr := (Addr ip)\<lparr>Hi := Hi (Addr old)\<rparr>\<rparr> else ip, Inr r)"
proof (cases "Family ip = IPv4family")
  case True
  have "unat (w :: 32 word) < 256 ^ 4" for w using unsigned_less [of w, where 'a = nat] by simp
  then show ?thesis
    using True low_with_prefix [OF assms True] by (simp add: FromBuffer_def ToBuffer_def Let_def IPv4size_def from_be_be_bytes)
next
  case False
  then have f: "Family ip = IPv6family" using assms by (simp add: wf_ip_def)
  have "FromBytes (be_bytes 8 (Hi (Addr ip)) @ be_bytes 8 (Lo (Addr ip)) @ r) = Some (Addr ip)"
    using FromBytes_GetBytes [of "Addr ip" r] by (simp add: GetBytes_def)
  then show ?thesis using False f by (simp add: FromBuffer_def ToBuffer_def Let_def IPv6size_def)
qed

lemma IPAddr_Compare_val:
  assumes "wf_ip a" "wf_ip b"
  shows "IPAddr_Compare a b =
    (if (Family a, Mask a, ip_val a) < (Family b, Mask b, ip_val b) then - 1
     else if (Family b, Mask b, ip_val b) < (Family a, Mask a, ip_val a) then 1 else 0)"
proof -
  have v: "(uint128 (Addr a) < uint128 (Addr b) \<longleftrightarrow> ip_val a < ip_val b) \<and> (uint128 (Addr b) < uint128 (Addr a) \<longleftrightarrow> ip_val b < ip_val a)"
    if e: "Family a = Family b"
  proof (cases "Family b = IPv4family")
    case True
    then have "uint128 (Addr a) = 281470681743360 + ip_val a" "uint128 (Addr b) = 281470681743360 + ip_val b"
      using wf4_val assms e by metis+
    then show ?thesis by simp
  next
    case False
    then have "ip_val a = uint128 (Addr a)" "ip_val b = uint128 (Addr b)" using ip_val_cases(2) e by metis+
    then show ?thesis by simp
  qed
  show ?thesis
  proof (cases "Family a" "Family b" rule: linorder_cases)
    case equal
    then show ?thesis
      by (cases "Mask a" "Mask b" rule: linorder_cases) (simp_all add: IPAddr_Compare_def val_Compare v)
  qed (auto simp: IPAddr_Compare_def)
qed

subsection \<open>Properties\<close>

text \<open>
  C9: arithmetic on addresses is exact and checked. The value of an address is its 32 or 128 bits
  as a number. Adding or subtracting any \<open>int64\<close> gives the address of that family and mask with
  the sum or difference as its value, and fails exactly when that is no value of the family; the
  mapping prefix of version 4 is kept. The difference of two addresses is returned when it is an
  \<open>int64\<close>, and an error otherwise or when the families differ.
\<close>

theorem ip_arithmetic:
  assumes "wf_ip a" "int64 n"
  shows "(0 \<le> ip_val a + n \<and> ip_val a + n < 2 ^ width a \<longrightarrow>
      (\<exists>r. Add_ip a n = Inr r \<and> wf_ip r \<and> Family r = Family a \<and> Mask r = Mask a \<and> ip_val r = ip_val a + n)) \<and>
    (\<not> (0 \<le> ip_val a + n \<and> ip_val a + n < 2 ^ width a) \<longrightarrow> Add_ip a n = Inl ResultOutOfRange) \<and>
    (0 \<le> ip_val a - n \<and> ip_val a - n < 2 ^ width a \<longrightarrow>
      (\<exists>r. Sub_ip a n = Inr r \<and> wf_ip r \<and> Family r = Family a \<and> Mask r = Mask a \<and> ip_val r = ip_val a - n)) \<and>
    (\<not> (0 \<le> ip_val a - n \<and> ip_val a - n < 2 ^ width a) \<longrightarrow> Sub_ip a n = Inl ResultOutOfRange) \<and>
    SubIPAddr a b =
      (if Family a \<noteq> Family b then Inl (DifferentSizes ''subtract'')
       else if int64 (ip_val a - ip_val b) then Inr (ip_val a - ip_val b) else Inl ResultOutOfRange)"
  using sum_ip_exact [OF assms, of False] sum_ip_exact [OF assms, of True] SubIPAddr_exact [of a b]
  unfolding Add_ip_def Sub_ip_def by simp

theorem ip_arithmetic_witness:
  "(\<exists>r. Add_ip \<lparr>Family = 1, Mask = 128, Addr = \<lparr>Hi = 0, Lo = 5\<rparr>\<rparr> 7 = Inr r \<and> ip_val r = 12) \<and>
   Sub_ip \<lparr>Family = 1, Mask = 128, Addr = \<lparr>Hi = 0, Lo = 5\<rparr>\<rparr> 6 = Inl ResultOutOfRange"
proof -
  have "ip_val \<lparr>Family = 1, Mask = 128, Addr = \<lparr>Hi = 0, Lo = 5\<rparr>\<rparr> = 5" by (simp add: ip_val_def width_def uint128_def IPv4family_def)
  moreover have "wf_ip \<lparr>Family = 1, Mask = 128, Addr = \<lparr>Hi = 0, Lo = 5\<rparr>\<rparr>" by (simp add: wf_ip_def IPv4family_def IPv6family_def)
  ultimately show ?thesis
    using ip_arithmetic [of "\<lparr>Family = 1, Mask = 128, Addr = \<lparr>Hi = 0, Lo = 5\<rparr>\<rparr>" 7] ip_arithmetic [of "\<lparr>Family = 1, Mask = 128, Addr = \<lparr>Hi = 0, Lo = 5\<rparr>\<rparr>" 6]
    by (auto simp: int64_def width_def IPv4family_def)
qed

lemma network_interval:
  assumes "wf_ip a"
  shows "network a = {Family a} \<times> {ip_val (Broadcast a) - ip_val (Hostmask a) .. ip_val (Broadcast a)}"
proof -
  define h q where "h = host_bits a" and "q = ip_val a div 2 ^ h"
  note e = block_ends [OF ip_val_range [of a] host_bits_le [of a], folded h_def, folded q_def]
  have iff: "x div 2 ^ h = q \<longleftrightarrow> q * 2 ^ h \<le> x \<and> x \<le> q * 2 ^ h + (2 ^ h - 1)" for x
  proof
    assume q: "x div 2 ^ h = q"
    have "0 \<le> x mod 2 ^ h" "x mod 2 ^ h < 2 ^ h" by simp_all
    then show "q * 2 ^ h \<le> x \<and> x \<le> q * 2 ^ h + (2 ^ h - 1)" using div_mult_mod_eq [of x "2 ^ h"] unfolding q by linarith
  next
    assume "q * 2 ^ h \<le> x \<and> x \<le> q * 2 ^ h + (2 ^ h - 1)"
    then have "0 \<le> x - q * 2 ^ h" "x - q * 2 ^ h < 2 ^ h" by linarith+
    then have "(q * 2 ^ h + (x - q * 2 ^ h)) div 2 ^ h = q" by (simp only: div_mult_self3 div_pos_pos_trivial)
    then show "x div 2 ^ h = q" by simp
  qed
  have "(f, x) \<in> network a \<longleftrightarrow> f = Family a \<and> q * 2 ^ h \<le> x \<and> x \<le> q * 2 ^ h + (2 ^ h - 1)" for f x
    unfolding network_def h_def [symmetric] q_def [symmetric] mem_Collect_eq prod.case iff
    using e(3,4) by (meson order_trans order_le_less_trans)
  then have "network a = {Family a} \<times> {q * 2 ^ h .. q * 2 ^ h + (2 ^ h - 1)}" by auto
  then show ?thesis unfolding mask_values [OF assms] by (simp add: h_def q_def)
qed

text \<open>
  C7: the comparisons of subnets are inclusions of sets of addresses. The network of an address is
  the set of addresses of its family that agree with it on the bits of its mask, an interval that
  ends in the broadcast address. \<open>ContainsOrEquals\<close> and \<open>ContainedByOrEquals\<close> are inclusion,
  \<open>Contains\<close> and \<open>ContainedBy\<close> strict inclusion, and \<open>ContainsOrContainedBy\<close> says that the
  networks meet.
\<close>

theorem ip_subnets:
  assumes "wf_ip a" "wf_ip b"
  shows "(ContainsOrEquals a b \<longleftrightarrow> network b \<subseteq> network a) \<and> (Contains a b \<longleftrightarrow> network b \<subset> network a) \<and>
    (ContainedByOrEquals a b \<longleftrightarrow> network a \<subseteq> network b) \<and> (ContainedBy a b \<longleftrightarrow> network a \<subset> network b) \<and>
    (ContainsOrContainedBy a b \<longleftrightarrow> network a \<inter> network b \<noteq> {}) \<and>
    network a = {Family a} \<times> {ip_val (Broadcast a) - ip_val (Hostmask a) .. ip_val (Broadcast a)}"
proof -
  have sub: "contains_ip x y \<and> Mask x \<le> Mask y \<longleftrightarrow> network y \<subseteq> network x" if w: "wf_ip x" "wf_ip y" for x y
  proof (cases "Family x = Family y")
    case True
    show ?thesis unfolding network_subset_iff [OF w] host_bits_iff [OF w True] ..
  qed (simp add: network_subset_iff [OF w] contains_iff [OF w])
  have psub: "contains_ip x y \<and> Mask x < Mask y \<longleftrightarrow> network y \<subset> network x" if w: "wf_ip x" "wf_ip y" for x y
  proof -
    have "contains_ip y x" if "contains_ip x y" "Mask x = Mask y"
    proof -
      have "host_bits x = host_bits y" using that by (simp add: contains_iff [OF w] host_bits_def width_def)
      then show ?thesis using that(1) by (simp add: contains_iff w)
    qed
    moreover have "network y \<subset> network x \<longleftrightarrow> network y \<subseteq> network x \<and> \<not> network x \<subseteq> network y" by blast
    ultimately show ?thesis unfolding sub [OF w, symmetric] sub [OF w(2,1), symmetric] by (metis less_le not_le)
  qed
  show ?thesis
    unfolding ContainsOrEquals_def Contains_def ContainedByOrEquals_def ContainedBy_def ContainsOrContainedBy_def
    using sub [OF assms] sub [OF assms(2,1)] psub [OF assms] psub [OF assms(2,1)] network_disjoint_iff [OF assms]
      network_interval [OF assms(1)] by simp
qed

theorem ip_subnets_witness:
  "network \<lparr>Family = 1, Mask = 128, Addr = \<lparr>Hi = 0, Lo = 7\<rparr>\<rparr> \<subset> network \<lparr>Family = 1, Mask = 120, Addr = \<lparr>Hi = 0, Lo = 5\<rparr>\<rparr>"
proof -
  have "Contains \<lparr>Family = 1, Mask = 120, Addr = \<lparr>Hi = 0, Lo = 5\<rparr>\<rparr> \<lparr>Family = 1, Mask = 128, Addr = \<lparr>Hi = 0, Lo = 7\<rparr>\<rparr>"
    by (simp add: Contains_def contains_ip_def IPAddr_And_def Netmask_def IPv4family_def max_mask_def full_mask_def IPAddr_Equal_def
        Uint128_Equal_def Uint128_And_def mask_eq_exp_minus_1)
  then show ?thesis
    using ip_subnets [of "\<lparr>Family = 1, Mask = 120, Addr = \<lparr>Hi = 0, Lo = 5\<rparr>\<rparr>" "\<lparr>Family = 1, Mask = 128, Addr = \<lparr>Hi = 0, Lo = 7\<rparr>\<rparr>"]
    by (simp add: wf_ip_def IPv4family_def IPv6family_def)
qed

text \<open>
  C40: the encoding of an address is read back with what follows it, provided the receiver of the
  decoded address is fresh: for a version 4 address the decoder leaves the high half of the
  receiver as it was. Addresses are ordered by family, then mask, then value.
\<close>

theorem ip_buffer_order:
  assumes "wf_ip a" "wf_ip b" "Hi (Addr old) = 0"
  shows "FromBuffer old (ToBuffer a [] @ r) = Some (a, Inr r) \<and>
    (\<exists>stale c. FromBuffer stale (ToBuffer \<lparr>Family = IPv4family, Mask = 32, Addr = \<lparr>Hi = 0, Lo = IPv4mappedIPv6prefix\<rparr>\<rparr> []) = Some (c, Inr []) \<and>
      \<not> wf_ip c) \<and>
    IPAddr_Compare a b =
      (if (Family a, Mask a, ip_val a) < (Family b, Mask b, ip_val b) then - 1
       else if (Family b, Mask b, ip_val b) < (Family a, Mask a, ip_val a) then 1 else 0) \<and>
    (IPAddr_Compare a b = 0 \<longleftrightarrow> a = b)"
proof (intro conjI exI)
  define c where "c = \<lparr>Family = IPv4family, Mask = 32, Addr = \<lparr>Hi = 0, Lo = IPv4mappedIPv6prefix\<rparr>\<rparr>"
  define stale where "stale = \<lparr>Family = IPv6family, Mask = 128, Addr = \<lparr>Hi = 1, Lo = 0\<rparr>\<rparr>"
  have "wf_ip c" by (rule wf4I) (simp_all add: c_def bit_prefix)
  then show "FromBuffer stale (ToBuffer c []) = Some (c\<lparr>Addr := (Addr c)\<lparr>Hi := 1\<rparr>\<rparr>, Inr [])"
    using FromBuffer_ToBuffer [of c stale "[]"] by (simp add: c_def stale_def)
  show "\<not> wf_ip (c\<lparr>Addr := (Addr c)\<lparr>Hi := 1\<rparr>\<rparr>)" by (simp add: wf_ip_def c_def)
  show "FromBuffer old (ToBuffer a [] @ r) = Some (a, Inr r)"
    using FromBuffer_ToBuffer [OF assms(1), of old r] assms(1,3) by (auto simp: wf_ip_def split: if_splits)
  show "IPAddr_Compare a b = 0 \<longleftrightarrow> a = b"
    using IPAddr_Compare_val [OF assms(1,2)] wf_ip_inject [OF assms(1,2)] by auto
qed (rule IPAddr_Compare_val [OF assms(1,2)])

theorem ip_buffer_order_witness:
  "FromBuffer \<lparr>Family = 0, Mask = 0, Addr = \<lparr>Hi = 0, Lo = 0\<rparr>\<rparr> (ToBuffer \<lparr>Family = 1, Mask = 64, Addr = \<lparr>Hi = 9, Lo = 5\<rparr>\<rparr> [] @ [3]) =
     Some (\<lparr>Family = 1, Mask = 64, Addr = \<lparr>Hi = 9, Lo = 5\<rparr>\<rparr>, Inr [3])"
  using ip_buffer_order [of "\<lparr>Family = 1, Mask = 64, Addr = \<lparr>Hi = 9, Lo = 5\<rparr>\<rparr>" "\<lparr>Family = 1, Mask = 64, Addr = \<lparr>Hi = 9, Lo = 5\<rparr>\<rparr>"
      "\<lparr>Family = 0, Mask = 0, Addr = \<lparr>Hi = 0, Lo = 0\<rparr>\<rparr>" "[3]"]
  by (simp add: wf_ip_def IPv4family_def IPv6family_def)

end
