(* ===== verification/Spec2Isabelle.thy ===== *)
theory Spec2Isabelle
  imports Lexer Parse Bytes_Encode Keyword_Tables Key_Rows Ip_Addr
begin

text \<open>
  Verification of the hand-written part of a PostgreSQL-style SQL front end: how a text is cut into
  tokens and statements, how names and literals are printed so that they are read back, how errors
  get their codes, and how the values of SQL types are computed with and encoded as keys of an
  ordered store. All paths below are under \<open>src/\<close>.

  \<^bold>\<open>Representation.\<close> A Go string is a list of bytes (\<^typ>\<open>string\<close>, one character per byte), a buffer
  of an encoding a list of 8-bit words. Integers are words of their width where the code works on
  bits, and \<^typ>\<open>int\<close> with the wrap-around written out (\<open>i64\<close>, \<open>i32\<close> of \<open>Int_Arith\<close>) where it works
  on signed numbers; division is Go's, towards zero. A panic (a slice or index out of range) is
  \<open>None\<close>, a returned error is \<open>Inl\<close>, and loops are recursive functions with a termination proof, so
  no definition uses fuel. Methods that change their receiver take it and return it.

  \<^bold>\<open>Text to statements.\<close>
  \<^item> \<open>Prelude\<close>, \<open>Utf8\<close>: bytes, slices, sum-typed results; the UTF-8 functions and the \<open>range\<close> loop of Go.
  \<^item> \<open>Lex_Keywords\<close>, \<open>Keyword_Tables\<close>, \<open>Lex_Predicates\<close>: \<open>lex/keywords.go\<close>, \<open>tokens.go\<close>,
    \<open>reserved_keywords.go\<close>, \<open>predicates.go\<close>, \<open>normalize.go\<close>. The tables agree with each other. Unicode case
    mapping, normalisation and the acceptance of a float literal are the parameters \<open>lex_env\<close>.
  \<^item> \<open>Scanner_Base\<close>, \<open>Scanner_Literals\<close>, \<open>Scanner\<close>: \<open>parser/scan.go\<close>, one definition per routine; the
    state is the record \<open>scanner\<close>, the result the record \<open>sqlSymType\<close>. \<open>Scanner_Props\<close> shows that every
    call moves forward and stays in the text, \<open>Scanner_Shift\<close> that it depends only on the text ahead.
  \<^item> \<open>Token_Stream\<close>: \<open>Tokens\<close>, \<open>SplitFirstStatement\<close>, \<open>LastLexicalToken\<close>, \<open>EndsInSemicolon\<close>, all related to
    the list of tokens through the locale \<open>token_source\<close>.
  \<^item> \<open>Pgerror\<close>: \<open>pgwire/pgcode\<close> and \<open>pgwire/pgerror\<close>, the code chosen for a chain of errors.
  \<^item> \<open>Lexer\<close>: \<open>parser/lexer.go\<close> and the messages of \<open>help.go\<close>. The tokens of a statement are delivered once
    and in order, counters count, the caret of an error stands under its token.
  \<^item> \<open>Parse\<close>: \<open>parser/parse.go\<close>. The generated parser is a parameter; whatever it does, the driver gives it
    the statements between the semicolons, each once and in order, and does not panic.

  \<^bold>\<open>Printing.\<close> \<open>Lex_Encode\<close> (\<open>lex/encode.go\<close>, \<open>utils/stringencoding\<close>) shows with the locale
  \<open>literal_printer\<close> that string, identifier and byte literals are scanned back as printed;
  \<open>Bytes_Encode\<close> does the same for the formats of byte arrays with the locale \<open>byte_codec\<close>.

  \<^bold>\<open>Values.\<close> \<open>Int_Arith\<close> (\<open>utils/arith\<close>), \<open>Durations\<close> (\<open>utils/duration\<close>), \<open>Go_Time\<close> (\<open>utils/timeutil\<close>,
  \<open>timeofday\<close>, \<open>timetz\<close>), \<open>Bit_Array\<close>, \<open>Bit_Array_Ops\<close>, \<open>Bit_Array_Props\<close> (\<open>utils/bitarray\<close>, refined by
  operations on lists of bits) and \<open>Ip_Addr\<close> (\<open>utils/uint128\<close>, \<open>utils/ipaddr\<close>, where a subnet is read
  as a set of numbers). The lemmas give exact results, the conditions of failure and the orders.

  \<^bold>\<open>Keys.\<close> The encodings of \<open>utils/encoding\<close> must be read back with any bytes after them and compare
  as bytes the way the values compare. That contract is the locale \<open>key_codec\<close> of \<open>Key_Codec\<close>, with
  \<open>key_pair\<close> for two values in a row and \<open>key_list\<close> for terminated sequences; it is interpreted for
  integers (\<open>Key_Ints\<close>), byte strings (\<open>Key_Bytes\<close>), instants, times with zone, durations and floats
  (\<open>Key_Values\<close>) and bit arrays (\<open>Key_Bits\<close>), in both directions. \<open>Key_Length\<close> finds the length of a value
  without decoding it, on any bytes, and splits a key. \<open>Key_Rows\<close> puts the parts together: the key of
  a row of columns of these types in mixed directions.

  \<^bold>\<open>Bounds.\<close> Token positions are \<open>int32\<close> in the code, so the theorems about the driver speak of texts
  shorter than \<open>2^31\<close> bytes; bit arrays are shorter than \<open>2^61\<close> or \<open>2^62\<close> bits, so that the sums of
  lengths the code forms do not wrap; times, durations and integers are in the range of their type.

  \<^bold>\<open>Not modelled.\<close> The generated grammar \<open>parser/sql.go\<close> and the trees it builds (\<open>ast\<close>), a parameter of
  the driver; type checking, evaluation and pretty-printing of trees; geometry, which is floating-point
  computation and calls of C libraries; of decimals all but the length of an encoding; the value
  (non-key) encodings; the text forms of durations, times and addresses; JSON, dates and CSV; caches,
  interval trees and clocks; and the packages that are input and output: logging, tracing, metrics,
  certificates, the wire protocol, settings and test utilities. Capacities of slices, allocation
  and random generation are not modelled.
\<close>

end
